(* ===== verification/Prelude.thy ===== *)
theory Prelude
  imports Complex_Main "HOL-Library.Word"
begin

text \<open>
  What the component theories share: the C types and operators the source uses, counted
  loops with their invariant rule, a memory-checked pixel buffer, and the generic lemmas
  on lists that the component proofs need.

  A pixel buffer records whether a store ever left it (\<open>fault\<close>), so that memory safety
  is a property of the model and not an assumption of it.
\<close>

section \<open>Collections\<close>

named_theorems frame_simps \<open>which fields of the state an operation leaves alone\<close>
named_theorems paint_simps \<open>what a drawing operation does to each pixel\<close>
named_theorems safe_intros \<open>a drawing operation stays inside the pixel buffer\<close>

section \<open>C types and operators\<close>

type_synonym u8 = "8 word"
type_synonym u16 = "16 word"
type_synonym u32 = "32 word"
type_synonym u64 = "64 word"

text \<open>C's integer division truncates towards zero.\<close>

definition c_div :: "int \<Rightarrow> int \<Rightarrow> int" where
  "c_div a b = (let q = \<bar>a\<bar> div \<bar>b\<bar> in if (a < 0) = (b < 0) then q else - q)"

lemma c_div_nonneg [simp]: "0 \<le> a \<Longrightarrow> 0 < b \<Longrightarrow> c_div a b = a div b"
  by (auto simp: c_div_def)

lemma int_le_div_iff:
  fixes a b n :: int
  assumes "0 < b"
  shows "n \<le> a div b \<longleftrightarrow> n * b \<le> a"
proof
  assume "n \<le> a div b"
  then have "n * b \<le> a div b * b"
    using assms by (intro mult_right_mono) auto
  also have "\<dots> \<le> a"
    using assms pos_mod_sign [of b a] div_mult_mod_eq [of a b] by linarith
  finally show "n * b \<le> a" .
next
  assume "n * b \<le> a"
  then show "n \<le> a div b"
    using assms zdiv_mono1 [of "n * b" a b] by simp
qed

text \<open>The conversion of a floating-point value to \<open>int\<close> drops the fraction.\<close>

definition c_trunc :: "real \<Rightarrow> int" where
  "c_trunc r = (if 0 \<le> r then \<lfloor>r\<rfloor> else \<lceil>r\<rceil>)"

lemma c_trunc_bounds:
  assumes "\<bar>r\<bar> \<le> of_int n"
  shows "- n \<le> c_trunc r" and "c_trunc r \<le> n"
  using assms by (auto simp: c_trunc_def floor_le_iff le_ceiling_iff ceiling_le_iff le_floor_iff)

text \<open>\<open>printf("%d")\<close> of a non-negative number.\<close>

fun decimal :: "nat \<Rightarrow> string" where
  "decimal n = (if n < 10 then [char_of (48 + n)] else decimal (n div 10) @ [char_of (48 + n mod 10)])"

declare decimal.simps [simp del]

section \<open>Counted loops\<close>

text \<open>\<open>for (int i = lo; i < hi; i++) s = body(i, s);\<close>\<close>

definition for_range :: "int \<Rightarrow> int \<Rightarrow> (int \<Rightarrow> 's \<Rightarrow> 's) \<Rightarrow> 's \<Rightarrow> 's" where
  "for_range lo hi body s = fold body [lo..hi - 1] s"

lemma for_range_empty [simp]: "hi \<le> lo \<Longrightarrow> for_range lo hi body s = s"
  by (simp add: for_range_def)

lemma for_range_step:
  "lo < hi \<Longrightarrow> for_range lo hi body s = for_range (lo + 1) hi body (body lo s)"
  by (simp add: for_range_def upto_rec1)

lemma for_range_unfold:
  "for_range lo hi body s = (if lo < hi then for_range (lo + 1) hi body (body lo s) else s)"
  by (simp add: for_range_step)

lemma for_range_last:
  "lo < hi \<Longrightarrow> for_range lo hi body s = body (hi - 1) (for_range lo (hi - 1) body s)"
  by (simp add: for_range_def upto_rec2)

lemma for_range_cong:
  assumes "\<And>i t. lo \<le> i \<Longrightarrow> i < hi \<Longrightarrow> f i t = g i t"
  shows "for_range lo hi f s = for_range lo hi g s"
  unfolding for_range_def by (rule fold_cong) (auto intro: assms)

lemma for_range_shift: "for_range lo hi (\<lambda>i. f (i + d)) s = for_range (lo + d) (hi + d) f s"
proof -
  have "[lo + d..hi + d - 1] = map (\<lambda>i. i + d) [lo..hi - 1]"
    by (rule nth_equalityI) auto
  then show ?thesis
    by (simp add: for_range_def fold_map comp_def)
qed

lemma for_range_split:
  "lo \<le> mid \<Longrightarrow> mid \<le> hi \<Longrightarrow>
    for_range mid hi body (for_range lo mid body s) = for_range lo hi body s"
proof -
  assume "lo \<le> mid" "mid \<le> hi"
  then have "[lo..hi - 1] = [lo..mid - 1] @ [mid..hi - 1]"
    using upto_split1 [of lo mid "hi - 1"] by (cases "mid = hi") auto
  then show ?thesis by (simp add: for_range_def)
qed

lemma for_range_inv:
  assumes "P s" and "\<And>i t. lo \<le> i \<Longrightarrow> i < hi \<Longrightarrow> P t \<Longrightarrow> P (body i t)"
  shows "P (for_range lo hi body s)"
proof -
  have "(\<forall>i \<in> set is. lo \<le> i \<and> i < hi) \<Longrightarrow> P t \<Longrightarrow> P (fold body is t)" for "is" t
    by (induction "is" arbitrary: t) (auto intro: assms(2))
  then show ?thesis
    using assms(1) by (simp add: for_range_def)
qed

text \<open>Induction over the iterations, with a property that may depend on the counter.\<close>

lemma for_range_induct:
  assumes "lo \<le> hi" and "P lo s"
    and "\<And>i t. lo \<le> i \<Longrightarrow> i < hi \<Longrightarrow> P i t \<Longrightarrow> P (i + 1) (body i t)"
  shows "P hi (for_range lo hi body s)"
proof -
  have "hi = lo + int n \<Longrightarrow> (\<And>i t. lo \<le> i \<Longrightarrow> i < hi \<Longrightarrow> P i t \<Longrightarrow> P (i + 1) (body i t))
    \<Longrightarrow> P hi (for_range lo hi body s)" for n hi
  proof (induction n arbitrary: hi)
    case 0
    then show ?case using assms(2) by simp
  next
    case (Suc n)
    have "P (hi - 1) (for_range lo (hi - 1) body s)"
      by (rule Suc.IH) (use Suc.prems in auto)
    moreover have "lo \<le> hi - 1" "hi - 1 < hi"
      using Suc.prems(1) by auto
    ultimately have "P (hi - 1 + 1) (body (hi - 1) (for_range lo (hi - 1) body s))"
      by (intro Suc.prems(2))
    moreover have "for_range lo hi body s = body (hi - 1) (for_range lo (hi - 1) body s)"
      by (rule for_range_last) (use Suc.prems(1) in simp)
    ultimately show ?case by simp
  qed
  from this [of hi "nat (hi - lo)"] show ?thesis
    using assms by simp
qed

section \<open>Pixel buffers\<close>

record framebuffer =
  pix :: "int \<Rightarrow> u32"
  size_px :: int
  fault :: bool

text \<open>\<open>pixels[i] = v\<close>; outside the allocation the store is recorded as a fault.\<close>

definition put_px :: "int \<Rightarrow> u32 \<Rightarrow> framebuffer \<Rightarrow> framebuffer" where
  "put_px i v fb =
     (if 0 \<le> i \<and> i < size_px fb then fb\<lparr>pix := (pix fb)(i := v)\<rparr> else fb\<lparr>fault := True\<rparr>)"

lemma put_px_simps [simp]:
  "size_px (put_px i v fb) = size_px fb"
  "0 \<le> i \<Longrightarrow> i < size_px fb \<Longrightarrow> fault (put_px i v fb) = fault fb"
  "0 \<le> i \<Longrightarrow> i < size_px fb \<Longrightarrow> pix (put_px i v fb) j = (if j = i then v else pix fb j)"
  by (auto simp: put_px_def)

text \<open>The nested loops of every painting routine: rows, then columns, a store where the
  routine's condition holds.\<close>

definition paint_line ::
  "int \<Rightarrow> int \<Rightarrow> int \<Rightarrow> int \<Rightarrow> (int \<Rightarrow> int \<Rightarrow> bool) \<Rightarrow> (int \<Rightarrow> int \<Rightarrow> u32) \<Rightarrow> framebuffer \<Rightarrow> framebuffer"
  where
  "paint_line stride x0 x1 yy cond colour = for_range x0 x1 (\<lambda>xx fb.
     if cond xx yy then put_px (yy * stride + xx) (colour xx yy) fb else fb)"

definition paint ::
  "int \<Rightarrow> int \<Rightarrow> int \<Rightarrow> int \<Rightarrow> int \<Rightarrow> (int \<Rightarrow> int \<Rightarrow> bool) \<Rightarrow> (int \<Rightarrow> int \<Rightarrow> u32) \<Rightarrow> framebuffer \<Rightarrow> framebuffer"
  where
  "paint stride x0 x1 y0 y1 cond colour =
     for_range y0 y1 (\<lambda>yy. paint_line stride x0 x1 yy cond colour)"

text \<open>Row-major coordinates name one pixel each.\<close>

lemma row_major_inj:
  fixes stride :: int
  assumes "0 \<le> x" "x < stride" "0 \<le> x'" "x' < stride"
  shows "y * stride + x = y' * stride + x' \<longleftrightarrow> y = y' \<and> x = x'"
proof
  assume eq: "y * stride + x = y' * stride + x'"
  have "(y * stride + x) div stride = y" "(y' * stride + x') div stride = y'"
    using assms by (auto simp: div_pos_pos_trivial)
  with eq have "y = y'" by simp
  with eq show "y = y' \<and> x = x'" by simp
qed simp

lemma row_major_bounds:
  fixes stride :: int
  assumes "0 \<le> x" "x < stride" "0 \<le> y" "y < rows" "rows * stride \<le> len"
  shows "0 \<le> y * stride + x" and "y * stride + x < len"
proof -
  show "0 \<le> y * stride + x" using assms by simp
  have "(y + 1) * stride \<le> rows * stride"
    using assms by (intro mult_right_mono) auto
  then show "y * stride + x < len"
    using assms by (simp add: algebra_simps)
qed

text \<open>What a painting routine does, when its rectangle lies inside the buffer: exactly the
  selected pixels of the rectangle change, and no store faults.\<close>

lemma paint_line_correct:
  assumes "0 \<le> x0" "x1 \<le> stride" "0 \<le> yy" "yy < rows" "rows * stride \<le> size_px fb"
    and "0 \<le> X" "X < stride"
  shows "size_px (paint_line stride x0 x1 yy cond colour fb) = size_px fb \<and>
    fault (paint_line stride x0 x1 yy cond colour fb) = fault fb \<and>
    pix (paint_line stride x0 x1 yy cond colour fb) (Y * stride + X) =
      (if Y = yy \<and> x0 \<le> X \<and> X < x1 \<and> cond X yy then colour X yy else pix fb (Y * stride + X))"
proof (cases "x0 \<le> x1")
  case True
  let ?P = "\<lambda>i (fb'::framebuffer). size_px fb' = size_px fb \<and> fault fb' = fault fb \<and>
    pix fb' (Y * stride + X) =
      (if Y = yy \<and> x0 \<le> X \<and> X < i \<and> cond X yy then colour X yy else pix fb (Y * stride + X))"
  have "?P x1 (paint_line stride x0 x1 yy cond colour fb)"
    unfolding paint_line_def
  proof (rule for_range_induct [OF True, where P = ?P])
    fix i and t :: framebuffer
    assume i: "x0 \<le> i" "i < x1" and P: "?P i t"
    have b: "0 \<le> yy * stride + i" "yy * stride + i < size_px t"
      using row_major_bounds [of i stride yy rows "size_px fb"] assms(1-5) i P by auto
    have inj: "Y * stride + X = yy * stride + i \<longleftrightarrow> Y = yy \<and> X = i"
      by (rule row_major_inj) (use assms i in auto)
    show "?P (i + 1) (if cond i yy then put_px (yy * stride + i) (colour i yy) t else t)"
      using P b inj i by auto
  qed auto
  then show ?thesis .
next
  case False
  then show ?thesis by (auto simp: paint_line_def)
qed

lemma paint_correct:
  assumes "0 \<le> x0" "x1 \<le> stride" "0 \<le> y0" "y1 \<le> rows" "rows * stride \<le> size_px fb"
    and "0 \<le> X" "X < stride"
  shows "size_px (paint stride x0 x1 y0 y1 cond colour fb) = size_px fb \<and>
    fault (paint stride x0 x1 y0 y1 cond colour fb) = fault fb \<and>
    pix (paint stride x0 x1 y0 y1 cond colour fb) (Y * stride + X) =
      (if x0 \<le> X \<and> X < x1 \<and> y0 \<le> Y \<and> Y < y1 \<and> cond X Y then colour X Y
       else pix fb (Y * stride + X))"
proof (cases "y0 \<le> y1")
  case True
  let ?P = "\<lambda>j (fb'::framebuffer). size_px fb' = size_px fb \<and> fault fb' = fault fb \<and>
    pix fb' (Y * stride + X) =
      (if x0 \<le> X \<and> X < x1 \<and> y0 \<le> Y \<and> Y < j \<and> cond X Y then colour X Y
       else pix fb (Y * stride + X))"
  have "?P y1 (paint stride x0 x1 y0 y1 cond colour fb)"
    unfolding paint_def
  proof (rule for_range_induct [OF True, where P = ?P])
    fix j and t :: framebuffer
    assume j: "y0 \<le> j" "j < y1" and P: "?P j t"
    show "?P (j + 1) (paint_line stride x0 x1 j cond colour t)"
      using paint_line_correct [of x0 x1 stride j rows t X cond colour Y] assms j P by auto
  qed auto
  then show ?thesis .
next
  case False
  then show ?thesis by (auto simp: paint_def)
qed

text \<open>Three consequences in the form the simplifier uses.\<close>

lemma paint_size [simp]: "size_px (paint stride x0 x1 y0 y1 cond colour fb) = size_px fb"
proof -
  have row: "size_px (paint_line stride x0 x1 yy cond colour t) = size_px t" for yy t
    unfolding paint_line_def
    by (rule for_range_inv [where P = "\<lambda>u. size_px u = size_px t"]) auto
  show ?thesis
    unfolding paint_def
    by (rule for_range_inv [where P = "\<lambda>u. size_px u = size_px fb"]) (auto simp: row)
qed

lemma paint_no_fault [safe_intros]:
  assumes "0 \<le> x0" "x1 \<le> stride" "0 \<le> y0" "y1 \<le> rows" "rows * stride \<le> size_px fb" "0 < stride"
    and "\<not> fault fb"
  shows "\<not> fault (paint stride x0 x1 y0 y1 cond colour fb)"
  using paint_correct [OF assms(1-5), of 0] assms(6,7) by simp

section \<open>Lists\<close>

text \<open>Removing one element by position, as \<open>memmove\<close> over the tail of an array does.\<close>

definition remove_nth :: "nat \<Rightarrow> 'a list \<Rightarrow> 'a list" where
  "remove_nth i xs = take i xs @ drop (Suc i) xs"

lemma length_remove_nth [simp]: "i < length xs \<Longrightarrow> length (remove_nth i xs) = length xs - 1"
  by (simp add: remove_nth_def)

lemma nth_remove_nth:
  "i < length xs \<Longrightarrow> j < length xs - 1 \<Longrightarrow>
    remove_nth i xs ! j = (if j < i then xs ! j else xs ! Suc j)"
  by (auto simp: remove_nth_def nth_append)

lemma set_remove_nth_subset: "set (remove_nth i xs) \<subseteq> set xs"
  by (auto simp: remove_nth_def dest: in_set_takeD in_set_dropD)

lemma distinct_remove_nth [simp]: "distinct xs \<Longrightarrow> distinct (remove_nth i xs)"
  by (auto simp: remove_nth_def set_take_disj_set_drop_if_distinct)

lemma map_remove_nth: "map f (remove_nth i xs) = remove_nth i (map f xs)"
  by (simp add: remove_nth_def take_map drop_map)

lemma set_remove_nth_distinct:
  "distinct xs \<Longrightarrow> i < length xs \<Longrightarrow> set (remove_nth i xs) = set xs - {xs ! i}"
proof -
  assume d: "distinct xs" and i: "i < length xs"
  have split: "xs = take i xs @ xs ! i # drop (Suc i) xs"
    using i by (simp add: id_take_nth_drop)
  have "distinct (take i xs @ xs ! i # drop (Suc i) xs)"
    using d split by simp
  moreover have "set xs = set (take i xs) \<union> {xs ! i} \<union> set (drop (Suc i) xs)"
    by (subst split) auto
  ultimately show ?thesis
    by (auto simp: remove_nth_def)
qed

end
