(* ===== verification/PeelKeymap.thy ===== *)
theory PeelKeymap
  imports Prelude
begin

text \<open>
  The keyboard half of the WPE platform backend
  (\<open>userland/bin/orange-browser/peel-platform.c\<close>): set-1 scancodes of the US layout
  to XKB keycodes and keysyms, and the \<open>WPEKeymap\<close> operations built on the same tables.

  \<open>WPEModifiers\<close> is a bit set of WPE's headers; the model keeps the set and not the bit
  positions, so \<open>|\<close>, \<open>& ~\<close> and \<open>^\<close> are union, difference and symmetric difference.
  An out-parameter pair with a \<open>gboolean\<close> result is an option.
\<close>

section \<open>Modifiers\<close>

datatype wpe_modifier =
    KEYBOARD_CONTROL | KEYBOARD_SHIFT | KEYBOARD_ALT | KEYBOARD_META | KEYBOARD_CAPS_LOCK
  | POINTER_BUTTON1 | POINTER_BUTTON2 | POINTER_BUTTON3

type_synonym wpe_modifiers = "wpe_modifier set"

section \<open>The layout tables\<close>

text \<open>A C array with designated initialisers: zeros, overwritten by runs of values that
  start at a given index.\<close>

fun overwrite :: "nat \<Rightarrow> int list \<Rightarrow> int list \<Rightarrow> int list" where
  "overwrite i [] table = table"
| "overwrite i (v # vs) table = overwrite (Suc i) vs (table[i := v])"

definition c_array :: "nat \<Rightarrow> (nat \<times> int list) list \<Rightarrow> int list" where
  "c_array n runs = fold (\<lambda>(i, vs). overwrite i vs) runs (replicate n 0)"

definition codes :: "string \<Rightarrow> int list" where
  "codes s = map of_char s"

definition plain :: "int list" where
  "plain = c_array 0x59
     [(0x01, [0xff1b]), (0x02, codes ''1234567890-=''), (0x0E, [0xff08]),
      (0x0F, 0xff09 # codes ''qwertyuiop[]''), (0x1C, [0xff0d]),
      (0x1D, [0xffe3]), (0x1E, codes ''asdfghjkl;'' @ [39, 96]),
      (0x2A, [0xffe1]), (0x2B, [92]), (0x2C, codes ''zxcvbnm,./''),
      (0x36, [0xffe2]), (0x37, [0xffaa]), (0x38, [0xffe9]), (0x39, codes '' ''), (0x3A, [0xffe5]),
      (0x3B, [0xffbe, 0xffbf, 0xffc0, 0xffc1, 0xffc2, 0xffc3, 0xffc4, 0xffc5, 0xffc6, 0xffc7]),
      (0x57, [0xffc8]), (0x58, [0xffc9])]"

definition shifted :: "int list" where
  "shifted = c_array 0x59
     [(0x02, codes ''!@#$%^&*()_+''),
      (0x10, codes ''QWERTYUIOP{}''),
      (0x1E, codes ''ASDFGHJKL:'' @ [34, 126]),
      (0x2B, [124]), (0x2C, codes ''ZXCVBNM<>?'')]"

text \<open>Extended (E0) scancodes: scancode, evdev keycode, keysym.\<close>

definition extended_keys :: "(nat \<times> nat \<times> int) list" where
  "extended_keys =
     [(0x1C, 96, 0xff8d), (0x1D, 97, 0xffe4), (0x35, 98, 0xffaf), (0x38, 100, 0xffea),
      (0x47, 102, 0xff50), (0x48, 103, 0xff52), (0x49, 104, 0xff55), (0x4B, 105, 0xff51),
      (0x4D, 106, 0xff53), (0x4F, 107, 0xff57), (0x50, 108, 0xff54), (0x51, 109, 0xff56),
      (0x52, 110, 0xff63), (0x53, 111, 0xffff), (0x5B, 125, 0xffeb), (0x5C, 126, 0xffec)]"

definition is_letter :: "int \<Rightarrow> bool" where
  "is_letter keysym \<longleftrightarrow> keysym \<ge> of_char (CHR ''a'') \<and> keysym \<le> of_char (CHR ''z'')"

section \<open>Operations\<close>

text \<open>\<open>Some (keycode, keyval)\<close>, or \<open>None\<close> for \<open>FALSE\<close>.\<close>

definition orange_key_translate :: "nat \<Rightarrow> bool \<Rightarrow> wpe_modifiers \<Rightarrow> (nat \<times> int) option" where
  "orange_key_translate scancode extended modifiers =
     (if extended then
        (case find (\<lambda>(sc, _, _). sc = scancode) extended_keys of
           Some (_, evdev, keysym) \<Rightarrow> Some (evdev + 8, keysym)
         | None \<Rightarrow> None)
      else if scancode \<ge> length plain \<or> plain ! scancode = 0 then None
      else
        let shift0 = KEYBOARD_SHIFT \<in> modifiers;
            shift = (if is_letter (plain ! scancode) \<and> KEYBOARD_CAPS_LOCK \<in> modifiers
                     then \<not> shift0 else shift0)
        in Some (scancode + 8,
                 if shift \<and> shifted ! scancode \<noteq> 0 then shifted ! scancode else plain ! scancode))"

definition orange_key_modifier :: "nat \<Rightarrow> bool \<Rightarrow> wpe_modifiers" where
  "orange_key_modifier scancode extended =
     (if scancode = 0x1D then {KEYBOARD_CONTROL}
      else if scancode = 0x2A \<or> scancode = 0x36 then (if extended then {} else {KEYBOARD_SHIFT})
      else if scancode = 0x38 then {KEYBOARD_ALT}
      else if scancode = 0x5B \<or> scancode = 0x5C then (if extended then {KEYBOARD_META} else {})
      else {})"

record keymap_entry =
  e_keycode :: nat
  e_group :: int
  e_level :: int

text \<open>The entries in the order the array collects them; the C function returns whether the
  list is non-empty.\<close>

definition keymap_entries_for_keyval :: "int \<Rightarrow> keymap_entry list" where
  "keymap_entries_for_keyval keyval =
     concat (map (\<lambda>code.
        (if plain ! code = keyval then [\<lparr>e_keycode = code + 8, e_group = 0, e_level = 0\<rparr>] else []) @
        (if shifted ! code \<noteq> 0 \<and> shifted ! code = keyval
         then [\<lparr>e_keycode = code + 8, e_group = 0, e_level = 1\<rparr>] else [])) [0..<length plain]) @
     concat (map (\<lambda>(_, evdev, keysym).
        if keysym = keyval then [\<lparr>e_keycode = evdev + 8, e_group = 0, e_level = 0\<rparr>] else []) extended_keys)"

text \<open>The loop over \<open>extended_keys\<close> has no \<open>break\<close>: the last match wins.\<close>

definition keymap_find_extended :: "nat \<Rightarrow> nat \<times> bool" where
  "keymap_find_extended evdev =
     fold (\<lambda>(sc, ev, _) r. if ev = evdev then (sc, True) else r) extended_keys (evdev, False)"

record translation =
  t_keyval :: int
  t_group :: int
  t_level :: int
  t_consumed :: wpe_modifiers

definition keymap_translate :: "nat \<Rightarrow> wpe_modifiers \<Rightarrow> translation option" where
  "keymap_translate keycode modifiers =
     (if keycode < 8 then None
      else
        let (scancode, extended) = keymap_find_extended (keycode - 8)
        in case orange_key_translate scancode extended modifiers of
             None \<Rightarrow> None
           | Some (_, value) \<Rightarrow>
               let shifted_level = (\<not> extended \<and> scancode < length shifted \<and>
                     shifted ! scancode \<noteq> 0 \<and> value = shifted ! scancode)
               in Some \<lparr>t_keyval = value, t_group = 0,
                        t_level = (if shifted_level then 1 else 0),
                        t_consumed = (if shifted_level then {KEYBOARD_SHIFT} else {})\<rparr>)"

definition keymap_modifiers :: wpe_modifiers where
  "keymap_modifiers = {}"

section \<open>The tables\<close>

text \<open>The initialisers evaluated; the evaluated form is what the code generator uses.\<close>

lemma plain_code [code]:
  "plain = [0, 65307, 49, 50, 51, 52, 53, 54, 55, 56, 57, 48, 45, 61, 65288, 65289,
  113, 119, 101, 114, 116, 121, 117, 105, 111, 112, 91, 93, 65293, 65507,
  97, 115, 100, 102, 103, 104, 106, 107, 108, 59, 39, 96, 65505, 92, 122,
  120, 99, 118, 98, 110, 109, 44, 46, 47, 65506, 65450, 65513, 32, 65509,
  65470, 65471, 65472, 65473, 65474, 65475, 65476, 65477, 65478, 65479, 0,
  0, 0, 0, 0, 0, 0, 0, 0, 0, 0, 0, 0, 0, 0, 0, 0, 0, 65480, 65481]"
  by code_simp

lemma shifted_code [code]:
  "shifted = [0, 0, 33, 64, 35, 36, 37, 94, 38, 42, 40, 41, 95, 43, 0, 0, 81, 87, 69,
  82, 84, 89, 85, 73, 79, 80, 123, 125, 0, 0, 65, 83, 68, 70, 71, 72, 74,
  75, 76, 58, 34, 126, 0, 124, 90, 88, 67, 86, 66, 78, 77, 60, 62, 63, 0, 0,
  0, 0, 0, 0, 0, 0, 0, 0, 0, 0, 0, 0, 0, 0, 0, 0, 0, 0, 0, 0, 0, 0, 0, 0, 0,
  0, 0, 0, 0, 0, 0, 0, 0]"
  by code_simp

lemma length_plain [simp]: "length plain = 0x59"
  by code_simp

lemma length_shifted [simp]: "length shifted = 0x59"
  by code_simp

definition key_ok :: "nat \<Rightarrow> bool" where
  "key_ok code \<longleftrightarrow>
     (shifted ! code \<noteq> 0 \<longrightarrow> plain ! code \<noteq> 0 \<and> shifted ! code \<noteq> plain ! code) \<and>
     (is_letter (plain ! code) \<longrightarrow> shifted ! code \<noteq> 0) \<and>
     keymap_find_extended code = (code, False)"

text \<open>Shifted symbols sit on keys that have a plain one and differ from it, letters have
  a capital, and no plain scancode is an evdev code of the extended keys.\<close>

lemma key_ok_all: "code < 0x59 \<Longrightarrow> key_ok code"
proof -
  have "list_all key_ok [0..<0x59]" by code_simp
  then show "code < 0x59 \<Longrightarrow> key_ok code" by (simp add: list_all_iff)
qed

lemma keymap_find_extended_key:
  "(sc, evdev, keysym) \<in> set extended_keys \<Longrightarrow> keymap_find_extended evdev = (sc, True)"
proof -
  have "list_all (\<lambda>(sc, evdev, keysym). keymap_find_extended evdev = (sc, True)) extended_keys"
    by code_simp
  then show "(sc, evdev, keysym) \<in> set extended_keys \<Longrightarrow> keymap_find_extended evdev = (sc, True)"
    by (auto simp: list_all_iff)
qed

lemma find_extended_key:
  "(sc, evdev, keysym) \<in> set extended_keys \<Longrightarrow>
    find (\<lambda>(s, _, _). s = sc) extended_keys = Some (sc, evdev, keysym)"
proof -
  have "list_all (\<lambda>(sc, evdev, keysym).
      find (\<lambda>(s, _, _). s = sc) extended_keys = Some (sc, evdev, keysym)) extended_keys"
    by code_simp
  then show "(sc, evdev, keysym) \<in> set extended_keys \<Longrightarrow>
      find (\<lambda>(s, _, _). s = sc) extended_keys = Some (sc, evdev, keysym)"
    by (auto simp: list_all_iff)
qed

lemma find_extended_SomeD:
  "find (\<lambda>(s, _, _). s = sc) extended_keys = Some (sc', evdev, keysym) \<Longrightarrow>
    sc' = sc \<and> (sc, evdev, keysym) \<in> set extended_keys"
  using nth_mem by (fastforce simp: find_Some_iff)

text \<open>Case analysis of a successful translation.\<close>

lemma orange_key_translate_cases:
  assumes "orange_key_translate sc ext mods = Some (kc, kv)"
  obtains (extended) evdev where "ext" "(sc, evdev, kv) \<in> set extended_keys" "kc = evdev + 8"
  | (plain) "\<not> ext" "sc < 0x59" "plain ! sc \<noteq> 0" "kc = sc + 8" "kv = plain ! sc"
  | (shifted) "\<not> ext" "sc < 0x59" "plain ! sc \<noteq> 0" "kc = sc + 8" "kv = shifted ! sc" "shifted ! sc \<noteq> 0"
  using assms
  by (auto simp: orange_key_translate_def Let_def split: if_splits option.splits dest: find_extended_SomeD)

lemma translate_extended:
  "(sc, evdev, kv) \<in> set extended_keys \<Longrightarrow> orange_key_translate sc True mods = Some (evdev + 8, kv)"
  by (simp add: orange_key_translate_def find_extended_key)

lemma translate_plain_key:
  "sc < 0x59 \<Longrightarrow> plain ! sc \<noteq> 0 \<Longrightarrow> orange_key_translate sc False {} = Some (sc + 8, plain ! sc)"
  by (simp add: orange_key_translate_def)

lemma translate_shifted_key:
  "sc < 0x59 \<Longrightarrow> shifted ! sc \<noteq> 0 \<Longrightarrow>
    orange_key_translate sc False {KEYBOARD_SHIFT} = Some (sc + 8, shifted ! sc)"
  using key_ok_all [of sc] by (simp add: orange_key_translate_def key_ok_def)

lemma keymap_translate_extended:
  "(sc, evdev, kv) \<in> set extended_keys \<Longrightarrow>
    keymap_translate (evdev + 8) mods = Some \<lparr>t_keyval = kv, t_group = 0, t_level = 0, t_consumed = {}\<rparr>"
  by (simp add: keymap_translate_def keymap_find_extended_key translate_extended)

lemma keymap_translate_key:
  "sc < 0x59 \<Longrightarrow> plain ! sc \<noteq> 0 \<Longrightarrow> orange_key_translate sc False mods = Some (kc, kv) \<Longrightarrow>
    keymap_translate (sc + 8) mods =
      (if shifted ! sc \<noteq> 0 \<and> kv = shifted ! sc
       then Some \<lparr>t_keyval = kv, t_group = 0, t_level = 1, t_consumed = {KEYBOARD_SHIFT}\<rparr>
       else Some \<lparr>t_keyval = kv, t_group = 0, t_level = 0, t_consumed = {}\<rparr>)"
  using key_ok_all [of sc] by (simp add: keymap_translate_def key_ok_def)

lemma entries_iff:
  "e \<in> set (keymap_entries_for_keyval kv) \<longleftrightarrow>
     (\<exists>code < 0x59. plain ! code = kv \<and> e = \<lparr>e_keycode = code + 8, e_group = 0, e_level = 0\<rparr>) \<or>
     (\<exists>code < 0x59. shifted ! code \<noteq> 0 \<and> shifted ! code = kv \<and>
        e = \<lparr>e_keycode = code + 8, e_group = 0, e_level = 1\<rparr>) \<or>
     (\<exists>sc evdev. (sc, evdev, kv) \<in> set extended_keys \<and>
        e = \<lparr>e_keycode = evdev + 8, e_group = 0, e_level = 0\<rparr>)"
  by (fastforce simp: keymap_entries_for_keyval_def)

text \<open>Inversion of the backend's translation: an extended key or a plain scancode.\<close>

lemma keymap_find_extended_inv:
  "keymap_find_extended ev = (sc, ext) \<Longrightarrow>
    (if ext then \<exists>keysym. (sc, ev, keysym) \<in> set extended_keys else sc = ev)"
proof -
  have "fold (\<lambda>(sc, e, _) r. if e = ev then (sc, True) else r) ks r = (sc, ext) \<Longrightarrow>
      r = (sc, ext) \<or> ext \<and> (\<exists>keysym. (sc, ev, keysym) \<in> set ks)"
    for ks :: "(nat \<times> nat \<times> int) list" and r sc ext
    by (induction ks arbitrary: r) (force split: if_splits)+
  from this [of extended_keys "(ev, False)" sc ext]
  show "keymap_find_extended ev = (sc, ext) \<Longrightarrow>
      (if ext then \<exists>keysym. (sc, ev, keysym) \<in> set extended_keys else sc = ev)"
    by (auto simp: keymap_find_extended_def)
qed

lemma keymap_translate_SomeD:
  assumes "keymap_translate kc mods = Some t"
  shows "\<exists>e \<in> set (keymap_entries_for_keyval (t_keyval t)). e_keycode e = kc \<and> e_level e = t_level t"
proof -
  obtain sc ext where f: "keymap_find_extended (kc - 8) = (sc, ext)" by fastforce
  from assms f obtain kc' where kc: "8 \<le> kc" and tr: "orange_key_translate sc ext mods = Some (kc', t_keyval t)"
    and lv: "t_level t = (if \<not> ext \<and> sc < 0x59 \<and> shifted ! sc \<noteq> 0 \<and> t_keyval t = shifted ! sc then 1 else 0)"
    by (auto simp: keymap_translate_def Let_def split: if_splits option.splits)
  from tr show ?thesis
  proof (cases rule: orange_key_translate_cases)
    case (extended evdev)
    moreover from extended f keymap_find_extended_inv [OF f] obtain k where "(sc, kc - 8, k) \<in> set extended_keys"
      by auto
    ultimately have "Some (sc, evdev, t_keyval t) = Some (sc, kc - 8, k)"
      using find_extended_key by metis
    then have "evdev = kc - 8" by simp
    with extended kc have "kc = evdev + 8" "(sc, evdev, t_keyval t) \<in> set extended_keys" by auto
    with extended lv show ?thesis
      by (intro bexI [of _ "\<lparr>e_keycode = kc, e_group = 0, e_level = 0\<rparr>"]) (auto simp: entries_iff)
  next
    case plain
    with keymap_find_extended_inv [OF f] kc lv key_ok_all [of sc] show ?thesis
      by (fastforce simp: entries_iff Bex_def key_ok_def)
  next
    case shifted
    with keymap_find_extended_inv [OF f] kc lv show ?thesis
      by (fastforce simp: entries_iff Bex_def)
  qed
qed

section \<open>The keymap contract\<close>

text \<open>What WPE relies on when it is given a \<open>WPEKeymap\<close>: the entries of a keysym are
  keys that type it at their level, and whatever a key types is listed under its keysym.\<close>

definition level_modifiers :: "int \<Rightarrow> wpe_modifiers" where
  "level_modifiers l = (if l = 1 then {KEYBOARD_SHIFT} else {})"

locale wpe_keymap =
  fixes entries :: "int \<Rightarrow> keymap_entry list"
    and translate :: "nat \<Rightarrow> wpe_modifiers \<Rightarrow> translation option"
  assumes entries_typed: "kv \<noteq> 0 \<Longrightarrow> e \<in> set (entries kv) \<Longrightarrow>
      translate (e_keycode e) (level_modifiers (e_level e)) =
        Some \<lparr>t_keyval = kv, t_group = e_group e, t_level = e_level e,
              t_consumed = level_modifiers (e_level e)\<rparr>"
    and typed_listed: "translate kc mods = Some t \<Longrightarrow>
      \<exists>e \<in> set (entries (t_keyval t)). e_keycode e = kc \<and> e_level e = t_level t"
begin

lemma typeable_iff_listed:
  assumes "kv \<noteq> 0"
  shows "(\<exists>kc mods t. translate kc mods = Some t \<and> t_keyval t = kv) \<longleftrightarrow> entries kv \<noteq> []"
proof
  assume "\<exists>kc mods t. translate kc mods = Some t \<and> t_keyval t = kv"
  then show "entries kv \<noteq> []" using typed_listed by fastforce
next
  assume "entries kv \<noteq> []"
  then obtain e where "e \<in> set (entries kv)" by (meson last_in_set)
  from entries_typed [OF assms this]
  show "\<exists>kc mods t. translate kc mods = Some t \<and> t_keyval t = kv"
    by (intro exI conjI) auto
qed

text \<open>A key that types \<open>kv\<close> under some modifiers also types it under its level's
  modifiers alone: what other modifiers were held does not matter.\<close>

lemma level_modifiers_suffice:
  assumes "translate kc mods = Some t" "t_keyval t \<noteq> 0"
  shows "\<exists>t'. translate kc (level_modifiers (t_level t)) = Some t' \<and> t_keyval t' = t_keyval t"
  using typed_listed [OF assms(1)] entries_typed [OF assms(2)] by fastforce

end

lemma entries_typed_orange:
  assumes "kv \<noteq> 0" and "e \<in> set (keymap_entries_for_keyval kv)"
  shows "keymap_translate (e_keycode e) (level_modifiers (e_level e)) =
    Some \<lparr>t_keyval = kv, t_group = e_group e, t_level = e_level e,
          t_consumed = level_modifiers (e_level e)\<rparr>"
proof -
  from assms(2) consider
      code where "code < 0x59" "plain ! code = kv" "e = \<lparr>e_keycode = code + 8, e_group = 0, e_level = 0\<rparr>"
    | code where "code < 0x59" "shifted ! code \<noteq> 0" "shifted ! code = kv"
        "e = \<lparr>e_keycode = code + 8, e_group = 0, e_level = 1\<rparr>"
    | sc evdev where "(sc, evdev, kv) \<in> set extended_keys"
        "e = \<lparr>e_keycode = evdev + 8, e_group = 0, e_level = 0\<rparr>"
    unfolding entries_iff by blast
  then show ?thesis
  proof cases
    case (1 code)
    with assms(1) key_ok_all [of code] show ?thesis
      by (auto simp: keymap_translate_key [OF _ _ translate_plain_key] key_ok_def level_modifiers_def)
  next
    case (2 code)
    with key_ok_all [of code] show ?thesis
      by (simp add: keymap_translate_key [OF _ _ translate_shifted_key] key_ok_def level_modifiers_def)
  next
    case (3 sc evdev)
    then show ?thesis by (simp add: keymap_translate_extended level_modifiers_def)
  qed
qed

interpretation orange_keymap: wpe_keymap keymap_entries_for_keyval keymap_translate
  by unfold_locales (simp_all add: entries_typed_orange keymap_translate_SomeD)

section \<open>Properties\<close>

text \<open>C26: The two directions of the keyboard backend agree: when a scancode translates to a
  keycode and a keysym, WPE's keymap translates that keycode under the same modifiers back
  to the same keysym, for plain and for extended keys.\<close>

theorem keymap_translate_inverts:
  assumes "orange_key_translate sc ext mods = Some (kc, kv)"
  shows "map_option t_keyval (keymap_translate kc mods) = Some kv"
  using assms
proof (cases rule: orange_key_translate_cases)
  case (extended evdev)
  then show ?thesis by (simp add: keymap_translate_extended)
next
  case plain
  then show ?thesis using assms keymap_translate_key [of sc mods kc kv] by auto
next
  case shifted
  then show ?thesis using assms keymap_translate_key [of sc mods kc kv] by auto
qed

theorem keymap_translate_inverts_witness:
  "orange_key_translate 0x1E False {KEYBOARD_SHIFT} = Some (38, 65) \<and>
   map_option t_keyval (keymap_translate 38 {KEYBOARD_SHIFT}) = Some 65"
proof -
  have t: "orange_key_translate 0x1E False {KEYBOARD_SHIFT} = Some (38, 65)"
    by code_simp
  show ?thesis
    using t keymap_translate_inverts [OF t] by simp
qed



text \<open>Caps Lock inverts Shift for the letter keys and changes nothing else.\<close>

theorem caps_lock_inverts_shift:
  "orange_key_translate sc False (sym_diff mods {KEYBOARD_CAPS_LOCK}) =
    (if sc < 0x59 \<and> is_letter (plain ! sc)
     then orange_key_translate sc False (sym_diff mods {KEYBOARD_SHIFT})
     else orange_key_translate sc False mods)"
  by (auto simp: orange_key_translate_def Let_def)

text \<open>The lookup of keyval 0 (no key) is not refused: the scancodes the layout leaves
  unused have keysym 0 in \<open>plain\<close>, and unlike the \<open>shifted\<close> test the comparison
  \<open>plain[code] == keyval\<close> does not exclude them. The entries it reports translate to
  nothing under any modifiers.\<close>

theorem entries_for_zero:
  "keymap_entries_for_keyval 0 \<noteq> [] \<and>
   filter (\<lambda>e. \<exists>mods. keymap_translate (e_keycode e) mods \<noteq> None) (keymap_entries_for_keyval 0) = []"
proof -
  have "keymap_entries_for_keyval 0 \<noteq> []"
    by code_simp
  moreover have "(sc, evdev, 0) \<notin> set extended_keys" for sc evdev
    by (simp add: extended_keys_def)
  moreover have "keymap_translate (code + 8) mods = None" if "code < 0x59" "plain ! code = 0" for code mods
    using that key_ok_all [of code]
    by (simp add: keymap_translate_def key_ok_def orange_key_translate_def)
  ultimately show ?thesis
    by (auto simp: entries_iff filter_empty_conv)
qed

end
