(* ===== verification/External.thy ===== *)
theory External
  imports PeelKeymap
begin

text \<open>
  The outside world of Orange Browser: the calls it makes into WPE WebKit, GLib and libpeel.

  Those libraries are not part of the repository, so nothing is assumed about what they do.
  Each call that changes them is appended to a trace, in program order, and each value the
  program reads back from them is a parameter of the model (the record \<open>engine\<close>) that may
  depend on the whole trace so far: on every call made and every event received. A theorem
  about the browser therefore holds for every behaviour of the engine.

  GLib signal emissions are events received between handlers (\<open>Received\<close>): \<open>on_uri\<close>
  running inside \<open>webkit_web_view_load_uri\<close> is the same as \<open>on_uri\<close> right after it,
  since the callers only redraw afterwards.
\<close>

text \<open>GObjects are numbered; 0 is \<open>NULL\<close>.\<close>

type_synonym view = nat
type_synonym webview = nat
type_synonym wpe_buffer = nat

datatype wpe_event =
    Keyboard bool wpe_modifiers nat int              \<comment> \<open>down, modifiers, keycode, keyval\<close>
  | PointerMove wpe_modifiers int int
  | PointerButton bool wpe_modifiers nat int int     \<comment> \<open>down, modifiers, button, x, y\<close>
  | Scroll wpe_modifiers int int int int             \<comment> \<open>modifiers, delta x, delta y, x, y\<close>

text \<open>\<open>PeelEvent\<close>, as libpeel's C interface delivers it.\<close>

record peel_event =
  pe_kind :: nat
  pe_code :: u32
  pe_value :: u32
  pe_x :: int
  pe_y :: int

datatype incoming =
    InPeel peel_event | InUri webview | InTitle webview | InProgress webview
  | InLoad webview bool | InFailed string string | InCreate webview | InClose webview
  | InRender view | InIdle

datatype call =
    Received incoming
    \<comment> \<open>WPE Platform\<close>
  | SetVisible view bool | ViewMap view | ViewUnmap view | ViewResized view int int
  | FocusIn view | FocusOut view
  | BufferRendered view wpe_buffer | BufferReleased view wpe_buffer
  | BufferRef wpe_buffer | BufferUnref wpe_buffer
  | ViewEvent view wpe_event
  | ToplevelResized int int | ToplevelScale int | ToplevelActive
    \<comment> \<open>GLib\<close>
  | IdleAdd view | ViewRef view | ViewUnref view
  | LoopQuit | Setenv string string bool | MkdirParents string
    \<comment> \<open>WebKit\<close>
  | NewWebView "webview option" webview             \<comment> \<open>the related view, if any, and the result\<close>
  | WebViewRef webview | WebViewUnref webview
  | Connect webview string | Disconnect webview
  | DisplayConnect | SetPrimary | SettingsWebGL bool | SettingsConsole bool
  | NetworkSession string string | CookieStorage string | AllowCertificate string
  | LoadUri webview string | GoBack webview | GoForward webview | Reload webview
    \<comment> \<open>libpeel and stdio\<close>
  | PeelOpen string int int | PeelCommit int int int int | PeelClose | Print string | PrintError string
  | StartInputThread

type_synonym history = "call list"

text \<open>A glyph as FreeType renders it: left and top bearing, rows of coverage bytes, advance
  in 26.6 fixed point.\<close>

record glyph =
  g_left :: int
  g_top :: int
  g_bitmap :: "u8 list list"
  g_advance :: int

record engine =
  get_uri :: "history \<Rightarrow> webview \<Rightarrow> string option"
  get_title :: "history \<Rightarrow> webview \<Rightarrow> string option"
  get_progress :: "history \<Rightarrow> webview \<Rightarrow> real"
  can_go_back :: "history \<Rightarrow> webview \<Rightarrow> bool"
  can_go_forward :: "history \<Rightarrow> webview \<Rightarrow> bool"
  new_web_view :: "history \<Rightarrow> webview"
  get_wpe_view :: "history \<Rightarrow> webview \<Rightarrow> view"
  utf8_chars :: "string \<Rightarrow> int list option"          \<comment> \<open>\<open>None\<close>: not valid UTF-8\<close>
  load_char :: "int \<Rightarrow> int \<Rightarrow> glyph option"            \<comment> \<open>pixel size, code point\<close>

end
