(* ===== verification/PeelView.thy ===== *)
theory PeelView
  imports External
begin

text \<open>
  The display half of the WPE platform backend
  (\<open>userland/bin/orange-browser/peel-platform.c\<close>): the surface of the Peel window that
  web content is drawn into, and the views, each of which keeps its last frame.

  The window's pixels are one buffer that the browser's toolbar drawing and this backend
  share, as in the program (\<open>surface.pixels\<close> is \<open>browser.window.pixels\<close>).
\<close>

section \<open>State\<close>

record orange_surface =
  sf_stride :: int
  sf_scale :: int
  sf_x :: int
  sf_y :: int
  sf_width :: int
  sf_height :: int

record orange_view =
  shown :: "wpe_buffer option"
  v_active :: bool
  frame :: "framebuffer option"
  frame_width :: int
  frame_height :: int

record platform =
  fb :: framebuffer
  surface :: orange_surface
  views :: "view \<Rightarrow> orange_view"
  idles :: "view list"          \<comment> \<open>idle sources added and not yet run, oldest first\<close>
  trace :: history

abbreviation emit :: "call list \<Rightarrow> 'a platform_scheme \<Rightarrow> 'a platform_scheme" where
  "emit cs s \<equiv> s\<lparr>trace := trace s @ cs\<rparr>"

abbreviation upd_view :: "view \<Rightarrow> (orange_view \<Rightarrow> orange_view) \<Rightarrow> 'a platform_scheme \<Rightarrow> 'a platform_scheme" where
  "upd_view v f s \<equiv> s\<lparr>views := (views s)(v := f (views s v))\<rparr>"

text \<open>\<open>orange_view_init\<close>: GObject zeroes the instance; it is inactive until shown.\<close>

definition orange_view_init :: orange_view where
  "orange_view_init = \<lparr>shown = None, v_active = False, frame = None, frame_width = 0, frame_height = 0\<rparr>"

section \<open>Showing the last frame\<close>

text \<open>One pixel of a \<open>memcpy\<close> between pixel buffers; a read outside the source faults.\<close>

definition copy_px :: "framebuffer \<Rightarrow> int \<Rightarrow> int \<Rightarrow> framebuffer \<Rightarrow> framebuffer" where
  "copy_px src i j dst =
     (if 0 \<le> i \<and> i < size_px src then put_px j (pix src i) dst else dst\<lparr>fault := True\<rparr>)"

definition show_row :: "orange_surface \<Rightarrow> orange_view \<Rightarrow> int \<Rightarrow> framebuffer \<Rightarrow> framebuffer" where
  "show_row sf self row fb0 =
     (let width = sf_width sf * sf_scale sf;
          to = (sf_y sf * sf_scale sf + row) * sf_stride sf + sf_x sf * sf_scale sf
      in case frame self of
           Some fr \<Rightarrow>
             if row < frame_height self then
               (let copied = min width (frame_width self)
                in for_range copied width (\<lambda>column. put_px (to + column) 0xFFFFFF)
                     (for_range 0 copied (\<lambda>column. copy_px fr (row * frame_width self + column) (to + column)) fb0))
             else for_range 0 width (\<lambda>column. put_px (to + column) 0xFFFFFF) fb0
         | None \<Rightarrow> for_range 0 width (\<lambda>column. put_px (to + column) 0xFFFFFF) fb0)"

definition view_show_frame :: "view \<Rightarrow> 'a platform_scheme \<Rightarrow> 'a platform_scheme" where
  "view_show_frame v s =
     (let sf = surface s;
          height = sf_height sf * sf_scale sf
      in emit [PeelCommit (sf_x sf) (sf_y sf) (sf_width sf) (sf_height sf)]
           (s\<lparr>fb := for_range 0 height (show_row sf (views s v)) (fb s)\<rparr>))"

definition orange_view_set_active :: "view \<Rightarrow> bool \<Rightarrow> 'a platform_scheme \<Rightarrow> 'a platform_scheme" where
  "orange_view_set_active v active s =
     (let s1 = emit [SetVisible v active] (upd_view v (v_active_update (\<lambda>_. active)) s)
      in if active then view_show_frame v s1 else s1)"

section \<open>Receiving a frame\<close>

record shm_buffer =
  b_id :: wpe_buffer
  b_is_shm :: bool
  b_data :: "u8 list"
  b_stride :: int
  b_width :: int
  b_height :: int

text \<open>The 32-bit value at a byte offset, in memory order (little endian).\<close>

definition read_px :: "u8 list \<Rightarrow> int \<Rightarrow> u32 option" where
  "read_px bytes off =
     (if 0 \<le> off \<and> off + 4 \<le> int (length bytes) then
        (let b = (\<lambda>k. push_bit (8 * k) (ucast (bytes ! (nat off + k)) :: u32))
         in Some (b 0 + b 1 + b 2 + b 3))
      else None)"

definition copy_row :: "shm_buffer \<Rightarrow> int \<Rightarrow> int \<Rightarrow> framebuffer \<Rightarrow> framebuffer" where
  "copy_row b width row fr = for_range 0 width (\<lambda>column fr.
     case read_px (b_data b) (row * b_stride b + 4 * column) of
       Some v \<Rightarrow> put_px (row * width + column) v fr
     | None \<Rightarrow> fr\<lparr>fault := True\<rparr>) fr"

text \<open>\<open>for (row = 0; row < height && (row + 1) * source_stride <= length; row++)\<close>.\<close>

function copy_rows :: "shm_buffer \<Rightarrow> int \<Rightarrow> int \<Rightarrow> int \<Rightarrow> framebuffer \<Rightarrow> framebuffer" where
  "copy_rows b width height row fr =
     (if row < height \<and> (row + 1) * b_stride b \<le> int (length (b_data b))
      then copy_rows b width height (row + 1) (copy_row b width row fr) else fr)"
  by pat_completeness auto
termination
  by (relation "measure (\<lambda>(b, width, height, row, fr). nat (height - row))") auto

declare copy_rows.simps [simp del]

text \<open>\<open>g_new0\<close> of a pixel array; of no elements it returns \<open>NULL\<close>.\<close>

definition new_frame :: "int \<Rightarrow> framebuffer option" where
  "new_frame n = (if n = 0 then None else Some \<lparr>pix = (\<lambda>_. 0), size_px = n, fault = False\<rparr>)"

definition release_shown :: "view \<Rightarrow> 'a platform_scheme \<Rightarrow> 'a platform_scheme" where
  "release_shown v s =
     (case shown (views s v) of
        Some old \<Rightarrow> upd_view v (shown_update (\<lambda>_. None))
          (emit [BufferRendered v old, BufferReleased v old, BufferUnref old] s)
      | None \<Rightarrow> s)"

datatype view_error = RENDER_FAILED

definition resize_frame :: "int \<Rightarrow> int \<Rightarrow> orange_view \<Rightarrow> orange_view" where
  "resize_frame width height self =
     (if frame_width self \<noteq> width \<or> frame_height self \<noteq> height
      then self\<lparr>frame := new_frame (width * height), frame_width := width, frame_height := height\<rparr>
      else self)"

text \<open>The copy loop over the view's frame. With no frame a copied pixel would go through a
  null pointer, which is recorded as a fault.\<close>

definition copy_frame :: "view \<Rightarrow> shm_buffer \<Rightarrow> int \<Rightarrow> int \<Rightarrow> 'a platform_scheme \<Rightarrow> 'a platform_scheme" where
  "copy_frame v b width height s =
     (case frame (views s v) of
        Some fr \<Rightarrow> upd_view v (frame_update (\<lambda>_. Some (copy_rows b width height 0 fr))) s
      | None \<Rightarrow>
          if 0 < width \<and> 0 < height \<and> b_stride b \<le> int (length (b_data b))
          then s\<lparr>fb := (fb s)\<lparr>fault := True\<rparr>\<rparr> else s)"

definition view_render_buffer ::
  "view \<Rightarrow> shm_buffer \<Rightarrow> 'a platform_scheme \<Rightarrow> view_error + 'a platform_scheme" where
  "view_render_buffer v b s =
     (if \<not> b_is_shm b then Inl RENDER_FAILED
      else
        let sf = surface s;
            width = min (b_width b) (sf_width sf * sf_scale sf);
            height = min (b_height b) (sf_height sf * sf_scale sf);
            s1 = upd_view v (resize_frame width height) s;
            s2 = copy_frame v b width height s1;
            s3 = (if v_active (views s2 v) then view_show_frame v s2 else s2);
            s4 = release_shown v s3;
            s5 = upd_view v (shown_update (\<lambda>_. Some (b_id b))) (emit [BufferRef (b_id b)] s4)
        in Inr (s5\<lparr>idles := idles s5 @ [v], trace := trace s5 @ [ViewRef v, IdleAdd v]\<rparr>))"

text \<open>The idle callback: gives the buffer back and drops the reference the source held.
  \<open>G_SOURCE_REMOVE\<close> takes it off the queue.\<close>

definition view_release :: "view \<Rightarrow> 'a platform_scheme \<Rightarrow> 'a platform_scheme" where
  "view_release v s = emit [ViewUnref v] (release_shown v s)"

definition run_idle :: "'a platform_scheme \<Rightarrow> 'a platform_scheme" where
  "run_idle s = (case idles s of [] \<Rightarrow> s | v # vs \<Rightarrow> view_release v (s\<lparr>idles := vs\<rparr>))"

definition view_dispose :: "view \<Rightarrow> 'a platform_scheme \<Rightarrow> 'a platform_scheme" where
  "view_dispose v s =
     upd_view v (\<lambda>self. self\<lparr>shown := None, frame := None\<rparr>)
       (emit (case shown (views s v) of Some b \<Rightarrow> [BufferUnref b] | None \<Rightarrow> []) s)"

section \<open>Toplevel and display\<close>

definition view_toplevel_changed :: "view \<Rightarrow> (int \<times> int) option \<Rightarrow> 'a platform_scheme \<Rightarrow> 'a platform_scheme" where
  "view_toplevel_changed v toplevel s =
     (case toplevel of
        None \<Rightarrow> emit [ViewUnmap v] s
      | Some (width, height) \<Rightarrow>
          emit ((if width \<noteq> 0 \<and> height \<noteq> 0 then [ViewResized v width height] else []) @ [ViewMap v]) s)"

definition toplevel_constructed :: "'a platform_scheme \<Rightarrow> 'a platform_scheme" where
  "toplevel_constructed s =
     emit [ToplevelResized (sf_width (surface s)) (sf_height (surface s)),
           ToplevelScale (sf_scale (surface s)), ToplevelActive] s"

text \<open>Peel windows keep their size.\<close>

definition toplevel_resize :: "int \<Rightarrow> int \<Rightarrow> bool" where
  "toplevel_resize width height = False"

text \<open>No EGL: an error with the given message. No DRM device: \<open>NULL\<close>.\<close>

definition display_get_egl_display :: "string + nat" where
  "display_get_egl_display = Inl ''OrangeOS has no EGL''"

definition display_get_drm_device :: "nat option" where
  "display_get_drm_device = None"

section \<open>Well-formedness\<close>

text \<open>The content area lies inside the window's pixel buffer.\<close>

definition surface_ok :: "'a platform_scheme \<Rightarrow> bool" where
  "surface_ok s \<longleftrightarrow>
     (let sf = surface s in
       0 < sf_stride sf \<and> 0 < sf_scale sf \<and> 0 \<le> sf_x sf \<and> 0 \<le> sf_y sf \<and>
       0 \<le> sf_width sf \<and> 0 \<le> sf_height sf \<and>
       (sf_x sf + sf_width sf) * sf_scale sf \<le> sf_stride sf \<and>
       (sf_y sf + sf_height sf) * sf_scale sf * sf_stride sf \<le> size_px (fb s))"

text \<open>A view's frame has the size it records, and no copy into it went wrong.\<close>

definition view_ok :: "orange_view \<Rightarrow> bool" where
  "view_ok self \<longleftrightarrow>
     0 \<le> frame_width self \<and> 0 \<le> frame_height self \<and>
     (case frame self of
        None \<Rightarrow> frame_width self * frame_height self = 0
      | Some fr \<Rightarrow> size_px fr = frame_width self * frame_height self \<and> 0 < size_px fr \<and> \<not> fault fr)"

lemma view_ok_init [simp]: "view_ok orange_view_init"
  by (simp add: view_ok_def orange_view_init_def)

section \<open>What the window shows\<close>

text \<open>The pixel of a view at a column and a row of the content area: its frame, and white
  outside it.\<close>

definition view_pixel :: "orange_view \<Rightarrow> int \<Rightarrow> int \<Rightarrow> u32" where
  "view_pixel self column row =
     (case frame self of
        None \<Rightarrow> 0xFFFFFF
      | Some fr \<Rightarrow> if row < frame_height self \<and> column < frame_width self
          then pix fr (row * frame_width self + column) else 0xFFFFFF)"

lemma frame_index_bounds:
  fixes w :: int
  assumes "0 \<le> row" "row < h" "0 \<le> c" "c < w"
  shows "0 \<le> row * w + c" "row * w + c < w * h"
  using row_major_bounds [of c w row h "w * h"] assms by (auto simp: mult.commute)

lemma show_row_paint:
  assumes "view_ok self" and "0 \<le> row" and "0 \<le> sf_width sf" "0 < sf_scale sf"
  defines "x0 \<equiv> sf_x sf * sf_scale sf" and "yy \<equiv> sf_y sf * sf_scale sf + row"
  shows "show_row sf self row fb0 =
    paint_line (sf_stride sf) x0 (x0 + sf_width sf * sf_scale sf) yy (\<lambda>_ _. True)
      (\<lambda>X _. view_pixel self (X - x0) row) fb0"
proof -
  let ?w = "sf_width sf * sf_scale sf" and ?to = "yy * sf_stride sf + x0"
  let ?put = "\<lambda>column. put_px (?to + column) (view_pixel self column row)"
  have w: "0 \<le> ?w" using assms by simp
  have line: "for_range 0 ?w ?put fb0 = paint_line (sf_stride sf) x0 (x0 + ?w) yy (\<lambda>_ _. True)
      (\<lambda>X _. view_pixel self (X - x0) row) fb0"
    unfolding paint_line_def
    using for_range_shift [of 0 ?w "\<lambda>X. put_px (yy * sf_stride sf + X) (view_pixel self (X - x0) row)" x0 fb0]
    by (simp add: algebra_simps)
  have white: "for_range 0 ?w (\<lambda>column. put_px (?to + column) 0xFFFFFF) fb0 = for_range 0 ?w ?put fb0"
    if "\<And>c. 0 \<le> c \<Longrightarrow> view_pixel self c row = 0xFFFFFF"
    using that by (intro for_range_cong) simp
  show ?thesis
  proof (cases "frame self")
    case None
    then have "show_row sf self row fb0 = for_range 0 ?w ?put fb0"
      by (subst white [symmetric]) (simp_all add: show_row_def Let_def view_pixel_def x0_def yy_def)
    then show ?thesis by (simp add: line)
  next
    case (Some fr)
    show ?thesis
    proof (cases "row < frame_height self")
      case False
      with Some have "show_row sf self row fb0 = for_range 0 ?w ?put fb0"
        by (subst white [symmetric]) (simp_all add: show_row_def Let_def view_pixel_def x0_def yy_def)
      then show ?thesis by (simp add: line)
    next
      case True
      define n where "n = min ?w (frame_width self)"
      have n: "0 \<le> n" "n \<le> ?w" using assms(1) w by (auto simp: n_def view_ok_def)
      have a: "for_range 0 n (\<lambda>column. copy_px fr (row * frame_width self + column) (?to + column)) fb0 =
          for_range 0 n ?put fb0"
        using assms(1,2) True Some frame_index_bounds [of row "frame_height self" _ "frame_width self"]
        by (intro for_range_cong) (auto simp: copy_px_def view_pixel_def view_ok_def n_def)
      have b: "for_range n ?w (\<lambda>column. put_px (?to + column) 0xFFFFFF) t = for_range n ?w ?put t" for t
        using Some by (intro for_range_cong) (auto simp: view_pixel_def n_def)
      have "show_row sf self row fb0 =
          for_range n ?w (\<lambda>column. put_px (?to + column) 0xFFFFFF)
            (for_range 0 n (\<lambda>column. copy_px fr (row * frame_width self + column) (?to + column)) fb0)"
        using Some True by (simp add: show_row_def Let_def x0_def yy_def n_def)
      also have "\<dots> = for_range n ?w ?put (for_range 0 n ?put fb0)"
        by (simp only: a b)
      finally have "show_row sf self row fb0 = for_range n ?w ?put (for_range 0 n ?put fb0)" .
      then show ?thesis
        by (simp add: for_range_split [OF n] line)
    qed
  qed
qed

lemma view_show_frame_fb:
  assumes "surface_ok s" and "view_ok (views s v)"
  shows "fb (view_show_frame v s) =
    (let sf = surface s; x0 = sf_x sf * sf_scale sf; y0 = sf_y sf * sf_scale sf
     in paint (sf_stride sf) x0 (x0 + sf_width sf * sf_scale sf) y0 (y0 + sf_height sf * sf_scale sf)
          (\<lambda>_ _. True) (\<lambda>X Y. view_pixel (views s v) (X - x0) (Y - y0)) (fb s))"
proof -
  let ?sf = "surface s"
  let ?x0 = "sf_x ?sf * sf_scale ?sf" and ?y0 = "sf_y ?sf * sf_scale ?sf"
  let ?line = "\<lambda>Y. paint_line (sf_stride ?sf) ?x0 (?x0 + sf_width ?sf * sf_scale ?sf) Y (\<lambda>_ _. True)
      (\<lambda>X Y. view_pixel (views s v) (X - ?x0) (Y - ?y0))"
  have "for_range 0 (sf_height ?sf * sf_scale ?sf) (show_row ?sf (views s v)) (fb s) =
      for_range 0 (sf_height ?sf * sf_scale ?sf) (\<lambda>row. ?line (row + ?y0)) (fb s)"
    using assms
    by (intro for_range_cong) (simp add: show_row_paint surface_ok_def Let_def paint_line_def algebra_simps)
  also have "\<dots> = for_range ?y0 (?y0 + sf_height ?sf * sf_scale ?sf) ?line (fb s)"
    by (subst for_range_shift) (simp add: algebra_simps)
  finally show ?thesis
    by (simp add: view_show_frame_def Let_def paint_def)
qed


text \<open>The content area, in window pixels.\<close>

definition in_content :: "orange_surface \<Rightarrow> int \<Rightarrow> int \<Rightarrow> bool" where
  "in_content sf X Y \<longleftrightarrow>
     sf_x sf * sf_scale sf \<le> X \<and> X < (sf_x sf + sf_width sf) * sf_scale sf \<and>
     sf_y sf * sf_scale sf \<le> Y \<and> Y < (sf_y sf + sf_height sf) * sf_scale sf"

lemma view_show_frame_correct:
  assumes "surface_ok s" and "view_ok (views s v)" and "0 \<le> X" "X < sf_stride (surface s)"
  shows "size_px (fb (view_show_frame v s)) = size_px (fb s)"
    and "fault (fb (view_show_frame v s)) = fault (fb s)"
    and "pix (fb (view_show_frame v s)) (Y * sf_stride (surface s) + X) =
      (if in_content (surface s) X Y
       then view_pixel (views s v) (X - sf_x (surface s) * sf_scale (surface s))
              (Y - sf_y (surface s) * sf_scale (surface s))
       else pix (fb s) (Y * sf_stride (surface s) + X))"
proof -
  let ?sf = "surface s"
  let ?x0 = "sf_x ?sf * sf_scale ?sf" and ?y0 = "sf_y ?sf * sf_scale ?sf"
  have "0 \<le> ?x0" "?x0 + sf_width ?sf * sf_scale ?sf \<le> sf_stride ?sf" "0 \<le> ?y0"
    "(?y0 + sf_height ?sf * sf_scale ?sf) * sf_stride ?sf \<le> size_px (fb s)"
    using assms(1) by (simp_all add: surface_ok_def Let_def algebra_simps)
  note paint_correct [OF this(1-3) order_refl this(4) assms(3,4)]
  note this [of "\<lambda>_ _. True" "\<lambda>X Y. view_pixel (views s v) (X - ?x0) (Y - ?y0)" Y]
  then show "size_px (fb (view_show_frame v s)) = size_px (fb s)"
    and "fault (fb (view_show_frame v s)) = fault (fb s)"
    and "pix (fb (view_show_frame v s)) (Y * sf_stride ?sf + X) =
      (if in_content ?sf X Y then view_pixel (views s v) (X - ?x0) (Y - ?y0)
       else pix (fb s) (Y * sf_stride ?sf + X))"
    unfolding view_show_frame_fb [OF assms(1,2)]
    by (auto simp: Let_def in_content_def algebra_simps)
qed

lemma view_show_frame_frame [frame_simps, simp]:
  "surface (view_show_frame v s) = surface s" "views (view_show_frame v s) = views s"
  "idles (view_show_frame v s) = idles s"
  "trace (view_show_frame v s) = trace s @
     [PeelCommit (sf_x (surface s)) (sf_y (surface s)) (sf_width (surface s)) (sf_height (surface s))]"
  by (simp_all add: view_show_frame_def Let_def)

section \<open>Copying a frame\<close>

text \<open>What WPE documents of a shared-memory buffer: a row has room for its pixels.\<close>

definition buffer_ok :: "shm_buffer \<Rightarrow> bool" where
  "buffer_ok b \<longleftrightarrow> 0 \<le> b_width b \<and> 0 \<le> b_height b \<and> 4 * b_width b \<le> b_stride b"

definition source_px :: "shm_buffer \<Rightarrow> int \<Rightarrow> int \<Rightarrow> u32" where
  "source_px b column row = (case read_px (b_data b) (row * b_stride b + 4 * column) of Some v \<Rightarrow> v | None \<Rightarrow> 0)"

definition rows_copied :: "shm_buffer \<Rightarrow> int \<Rightarrow> int" where
  "rows_copied b height = min height (int (length (b_data b)) div b_stride b)"

lemma copy_rows_loop:
  assumes "0 < b_stride b"
  shows "copy_rows b width height row fr = for_range row (rows_copied b height) (copy_row b width) fr"
  using assms
proof (induction b width height row fr rule: copy_rows.induct)
  case (1 b width height row fr)
  have "(row + 1) * b_stride b \<le> int (length (b_data b)) \<longleftrightarrow> row < int (length (b_data b)) div b_stride b"
    by (simp only: int_le_div_iff [OF "1.prems", symmetric] add1_zle_eq)
  then have guard: "row < height \<and> (row + 1) * b_stride b \<le> int (length (b_data b)) \<longleftrightarrow> row < rows_copied b height"
    by (auto simp: rows_copied_def)
  show ?case
  proof (cases "row < rows_copied b height")
    case True
    then show ?thesis
      using "1.IH" "1.prems" guard by (simp add: copy_rows.simps [of b width height row] for_range_step)
  next
    case False
    then show ?thesis
      using guard by (auto simp: copy_rows.simps [of b width height row])
  qed
qed

lemma copy_row_paint:
  assumes "0 \<le> row" "(row + 1) * b_stride b \<le> int (length (b_data b))" "4 * width \<le> b_stride b" "0 \<le> b_stride b"
  shows "copy_row b width row fr = paint_line width 0 width row (\<lambda>_ _. True) (source_px b) fr"
proof -
  have "read_px (b_data b) (row * b_stride b + 4 * c) \<noteq> None" if "0 \<le> c" "c < width" for c
  proof -
    have "row * b_stride b + 4 * c + 4 \<le> row * b_stride b + b_stride b"
      using that assms(3) by simp
    also have "\<dots> \<le> int (length (b_data b))"
      using assms(2) by (simp add: algebra_simps)
    finally show ?thesis
      using that assms(1,4) by (simp add: read_px_def Let_def)
  qed
  then show ?thesis
    unfolding copy_row_def paint_line_def
    by (intro for_range_cong) (fastforce simp: source_px_def split: option.splits)
qed

lemma copy_rows_paint:
  assumes "buffer_ok b" "0 < width" "width \<le> b_width b"
  shows "copy_rows b width height 0 fr =
    paint width 0 width 0 (rows_copied b height) (\<lambda>_ _. True) (source_px b) fr"
proof -
  have st: "0 < b_stride b" "4 * width \<le> b_stride b"
    using assms by (auto simp: buffer_ok_def)
  have "(row + 1) * b_stride b \<le> int (length (b_data b))" if "row < rows_copied b height" for row
    using that by (simp only: int_le_div_iff [OF st(1), symmetric] add1_zle_eq rows_copied_def min_less_iff_conj)
  then show ?thesis
    unfolding copy_rows_loop [OF st(1)] paint_def
    by (intro for_range_cong copy_row_paint) (use st in auto)
qed

lemma rows_copied_nonneg: "buffer_ok b \<Longrightarrow> 0 \<le> h \<Longrightarrow> 0 \<le> rows_copied b h"
  by (cases "b_stride b = 0") (auto simp: rows_copied_def buffer_ok_def pos_imp_zdiv_nonneg_iff)

text \<open>The frame after the copy: every row the buffer really holds, from the buffer.\<close>

lemma copy_rows_correct:
  assumes "buffer_ok b" "0 < width" "width \<le> b_width b" "size_px fr = width * height"
    and "0 \<le> c" "c < width"
  shows "size_px (copy_rows b width height 0 fr) = width * height"
    and "fault (copy_rows b width height 0 fr) = fault fr"
    and "pix (copy_rows b width height 0 fr) (r * width + c) =
      (if 0 \<le> r \<and> r < rows_copied b height then source_px b c r else pix fr (r * width + c))"
proof -
  have "rows_copied b height \<le> height" by (simp add: rows_copied_def)
  then show "size_px (copy_rows b width height 0 fr) = width * height"
    and "fault (copy_rows b width height 0 fr) = fault fr"
    and "pix (copy_rows b width height 0 fr) (r * width + c) =
      (if 0 \<le> r \<and> r < rows_copied b height then source_px b c r else pix fr (r * width + c))"
    unfolding copy_rows_paint [OF assms(1-3)]
    using paint_correct [of 0 width width 0 "rows_copied b height" height fr c "\<lambda>_ _. True" "source_px b" r]
      assms by (auto simp: mult.commute)
qed


section \<open>Rendering\<close>

lemma release_shown_frame [simp]:
  "fb (release_shown v s) = fb s" "surface (release_shown v s) = surface s"
  "idles (release_shown v s) = idles s"
  "views (release_shown v s) = (views s)(v := (views s v)\<lparr>shown := None\<rparr>)"
  by (auto simp: release_shown_def split: option.splits)

lemma view_ok_upd [simp]:
  "view_ok (self\<lparr>shown := x\<rparr>) = view_ok self" "view_ok (self\<lparr>v_active := a\<rparr>) = view_ok self"
  by (simp_all add: view_ok_def split: option.split)

lemma view_pixel_upd [simp]:
  "view_pixel (self\<lparr>shown := x\<rparr>) = view_pixel self" "view_pixel (self\<lparr>v_active := a\<rparr>) = view_pixel self"
  by (auto simp: view_pixel_def fun_eq_iff split: option.split)

lemma resize_frame_ok: "view_ok self \<Longrightarrow> 0 \<le> w \<Longrightarrow> 0 \<le> h \<Longrightarrow> view_ok (resize_frame w h self)"
  by (auto simp: resize_frame_def view_ok_def new_frame_def zero_less_mult_iff)

lemma resize_frame_simps [simp]:
  "frame_width (resize_frame w h self) = w" "frame_height (resize_frame w h self) = h"
  "v_active (resize_frame w h self) = v_active self" "shown (resize_frame w h self) = shown self"
  by (auto simp: resize_frame_def)

text \<open>The view after the resize and the copy: one update of it, and nothing else.\<close>

definition filled_view :: "shm_buffer \<Rightarrow> int \<Rightarrow> int \<Rightarrow> orange_view \<Rightarrow> orange_view" where
  "filled_view b w h self =
     (let self' = resize_frame w h self
      in self'\<lparr>frame := map_option (copy_rows b w h 0) (frame self')\<rparr>)"

lemma frame_same [simp]: "frame self = x \<Longrightarrow> self\<lparr>frame := x\<rparr> = self"
  by (cases self) simp


lemma filled_view_simps [simp]:
  "frame_width (filled_view b w h self) = w" "frame_height (filled_view b w h self) = h"
  "v_active (filled_view b w h self) = v_active self" "shown (filled_view b w h self) = shown self"
  by (simp_all add: filled_view_def Let_def)

lemma copy_frame_filled:
  assumes "view_ok (views s v)" "0 \<le> w" "0 \<le> h"
  shows "copy_frame v b w h (upd_view v (resize_frame w h) s) = upd_view v (filled_view b w h) s"
proof -
  have ok: "view_ok (resize_frame w h (views s v))"
    using assms by (simp add: resize_frame_ok)
  show ?thesis
  proof (cases "frame (resize_frame w h (views s v))")
    case None
    then have "w = 0 \<or> h = 0" using ok by (simp add: view_ok_def)
    then show ?thesis
      using None by (auto simp: copy_frame_def filled_view_def Let_def)
  next
    case (Some fr)
    then show ?thesis by (simp add: copy_frame_def filled_view_def Let_def)
  qed
qed

lemma filled_view_cases:
  assumes "view_ok self" "buffer_ok b" "0 \<le> w" "w \<le> b_width b" "0 \<le> h"
  obtains (empty) "w = 0 \<or> h = 0" "frame (filled_view b w h self) = None"
  | (filled) fr where "0 < w" "0 < h" "size_px fr = w * h" "\<not> fault fr"
      "frame (filled_view b w h self) = Some (copy_rows b w h 0 fr)"
proof (cases "frame (resize_frame w h self)")
  case None
  with resize_frame_ok [OF assms(1,3,5)] show ?thesis
    by (intro empty) (auto simp: filled_view_def Let_def view_ok_def)
next
  case (Some fr)
  with resize_frame_ok [OF assms(1,3,5)] have "size_px fr = w * h" "0 < w * h" "\<not> fault fr"
    by (auto simp: view_ok_def)
  with Some assms show ?thesis
    by (intro filled [of fr]) (auto simp: filled_view_def Let_def zero_less_mult_iff)
qed

lemma filled_view_ok:
  assumes "view_ok self" "buffer_ok b" "0 \<le> w" "w \<le> b_width b" "0 \<le> h"
  shows "view_ok (filled_view b w h self)"
  using assms
proof (cases rule: filled_view_cases)
  case empty
  then show ?thesis using assms by (auto simp: view_ok_def)
next
  case (filled fr)
  with copy_rows_correct(1,2) [OF assms(2) filled(1) assms(4) filled(3), of 0] assms show ?thesis
    by (simp add: view_ok_def)
qed

lemma filled_view_pixel:
  assumes "view_ok self" "buffer_ok b" "0 \<le> w" "w \<le> b_width b" "0 \<le> h" and "0 \<le> c" "0 \<le> r"
  shows "c < w \<Longrightarrow> r < rows_copied b h \<Longrightarrow> view_pixel (filled_view b w h self) c r = source_px b c r"
    and "w \<le> c \<or> h \<le> r \<Longrightarrow> view_pixel (filled_view b w h self) c r = 0xFFFFFF"
proof -
  have rows: "rows_copied b h \<le> h" by (simp add: rows_copied_def)
  assume c: "c < w" and r: "r < rows_copied b h"
  show "view_pixel (filled_view b w h self) c r = source_px b c r"
    using assms(1-5)
  proof (cases rule: filled_view_cases)
    case empty
    then show ?thesis using assms c r rows by auto
  next
    case (filled fr)
    with copy_rows_correct(3) [OF assms(2) filled(1) assms(4) filled(3) assms(6) c, of r] c r rows assms
    show ?thesis by (simp add: view_pixel_def)
  qed
next
  assume "w \<le> c \<or> h \<le> r"
  then show "view_pixel (filled_view b w h self) c r = 0xFFFFFF"
    by (auto simp: view_pixel_def split: option.splits)
qed


text \<open>A shared-memory buffer is always accepted; what the call does, in one equation.\<close>

abbreviation fit_width :: "orange_surface \<Rightarrow> shm_buffer \<Rightarrow> int" where
  "fit_width sf b \<equiv> min (b_width b) (sf_width sf * sf_scale sf)"

abbreviation fit_height :: "orange_surface \<Rightarrow> shm_buffer \<Rightarrow> int" where
  "fit_height sf b \<equiv> min (b_height b) (sf_height sf * sf_scale sf)"

abbreviation fitted :: "orange_surface \<Rightarrow> shm_buffer \<Rightarrow> orange_view \<Rightarrow> orange_view" where
  "fitted sf b self \<equiv> filled_view b (fit_width sf b) (fit_height sf b) self"

lemma fit_bounds:
  assumes "surface_ok s" "buffer_ok b"
  shows "0 \<le> fit_width (surface s) b" "fit_width (surface s) b \<le> b_width b" "0 \<le> fit_height (surface s) b"
  using assms by (simp_all add: surface_ok_def buffer_ok_def Let_def)

definition after_copy :: "view \<Rightarrow> shm_buffer \<Rightarrow> 'a platform_scheme \<Rightarrow> 'a platform_scheme" where
  "after_copy v b s = (let s2 = upd_view v (fitted (surface s) b) s
     in if v_active (views s v) then view_show_frame v s2 else s2)"

lemma after_copy_simps [simp]:
  "surface (after_copy v b s) = surface s" "idles (after_copy v b s) = idles s"
  "views (after_copy v b s) = (views s)(v := fitted (surface s) b (views s v))"
  by (simp_all add: after_copy_def Let_def)

lemma view_render_buffer_shm:
  assumes "surface_ok s" "view_ok (views s v)" "buffer_ok b" "b_is_shm b"
  shows "view_render_buffer v b s = Inr (let s4 = release_shown v (after_copy v b s)
    in s4\<lparr>views := (views s4)(v := (views s4 v)\<lparr>shown := Some (b_id b)\<rparr>),
          idles := idles s4 @ [v], trace := trace s4 @ [BufferRef (b_id b), ViewRef v, IdleAdd v]\<rparr>)"
  using assms fit_bounds [OF assms(1,3)]
  by (simp add: view_render_buffer_def copy_frame_filled after_copy_def Let_def)

lemma after_copy_correct:
  assumes "surface_ok s" "view_ok (views s v)" "buffer_ok b" and "0 \<le> X" "X < sf_stride (surface s)"
  shows "size_px (fb (after_copy v b s)) = size_px (fb s)"
    and "fault (fb (after_copy v b s)) = fault (fb s)"
    and "pix (fb (after_copy v b s)) (Y * sf_stride (surface s) + X) =
      (if v_active (views s v) \<and> in_content (surface s) X Y
       then view_pixel (fitted (surface s) b (views s v)) (X - sf_x (surface s) * sf_scale (surface s))
              (Y - sf_y (surface s) * sf_scale (surface s))
       else pix (fb s) (Y * sf_stride (surface s) + X))"
proof -
  let ?s2 = "upd_view v (fitted (surface s) b) s"
  have "surface_ok ?s2" "view_ok (views ?s2 v)"
    using assms fit_bounds [OF assms(1,3)] by (simp_all add: surface_ok_def filled_view_ok)
  note view_show_frame_correct [OF this]
  from this [of X] this(3) [of X Y] assms(4,5)
  show "size_px (fb (after_copy v b s)) = size_px (fb s)"
    and "fault (fb (after_copy v b s)) = fault (fb s)"
    and "pix (fb (after_copy v b s)) (Y * sf_stride (surface s) + X) =
      (if v_active (views s v) \<and> in_content (surface s) X Y
       then view_pixel (fitted (surface s) b (views s v)) (X - sf_x (surface s) * sf_scale (surface s))
              (Y - sf_y (surface s) * sf_scale (surface s))
       else pix (fb s) (Y * sf_stride (surface s) + X))"
    by (simp_all add: after_copy_def Let_def)
qed

section \<open>Properties\<close>

text \<open>C6: A frame WebKit hands to the active view appears in the window pixel for pixel:
  inside the content area each window pixel is the buffer's pixel at the same place, white
  where the buffer is smaller; outside it nothing changes; and neither the copy out of the
  buffer nor the copy into the window leaves its memory.\<close>

theorem render_shows_frame:
  assumes "surface_ok s" "view_ok (views s v)" "buffer_ok b" "b_is_shm b" "v_active (views s v)"
    and "b_height b * b_stride b \<le> int (length (b_data b))"
    and "0 \<le> X" "X < sf_stride (surface s)" "0 \<le> Y"
  shows "\<exists>s'. view_render_buffer v b s = Inr s' \<and> fault (fb s') = fault (fb s) \<and>
    view_ok (views s' v) \<and>
    pix (fb s') (Y * sf_stride (surface s) + X) =
      (let c = X - sf_x (surface s) * sf_scale (surface s);
           r = Y - sf_y (surface s) * sf_scale (surface s)
       in if \<not> in_content (surface s) X Y then pix (fb s) (Y * sf_stride (surface s) + X)
          else if c < b_width b \<and> r < b_height b then source_px b c r else 0xFFFFFF)"
proof -
  let ?sf = "surface s" and ?self = "fitted (surface s) b (views s v)"
  let ?c = "X - sf_x ?sf * sf_scale ?sf" and ?r = "Y - sf_y ?sf * sf_scale ?sf"
  note fit = fit_bounds [OF assms(1,3)]
  have ok: "view_ok ?self" by (rule filled_view_ok) (use assms fit in auto)
  have px: "view_pixel ?self ?c ?r = (if ?c < b_width b \<and> ?r < b_height b then source_px b ?c ?r else 0xFFFFFF)"
    if "in_content ?sf X Y"
  proof -
    have cr: "0 \<le> ?c" "?c < sf_width ?sf * sf_scale ?sf" "0 \<le> ?r" "?r < sf_height ?sf * sf_scale ?sf"
      using that by (auto simp: in_content_def algebra_simps)
    have "?r < rows_copied b (fit_height ?sf b)" if "?c < b_width b" "?r < b_height b"
    proof -
      have "0 < b_stride b" using that cr assms(3) by (auto simp: buffer_ok_def)
      then have "b_height b \<le> int (length (b_data b)) div b_stride b"
        using assms(6) by (simp only: int_le_div_iff)
      then show ?thesis using that cr by (simp add: rows_copied_def)
    qed
    then show ?thesis
      using filled_view_pixel [OF assms(2,3) fit cr(1,3)] cr by auto
  qed
  show ?thesis
    unfolding view_render_buffer_shm [OF assms(1-4)]
    using after_copy_correct [OF assms(1-3,7,8)] ok px assms(5)
    by (auto simp: Let_def)
qed


text \<open>A window of two by two pixels whose content area is its lower row, and a one-pixel
  buffer, for the witnesses.\<close>

definition small_platform :: platform where
  "small_platform =
     \<lparr>fb = \<lparr>pix = (\<lambda>_. 0), size_px = 4, fault = False\<rparr>,
      surface = \<lparr>sf_stride = 2, sf_scale = 1, sf_x = 0, sf_y = 1, sf_width = 2, sf_height = 1\<rparr>,
      views = (\<lambda>_. orange_view_init\<lparr>v_active := True\<rparr>), idles = [], trace = []\<rparr>"

definition small_buffer :: shm_buffer where
  "small_buffer = \<lparr>b_id = 7, b_is_shm = True, b_data = [1, 2, 3, 4], b_stride = 4, b_width = 1, b_height = 1\<rparr>"

lemma small_ok:
  "surface_ok small_platform" "view_ok (views small_platform v)" "buffer_ok small_buffer"
  by (simp_all add: small_platform_def small_buffer_def surface_ok_def buffer_ok_def Let_def)

theorem render_shows_frame_witness:
  "\<exists>s'. view_render_buffer 3 small_buffer small_platform = Inr s' \<and> pix (fb s') 2 = 0x04030201 \<and>
     pix (fb s') 0 = 0"
proof -
  have *: "b_is_shm small_buffer" "v_active (views small_platform 3)"
    "b_height small_buffer * b_stride small_buffer \<le> int (length (b_data small_buffer))"
    "sf_stride (surface small_platform) = 2" "0 \<le> (0::int)"
    by (simp_all add: small_platform_def small_buffer_def)
  have "source_px small_buffer 0 0 = 0x04030201" by code_simp
  then show ?thesis
    using render_shows_frame [OF small_ok(1,2,3) *(1-3), of 0 1]
      render_shows_frame [OF small_ok(1,2,3) *(1-3), of 0 0] *(4)
    by (auto simp: in_content_def small_platform_def small_buffer_def Let_def)
qed

text \<open>C25: A frame that arrives while its view is hidden is not lost: rendering into the
  hidden view and then making it active leaves the same window, pixel for pixel, and the same
  views as making it active first and rendering then.\<close>

theorem hidden_frame_shown_on_activate:
  assumes "surface_ok s" "view_ok (views s v)" "buffer_ok b" "b_is_shm b" "\<not> v_active (views s v)"
  shows "\<exists>s1 s2. view_render_buffer v b s = Inr s1 \<and>
    view_render_buffer v b (orange_view_set_active v True s) = Inr s2 \<and>
    pix (fb (orange_view_set_active v True s1)) = pix (fb s2) \<and>
    views (orange_view_set_active v True s1) = views s2"
proof -
  let ?act = "orange_view_set_active v True" and ?st = "sf_stride (surface s)"
  define s1 where "s1 = (case view_render_buffer v b s of Inr s1 \<Rightarrow> s1)"
  define s2 where "s2 = (case view_render_buffer v b (?act s) of Inr s2 \<Rightarrow> s2)"
  have act: "surface (?act t) = surface t" "views (?act t) = (views t)(v := (views t v)\<lparr>v_active := True\<rparr>)"
    for t :: "'a platform_scheme"
    by (simp_all add: orange_view_set_active_def Let_def)
  let ?s0 = "emit [SetVisible v True] (upd_view v (v_active_update (\<lambda>_. True)) s)"
  have fb0: "fb (?act s) = fb (view_show_frame v ?s0)"
    by (simp add: orange_view_set_active_def Let_def)
  have ok0: "surface_ok ?s0" "view_ok (views ?s0 v)"
    using assms by (simp_all add: surface_ok_def)
  have "0 < ?st" using assms(1) by (simp add: surface_ok_def Let_def)
  have ok_act: "surface_ok (?act s)" "view_ok (views (?act s) v)"
    using assms(1,2) view_show_frame_correct(1) [OF ok0, of 0] \<open>0 < ?st\<close>
    by (simp_all add: surface_ok_def act fb0)
  have r1: "view_render_buffer v b s = Inr s1" and r2: "view_render_buffer v b (?act s) = Inr s2"
    unfolding s1_def s2_def view_render_buffer_shm [OF assms(1-4)] view_render_buffer_shm [OF ok_act assms(3,4)]
    by simp_all
  have s1: "surface s1 = surface s" "fb s1 = fb s" "views s1 = (views s)(v := (fitted (surface s) b (views s v))\<lparr>shown := Some (b_id b)\<rparr>)"
    using assms(5) unfolding s1_def view_render_buffer_shm [OF assms(1-4)]
    by (simp_all add: Let_def after_copy_def)
  have eqv: "filled_view b w h (self\<lparr>v_active := a\<rparr>) = (filled_view b w h self)\<lparr>v_active := a\<rparr>" for w h self a
    by (simp add: filled_view_def resize_frame_def Let_def)
  have s2: "views s2 = (views s)(v := (fitted (surface s) b (views s v))\<lparr>v_active := True, shown := Some (b_id b)\<rparr>)"
    "fb s2 = fb (after_copy v b (?act s))"
    unfolding s2_def view_render_buffer_shm [OF ok_act assms(3,4)] by (simp_all add: Let_def act eqv)
  let ?s1 = "emit [SetVisible v True] (upd_view v (v_active_update (\<lambda>_. True)) s1)"
  have ok1: "surface_ok ?s1" "view_ok (views ?s1 v)"
    using assms fit_bounds [OF assms(1,3)] by (simp_all add: surface_ok_def s1 filled_view_ok)
  have fb1: "fb (?act s1) = fb (view_show_frame v ?s1)"
    by (simp add: orange_view_set_active_def Let_def)
  have "pix (fb (?act s1)) i = pix (fb s2) i" for i
  proof -
    let ?X = "i mod ?st" and ?Y = "i div ?st"
    have X: "0 \<le> ?X" "?X < ?st" using \<open>0 < ?st\<close> by simp_all
    have "pix (fb (?act s1)) (?Y * ?st + ?X) = pix (fb s2) (?Y * ?st + ?X)"
      using view_show_frame_correct(3) [OF ok1, of ?X ?Y] view_show_frame_correct(3) [OF ok0, of ?X ?Y]
        after_copy_correct(3) [OF ok_act assms(3), of ?X ?Y] X
      by (simp add: fb1 s1 s2(2) act fb0 eqv)
    then show ?thesis by simp
  qed
  then show ?thesis
    using r1 r2 by (auto simp: act s1 s2)
qed

theorem hidden_frame_shown_on_activate_witness:
  "\<exists>s1 s2. view_render_buffer 3 small_buffer (orange_view_set_active 3 False small_platform) = Inr s1 \<and>
    view_render_buffer 3 small_buffer (orange_view_set_active 3 True (orange_view_set_active 3 False small_platform)) = Inr s2 \<and>
    pix (fb (orange_view_set_active 3 True s1)) = pix (fb s2)"
proof -
  let ?s = "orange_view_set_active 3 False small_platform"
  have "surface_ok ?s" "view_ok (views ?s 3)" "\<not> v_active (views ?s 3)"
    using small_ok by (simp_all add: orange_view_set_active_def Let_def surface_ok_def)
  moreover have "b_is_shm small_buffer" by (simp add: small_buffer_def)
  ultimately show ?thesis
    using hidden_frame_shown_on_activate [of ?s 3 small_buffer] small_ok(3) by blast
qed

section \<open>Buffers go back to WebKit\<close>

datatype view_op = Render view shm_buffer | Idle | SetActive view bool

fun view_step :: "view_op \<Rightarrow> 'a platform_scheme \<Rightarrow> 'a platform_scheme" where
  "view_step (Render v b) s = (case view_render_buffer v b s of Inr s' \<Rightarrow> s' | Inl _ \<Rightarrow> s)"
| "view_step Idle s = run_idle s"
| "view_step (SetActive v a) s = orange_view_set_active v a s"

definition rendered :: "view \<Rightarrow> history \<Rightarrow> wpe_buffer list" where
  "rendered v tr = concat (map (\<lambda>c. case c of BufferRendered u b \<Rightarrow> if u = v then [b] else [] | _ \<Rightarrow> []) tr)"

definition released :: "view \<Rightarrow> history \<Rightarrow> wpe_buffer list" where
  "released v tr = concat (map (\<lambda>c. case c of BufferReleased u b \<Rightarrow> if u = v then [b] else [] | _ \<Rightarrow> []) tr)"

definition accepted :: "view \<Rightarrow> view_op list \<Rightarrow> wpe_buffer list" where
  "accepted v ops = concat (map (\<lambda>op. case op of Render u b \<Rightarrow> if u = v \<and> b_is_shm b then [b_id b] else [] | _ \<Rightarrow> []) ops)"

lemma released_simps [simp]:
  "released v [] = []" "released v (tr @ tr') = released v tr @ released v tr'"
  by (simp_all add: released_def)


lemma rendered_simps [simp]:
  "rendered v [] = []" "rendered v (tr @ tr') = rendered v tr @ rendered v tr'"
  by (simp_all add: rendered_def)

definition held :: "view \<Rightarrow> 'a platform_scheme \<Rightarrow> wpe_buffer list" where
  "held v s = (case shown (views s v) of None \<Rightarrow> [] | Some b \<Rightarrow> [b])"

lemma copy_frame_shown [simp]:
  "trace (copy_frame v b w h s) = trace s" "idles (copy_frame v b w h s) = idles s"
  "shown (views (copy_frame v b w h s) u) = shown (views s u)"
  by (auto simp: copy_frame_def split: option.splits)

lemma release_shown_log:
  "released u (trace (release_shown v s)) = released u (trace s) @ (if u = v then held v s else [])"
  "rendered u (trace (release_shown v s)) = rendered u (trace s) @ (if u = v then held v s else [])"
  by (auto simp: release_shown_def held_def released_def rendered_def split: option.splits)

lemma render_log:
  assumes "view_render_buffer v b s = Inr s'"
  shows "b_is_shm b"
    and "released u (trace s') = released u (trace s) @ (if u = v then held v s else [])"
    and "rendered u (trace s') = rendered u (trace s) @ (if u = v then held v s else [])"
    and "held u s' = (if u = v then [b_id b] else held u s)"
    and "idles s' = idles s @ [v]"
proof -
  from assms show "b_is_shm b"
    by (simp add: view_render_buffer_def split: if_splits)
  let ?w = "fit_width (surface s) b" and ?h = "fit_height (surface s) b"
  let ?s2 = "copy_frame v b ?w ?h (upd_view v (resize_frame ?w ?h) s)"
  define s3 where "s3 = (if v_active (views ?s2 v) then view_show_frame v ?s2 else ?s2)"
  have s3: "released u (trace s3) = released u (trace s)" "rendered u (trace s3) = rendered u (trace s)"
    "held u s3 = held u s" "idles s3 = idles s" for u
    by (simp_all add: s3_def released_def rendered_def held_def)
  have s': "s' = (let s4 = release_shown v s3 in s4\<lparr>views := (views s4)(v := (views s4 v)\<lparr>shown := Some (b_id b)\<rparr>),
      idles := idles s4 @ [v], trace := trace s4 @ [BufferRef (b_id b), ViewRef v, IdleAdd v]\<rparr>)"
    using assms by (simp add: view_render_buffer_def s3_def Let_def split: if_splits)
  show "released u (trace s') = released u (trace s) @ (if u = v then held v s else [])"
    "rendered u (trace s') = rendered u (trace s) @ (if u = v then held v s else [])"
    "held u s' = (if u = v then [b_id b] else held u s)" "idles s' = idles s @ [v]"
    using release_shown_log [of u v s3] s3
    by (simp_all add: s' Let_def) (simp_all add: released_def rendered_def held_def s3_def)
qed

lemma set_active_log [simp]:
  "released u (trace (orange_view_set_active v a s)) = released u (trace s)"
  "rendered u (trace (orange_view_set_active v a s)) = rendered u (trace s)"
  "held u (orange_view_set_active v a s) = held u s"
  "idles (orange_view_set_active v a s) = idles s"
  by (auto simp: orange_view_set_active_def Let_def held_def released_def rendered_def split: option.splits)


lemma run_idle_Cons:
  assumes "idles s = v # vs"
  shows "released u (trace (run_idle s)) = released u (trace s) @ (if u = v then held v s else [])"
    and "rendered u (trace (run_idle s)) = rendered u (trace s) @ (if u = v then held v s else [])"
    and "held u (run_idle s) = (if u = v then [] else held u s)"
    and "idles (run_idle s) = vs"
proof -
  let ?s = "s\<lparr>idles := vs\<rparr>"
  have h: "held v ?s = held v s" for v by (simp add: held_def)
  show "released u (trace (run_idle s)) = released u (trace s) @ (if u = v then held v s else [])"
    "rendered u (trace (run_idle s)) = rendered u (trace s) @ (if u = v then held v s else [])"
    "held u (run_idle s) = (if u = v then [] else held u s)" "idles (run_idle s) = vs"
    using release_shown_log [of u v ?s] h assms
    by (simp_all add: run_idle_def view_release_def) (simp_all add: released_def rendered_def held_def)
qed

lemma run_idle_Nil [simp]: "idles s = [] \<Longrightarrow> run_idle s = s"
  by (simp add: run_idle_def)

lemma run_idle_balance:
  "released u (trace (run_idle s)) @ held u (run_idle s) = released u (trace s) @ held u s"
  "rendered u (trace s) = released u (trace s) \<Longrightarrow> rendered u (trace (run_idle s)) = released u (trace (run_idle s))"
  by (cases "idles s"; simp add: run_idle_Cons)+

lemma accepted_Cons: "accepted v (op # ops) = accepted v [op] @ accepted v ops"
  by (simp add: accepted_def)

lemma render_cases:
  obtains (refused) "\<not> b_is_shm b" "view_render_buffer v b s = Inl RENDER_FAILED"
  | (accepted) s' where "b_is_shm b" "view_render_buffer v b s = Inr s'"
  by (cases "b_is_shm b") (auto simp: view_render_buffer_def Let_def)

lemma view_step_balance:
  "released u (trace (view_step op s)) @ held u (view_step op s) =
     released u (trace s) @ held u s @ accepted u [op]"
proof (cases op)
  case (Render v b)
  show ?thesis
    by (cases rule: render_cases [of b v s]) (auto simp: Render accepted_def render_log)
qed (auto simp: run_idle_balance accepted_def)

lemma view_step_rendered:
  assumes "rendered u (trace s) = released u (trace s)"
  shows "rendered u (trace (view_step op s)) = released u (trace (view_step op s))"
proof (cases op)
  case (Render v b)
  show ?thesis
    by (cases rule: render_cases [of b v s]) (auto simp: Render assms render_log)
qed (auto simp: run_idle_balance assms)

lemma fold_view_step_balance:
  "released u (trace (fold view_step ops s)) @ held u (fold view_step ops s) =
     released u (trace s) @ held u s @ accepted u ops"
proof (induction ops arbitrary: s)
  case (Cons op ops)
  show ?case
    using Cons [of "view_step op s"] view_step_balance [of u op s] accepted_Cons [of u op ops]
    by (metis append_assoc fold_simps(2))
qed (simp add: accepted_def)

lemma fold_view_step_rendered:
  "rendered u (trace s) = released u (trace s) \<Longrightarrow>
     rendered u (trace (fold view_step ops s)) = released u (trace (fold view_step ops s))"
  by (induction ops arbitrary: s) (simp_all add: view_step_rendered)

text \<open>A held buffer always has an idle source waiting to give it back.\<close>

definition pending_ok :: "'a platform_scheme \<Rightarrow> bool" where
  "pending_ok s \<longleftrightarrow> (\<forall>u. held u s \<noteq> [] \<longrightarrow> u \<in> set (idles s))"

lemma run_idle_pending: "pending_ok s \<Longrightarrow> pending_ok (run_idle s)"
  by (cases "idles s") (auto simp: pending_ok_def run_idle_Cons)

lemma view_step_pending: "pending_ok s \<Longrightarrow> pending_ok (view_step op s)"
proof (cases op)
  case (Render v b)
  assume "pending_ok s"
  then show ?thesis
    by (cases rule: render_cases [of b v s]) (auto simp: Render pending_ok_def render_log)
qed (auto simp: run_idle_pending, auto simp: pending_ok_def)

lemma fold_view_step_pending: "pending_ok s \<Longrightarrow> pending_ok (fold view_step ops s)"
  by (induction ops arbitrary: s) (simp_all add: view_step_pending)

lemma drain_idles: "pending_ok s \<Longrightarrow> held u ((run_idle ^^ length (idles s)) s) = []"
proof (induction "length (idles s)" arbitrary: s)
  case 0
  then show ?case by (auto simp: pending_ok_def)
next
  case (Suc n)
  then obtain v vs where i: "idles s = v # vs" by (cases "idles s") auto
  with Suc have "held u ((run_idle ^^ length (idles (run_idle s))) (run_idle s)) = []"
    by (intro Suc.hyps(1)) (auto simp: run_idle_Cons run_idle_pending)
  with i show ?case by (simp add: run_idle_Cons funpow_swap1)
qed

lemma run_idles_balance:
  "released u (trace ((run_idle ^^ n) s)) @ held u ((run_idle ^^ n) s) = released u (trace s) @ held u s"
  by (induction n) (simp_all add: run_idle_balance)

text \<open>The state of a platform that has rendered nothing yet.\<close>

definition fresh_platform :: "'a platform_scheme \<Rightarrow> bool" where
  "fresh_platform s \<longleftrightarrow> (\<forall>v. shown (views s v) = None) \<and> idles s = [] \<and> trace s = []"

lemma fresh_platform_simps:
  "fresh_platform s \<Longrightarrow> held u s = []" "fresh_platform s \<Longrightarrow> released u (trace s) = []"
  "fresh_platform s \<Longrightarrow> rendered u (trace s) = []" "fresh_platform s \<Longrightarrow> pending_ok s"
  by (simp_all add: fresh_platform_def held_def pending_ok_def)

lemma small_fresh: "fresh_platform small_platform"
  by (simp add: fresh_platform_def small_platform_def orange_view_init_def)

text \<open>C23: Whatever the order of frames, idle callbacks and tab switches, the buffers a view
  has given back to WebKit, followed by the one it may still hold, are exactly the
  shared-memory buffers it was given, in that order: none is lost, none is returned twice,
  and each is reported rendered as often as it is released.\<close>

theorem buffers_released_in_order:
  assumes "fresh_platform s"
  shows "released v (trace (fold view_step ops s)) @ held v (fold view_step ops s) = accepted v ops \<and>
    rendered v (trace (fold view_step ops s)) = released v (trace (fold view_step ops s))"
  using fold_view_step_balance [of v ops s] fold_view_step_rendered [of v s ops] fresh_platform_simps [OF assms]
  by simp

theorem buffers_released_in_order_witness:
  "released 3 (trace (fold view_step [Render 3 small_buffer, Render 3 (small_buffer\<lparr>b_id := 8\<rparr>), Idle] small_platform)) @
   held 3 (fold view_step [Render 3 small_buffer, Render 3 (small_buffer\<lparr>b_id := 8\<rparr>), Idle] small_platform) = [7, 8]"
proof -
  let ?ops = "[Render 3 small_buffer, Render 3 (small_buffer\<lparr>b_id := 8\<rparr>), Idle]"
  have "accepted 3 ?ops = [7, 8]"
    by (simp add: accepted_def small_buffer_def)
  then show ?thesis
    using buffers_released_in_order [OF small_fresh, of 3 ?ops] by argo
qed

text \<open>C24: Once the main loop has run the idle sources that are pending, every buffer the
  view was given is back with WebKit: the compositor can never starve the renderer.\<close>

theorem all_buffers_returned:
  fixes ops :: "view_op list" and s :: "'a platform_scheme"
  assumes "fresh_platform s"
  defines "s' \<equiv> fold view_step ops s"
  shows "released v (trace ((run_idle ^^ length (idles s')) s')) = accepted v ops"
proof -
  have "pending_ok s'"
    using assms by (simp add: fold_view_step_pending fresh_platform_simps)
  from drain_idles [OF this, of v] run_idles_balance [of v "length (idles s')" s']
    fold_view_step_balance [of v ops s] fresh_platform_simps [OF assms(1)]
  show ?thesis by (simp add: s'_def)
qed

theorem all_buffers_returned_witness:
  "released 3 (trace ((run_idle ^^ length (idles (fold view_step [Render 3 small_buffer] small_platform)))
     (fold view_step [Render 3 small_buffer] small_platform))) = [7]"
proof -
  have "accepted 3 [Render 3 small_buffer] = [7]"
    by (simp add: accepted_def small_buffer_def)
  then show ?thesis
    using all_buffers_returned [OF small_fresh, of 3 "[Render 3 small_buffer]"] by argo
qed

end
