(* ===== verification/BrowserDraw.thy ===== *)
theory BrowserDraw
  imports PeelView
begin

unbundle bit_operations_syntax

text \<open>
  The state of Orange Browser and the drawing of its tab strip and toolbar
  (\<open>userland/bin/orange-browser/browser.c\<close>, lines 36 to 278). Everything is drawn into the
  window's pixel buffer \<open>fb\<close> in logical coordinates times the backing scale.

  C's \<open>int\<close> coordinates are \<open>int\<close>; the values stay far below \<open>2 ^ 31\<close>. Floating-point
  values (load progress, the reload icon's circle) are \<open>real\<close>, converted to \<open>int\<close> by
  truncation as C does.
\<close>

section \<open>Constants\<close>

definition WINDOW_WIDTH :: int where "WINDOW_WIDTH = 960"
definition WINDOW_HEIGHT :: int where "WINDOW_HEIGHT = 640"
definition TABBAR :: int where "TABBAR = 36"
definition TOOLBAR :: int where "TOOLBAR = 48"
definition CONTENT_Y :: int where "CONTENT_Y = TABBAR + TOOLBAR"
definition MAX_TABS :: nat where "MAX_TABS = 6"

definition START_PAGE :: string where "START_PAGE = ''file:///share/browser/start.html''"
definition CONSOLE_FLAG :: string where "CONSOLE_FLAG = ''/etc/orange-browser/console''"
definition FONT :: string where "FONT = ''/share/fonts/Inter.ttf''"
definition PROFILE :: string where "PROFILE = ''/tmp/orange-browser''"
definition SAVED_PROFILE :: string where "SAVED_PROFILE = ''/data/orange-browser''"

definition INK :: u32 where "INK = 0x26313E"
definition MUTED :: u32 where "MUTED = 0x8A93A0"
definition BAR :: u32 where "BAR = 0xF2F4F7"
definition STRIP :: u32 where "STRIP = 0xDFE4EA"
definition FIELD :: u32 where "FIELD = 0xFFFFFF"
definition ACCENT :: u32 where "ACCENT = 0x1689DB"
definition LINE :: u32 where "LINE = 0xD8DCE2"

lemmas layout_defs = TABBAR_def TOOLBAR_def CONTENT_Y_def

datatype button = BUTTON_BACK | BUTTON_FORWARD | BUTTON_RELOAD

definition button_index :: "button \<Rightarrow> int" where
  "button_index b = (case b of BUTTON_BACK \<Rightarrow> 0 | BUTTON_FORWARD \<Rightarrow> 1 | BUTTON_RELOAD \<Rightarrow> 2)"

definition BUTTON_COUNT :: int where "BUTTON_COUNT = 3"

section \<open>State\<close>

record peel_info =
  w_width :: int
  w_height :: int
  w_scale :: int
  w_stride :: int

record tab =
  t_web_view :: webview
  t_view :: view
  t_progress :: real

text \<open>\<open>tabs\<close> is the whole array of \<open>MAX_TABS\<close> elements, \<open>count\<close> how many are in use;
  \<open>overrun\<close> records a store past the array's end.\<close>

record browser = platform +
  window :: peel_info
  tabs :: "tab list"
  count :: nat
  active :: nat
  address :: string
  editing :: bool
  replace :: bool
  modifiers :: wpe_modifiers
  buttons :: u32
  quit :: bool
  overrun :: bool

definition no_tab :: tab where
  "no_tab = \<lparr>t_web_view = 0, t_view = 0, t_progress = 0\<rparr>"

abbreviation ACTIVE :: "browser \<Rightarrow> tab" where
  "ACTIVE b \<equiv> tabs b ! active b"

abbreviation on_fb :: "(framebuffer \<Rightarrow> framebuffer) \<Rightarrow> browser \<Rightarrow> browser" where
  "on_fb f b \<equiv> b\<lparr>fb := f (fb b)\<rparr>"

section \<open>Drawing primitives\<close>

definition fill :: "peel_info \<Rightarrow> int \<Rightarrow> int \<Rightarrow> int \<Rightarrow> int \<Rightarrow> u32 \<Rightarrow> framebuffer \<Rightarrow> framebuffer" where
  "fill w x y width height color =
     (let s = w_scale w
      in paint (w_stride w) (max x 0 * s) (min (x + width) (w_width w) * s)
           (max y 0 * s) (min (y + height) (w_height w) * s) (\<lambda>_ _. True) (\<lambda>_ _. color))"

definition blend_channel :: "u32 \<Rightarrow> u32 \<Rightarrow> u32 \<Rightarrow> nat \<Rightarrow> u32" where
  "blend_channel bg fg alpha shift =
     (let a = drop_bit shift bg AND 255; b = drop_bit shift fg AND 255
      in push_bit shift ((a * (255 - alpha) + b * alpha) div 255))"

definition blend :: "u32 \<Rightarrow> u32 \<Rightarrow> u32 \<Rightarrow> u32" where
  "blend bg fg alpha =
     fold (\<lambda>shift out. out OR blend_channel bg fg alpha shift) [0, 8, 16] 0"

definition rounded_inside :: "int \<Rightarrow> int \<Rightarrow> int \<Rightarrow> int \<Rightarrow> int \<Rightarrow> int \<Rightarrow> int \<Rightarrow> int \<Rightarrow> bool" where
  "rounded_inside s x y w h r xx yy =
     (let dx = max (max (x * s + r - xx - 1) (xx - ((x + w) * s - r))) 0;
          dy = max (max (y * s + r - yy - 1) (yy - ((y + h) * s - r))) 0
      in \<not> (dx * dx + dy * dy > r * r))"

definition rounded :: "peel_info \<Rightarrow> int \<Rightarrow> int \<Rightarrow> int \<Rightarrow> int \<Rightarrow> int \<Rightarrow> u32 \<Rightarrow> framebuffer \<Rightarrow> framebuffer" where
  "rounded win x y w h radius color =
     (let s = w_scale win; r = radius * s
      in paint (w_stride win) (x * s) ((x + w) * s) (y * s) ((y + h) * s)
           (rounded_inside s x y w h r) (\<lambda>_ _. color))"

section \<open>Text\<close>

definition glyph_px :: "peel_info \<Rightarrow> u32 \<Rightarrow> int \<Rightarrow> int \<Rightarrow> int \<Rightarrow> u8 \<Rightarrow> framebuffer \<Rightarrow> framebuffer" where
  "glyph_px win color limit px py alpha f =
     (if alpha = 0 \<or> px < 0 \<or> py < 0 \<or> px \<ge> limit \<or> px \<ge> w_width win * w_scale win \<or>
         py \<ge> w_height win * w_scale win
      then f
      else let i = py * w_stride win + px in put_px i (blend (pix f i) color (ucast alpha)) f)"

definition draw_glyph :: "peel_info \<Rightarrow> u32 \<Rightarrow> int \<Rightarrow> int \<Rightarrow> int \<Rightarrow> glyph \<Rightarrow> framebuffer \<Rightarrow> framebuffer" where
  "draw_glyph win color pen baseline limit g =
     for_range 0 (int (length (g_bitmap g))) (\<lambda>row.
       for_range 0 (int (length (g_bitmap g ! nat row))) (\<lambda>column.
         glyph_px win color limit (pen + g_left g + column) (baseline * w_scale win - g_top g + row)
           (g_bitmap g ! nat row ! nat column)))"

fun text_chars :: "engine \<Rightarrow> peel_info \<Rightarrow> int \<Rightarrow> u32 \<Rightarrow> int \<Rightarrow> bool \<Rightarrow> int \<Rightarrow> int list \<Rightarrow> int \<Rightarrow> framebuffer \<Rightarrow> int \<times> framebuffer"
  where
  "text_chars E win baseline color sz draw limit [] pen f = (pen, f)"
| "text_chars E win baseline color sz draw limit (c # cs) pen f =
     (case load_char E (sz * w_scale win) c of
        None \<Rightarrow> text_chars E win baseline color sz draw limit cs pen f
      | Some g \<Rightarrow>
          if pen + g_advance g div 64 > limit then (pen, f)
          else text_chars E win baseline color sz draw limit cs (pen + g_advance g div 64)
                 (if draw then draw_glyph win color pen baseline limit g f else f))"

text \<open>\<open>text(string, x, baseline, color, size, draw, max_width)\<close>: the advance in logical
  pixels and the buffer.\<close>

definition text_run ::
  "engine \<Rightarrow> peel_info \<Rightarrow> string \<Rightarrow> int \<Rightarrow> int \<Rightarrow> u32 \<Rightarrow> int \<Rightarrow> bool \<Rightarrow> int \<Rightarrow> framebuffer \<Rightarrow> int \<times> framebuffer" where
  "text_run E win str x baseline color sz draw max_width f =
     (let s = w_scale win in
      case utf8_chars E str of
        None \<Rightarrow> (0, f)
      | Some cs \<Rightarrow>
          (let (pen, f') = text_chars E win baseline color sz draw ((x + max_width) * s) cs (x * s) f
           in (c_div (pen - x * s) s, f')))"

section \<open>Icons\<close>

definition icon :: "peel_info \<Rightarrow> button \<Rightarrow> int \<Rightarrow> int \<Rightarrow> u32 \<Rightarrow> framebuffer \<Rightarrow> framebuffer" where
  "icon win button cx cy color f =
     (if button = BUTTON_RELOAD then
        fill win (cx + 8) (cy - 9) 2 5 color
          (fill win (cx + 5) (cy - 9) 5 2 color
            (for_range 0 73 (\<lambda>k.
               let a = of_int (40 + 4 * k) * pi / 180
               in fill win (cx + c_trunc (7 * cos a)) (cy - c_trunc (7 * sin a)) 2 2 color) f))
      else
        let direction = (if button = BUTTON_BACK then -1 else 1)
        in for_range 0 7 (\<lambda>i f.
             fill win (cx - direction * 3 + direction * i) (cy + 7 - i) 2 2 color
               (fill win (cx - direction * 3 + direction * i) (cy - 7 + i) 2 2 color f)) f)"

definition cross :: "peel_info \<Rightarrow> int \<Rightarrow> int \<Rightarrow> int \<Rightarrow> u32 \<Rightarrow> framebuffer \<Rightarrow> framebuffer" where
  "cross win cx cy half color =
     for_range (- half) (half + 1) (\<lambda>i f.
       fill win (cx + i) (cy - i) 2 2 color (fill win (cx + i) (cy + i) 2 2 color f))"

section \<open>Layout\<close>

definition button_x :: "int \<Rightarrow> int" where
  "button_x b = 10 + b * 38"

definition field_x :: int where
  "field_x = button_x BUTTON_COUNT + 6"

definition tab_width :: "browser \<Rightarrow> int" where
  "tab_width b = min 220 (c_div (w_width (window b) - 8 - 44) (max (int (count b)) 1))"

definition tab_x :: "browser \<Rightarrow> int \<Rightarrow> int" where
  "tab_x b index = 8 + index * tab_width b"

definition plus_x :: "browser \<Rightarrow> int" where
  "plus_x b = tab_x b (int (count b)) + 6"

definition tab_title :: "engine \<Rightarrow> history \<Rightarrow> tab \<Rightarrow> string" where
  "tab_title E h t =
     (case get_title E h (t_web_view t) of
        Some title \<Rightarrow> if title \<noteq> [] then title
          else (case get_uri E h (t_web_view t) of
                  Some uri \<Rightarrow> if uri \<noteq> [] then uri else ''New Tab'' | None \<Rightarrow> ''New Tab'')
      | None \<Rightarrow> (case get_uri E h (t_web_view t) of
                  Some uri \<Rightarrow> if uri \<noteq> [] then uri else ''New Tab'' | None \<Rightarrow> ''New Tab''))"

section \<open>The tab strip and the toolbar\<close>

definition draw_tab :: "engine \<Rightarrow> browser \<Rightarrow> int \<Rightarrow> framebuffer \<Rightarrow> framebuffer" where
  "draw_tab E b i f =
     (let win = window b; w = tab_width b; x = tab_x b i; is_active = (i = int (active b));
          f1 = (if is_active then rounded win x 6 (w - 4) TABBAR 8 BAR f
                else if i + 1 \<noteq> int (active b) then fill win (x + w - 4) 12 1 18 0xB9C1CB f
                else f);
          f2 = snd (text_run E win (tab_title E (trace b) (tabs b ! nat i)) (x + 12) 26
                 (if is_active then INK else 0x55606D) 13 True (w - 4 - 12 - 26) f1)
      in cross win (x + w - 4 - 15) 21 4 (if is_active then INK else MUTED) f2)"

definition draw_tabs_fb :: "engine \<Rightarrow> browser \<Rightarrow> framebuffer \<Rightarrow> framebuffer" where
  "draw_tabs_fb E b f =
     (let win = window b;
          f1 = fill win 0 0 (w_width win) TABBAR STRIP f;
          f2 = for_range 0 (int (count b)) (draw_tab E b) f1
      in if count b < MAX_TABS
         then fill win (plus_x b + 13) 14 2 14 INK (fill win (plus_x b + 7) 20 14 2 INK f2)
         else f2)"

definition draw_tabs :: "engine \<Rightarrow> browser \<Rightarrow> browser" where
  "draw_tabs E b =
     emit [PeelCommit 0 0 (w_width (window b)) TABBAR] (on_fb (draw_tabs_fb E b) b)"

definition button_enabled :: "engine \<Rightarrow> browser \<Rightarrow> button \<Rightarrow> bool" where
  "button_enabled E b button =
     (case button of
        BUTTON_BACK \<Rightarrow> can_go_back E (trace b) (t_web_view (ACTIVE b))
      | BUTTON_FORWARD \<Rightarrow> can_go_forward E (trace b) (t_web_view (ACTIVE b))
      | BUTTON_RELOAD \<Rightarrow> True)"

definition draw_toolbar_fb :: "engine \<Rightarrow> browser \<Rightarrow> framebuffer \<Rightarrow> framebuffer" where
  "draw_toolbar_fb E b f =
     (let win = window b; width = w_width win;
          f1 = fill win 0 TABBAR width TOOLBAR BAR f;
          f2 = fill win 0 (CONTENT_Y - 1) width 1 LINE f1;
          f3 = fold (\<lambda>button. icon win button (button_x (button_index button) + 16) (TABBAR + TOOLBAR div 2)
                 (if button_enabled E b button then INK else 0xC4C9D0))
                 [BUTTON_BACK, BUTTON_FORWARD, BUTTON_RELOAD] f2;
          fx = field_x; fw = width - fx - 12;
          f4 = rounded win fx (TABBAR + 9) fw 30 8 (if editing b then ACCENT else LINE) f3;
          f5 = rounded win (fx + 1) (TABBAR + 10) (fw - 2) 28 7 FIELD f4;
          shown_text = (if address b \<noteq> [] then address b else ''Search or enter an address'');
          (advance, f6) = text_run E win shown_text (fx + 12) (TABBAR + 29)
             (if address b \<noteq> [] then INK else MUTED) 14 True (fw - 24) f5;
          f7 = (if editing b then fill win (fx + 12 + advance + 1) (TABBAR + 16) 1 17 ACCENT f6 else f6);
          progress = t_progress (ACTIVE b)
      in if 0 < progress \<and> progress < 1
         then fill win 0 (CONTENT_Y - 2) (c_trunc (of_int width * progress)) 2 ACCENT f7
         else f7)"

definition draw_toolbar :: "engine \<Rightarrow> browser \<Rightarrow> browser" where
  "draw_toolbar E b =
     emit [PeelCommit 0 TABBAR (w_width (window b)) TOOLBAR] (on_fb (draw_toolbar_fb E b) b)"

definition commit_content :: "int \<Rightarrow> int \<Rightarrow> int \<Rightarrow> int \<Rightarrow> browser \<Rightarrow> browser" where
  "commit_content x y w h b = emit [PeelCommit x y w h] b"

section \<open>Mixing colours\<close>

text \<open>The \<open>k\<close>-th colour channel of a pixel, and the mean that \<open>blend\<close> stores in it.\<close>

definition channel :: "nat \<Rightarrow> u32 \<Rightarrow> nat" where
  "channel k c = unat (drop_bit (8 * k) c AND 255)"

lemma and_255: "(w :: u32) AND 255 = take_bit 8 w"
  by (simp add: take_bit_eq_mask mask_eq_exp_minus_1)

lemma channel_le [simp]: "channel k c \<le> 255"
proof -
  have "unat (take_bit 8 (drop_bit (8 * k) c)) < 2 ^ 8"
    unfolding unsigned_take_bit_eq by (rule take_bit_nat_less_exp)
  then show ?thesis by (simp add: channel_def and_255)
qed

definition mix :: "u32 \<Rightarrow> u32 \<Rightarrow> u32 \<Rightarrow> nat \<Rightarrow> u32" where
  "mix bg fg alpha k =
     ((drop_bit (8 * k) bg AND 255) * (255 - alpha) + (drop_bit (8 * k) fg AND 255) * alpha) div 255"

lemma weighted_le:
  fixes a b t n :: nat
  assumes "a \<le> n" "b \<le> n" "t \<le> m"
  shows "a * (m - t) + b * t \<le> n * m"
proof -
  have "a * (m - t) + b * t \<le> n * (m - t) + n * t"
    using assms by (intro add_mono mult_right_mono) auto
  also have "\<dots> = n * m" using assms(3) by (simp flip: distrib_left)
  finally show ?thesis .
qed

lemma unat_mix:
  assumes "alpha \<le> 255"
  shows "unat (mix bg fg alpha k) =
    (channel k bg * (255 - unat alpha) + channel k fg * unat alpha) div 255"
proof -
  let ?a = "drop_bit (8 * k) bg AND 255" and ?b = "drop_bit (8 * k) fg AND 255"
  have t: "unat alpha \<le> 255" using assms by (simp add: word_le_nat_alt)
  have s: "unat (255 - alpha) = 255 - unat alpha"
    using assms by (simp add: unat_sub)
  have le: "channel k bg * (255 - unat alpha) + channel k fg * unat alpha \<le> 255 * 255"
    by (intro weighted_le channel_le t)
  have m1: "unat (?a * (255 - alpha)) = channel k bg * (255 - unat alpha)"
    using le by (subst unat_mult_lem [THEN iffD1]) (auto simp: s channel_def)
  have m2: "unat (?b * alpha) = channel k fg * unat alpha"
    using le by (subst unat_mult_lem [THEN iffD1]) (auto simp: channel_def)
  have "unat (?a * (255 - alpha) + ?b * alpha) =
      channel k bg * (255 - unat alpha) + channel k fg * unat alpha"
    using le m1 m2 by (subst unat_add_lem [THEN iffD1]) auto
  then show ?thesis by (simp add: mix_def unat_div)
qed

lemma mix_small: "alpha \<le> 255 \<Longrightarrow> bit (mix bg fg alpha k) n \<Longrightarrow> n < 8"
proof (rule ccontr)
  assume a: "alpha \<le> 255" and b: "bit (mix bg fg alpha k) n" and n: "\<not> n < 8"
  have "channel k bg * (255 - unat alpha) + channel k fg * unat alpha \<le> 255 * 255"
    using a by (intro weighted_le channel_le) (simp add: word_le_nat_alt)
  then have "unat (mix bg fg alpha k) \<le> 255"
    unfolding unat_mix [OF a] by (simp add: div_le_mono [THEN order_trans])
  then have "unat (mix bg fg alpha k) < 2 ^ 8" by simp
  then have "take_bit 8 (mix bg fg alpha k) = mix bg fg alpha k"
    by (simp add: word_unat_eq_iff unsigned_take_bit_eq take_bit_nat_eq_self)
  then show False using b n by (metis bit_take_bit_iff)
qed

text \<open>\<open>blend\<close> mixes each of the three colour channels on its own: the result's channel is
  the weighted mean of the two channels, rounded down, with no carry into the neighbouring
  channel and no wrap-around of the 32-bit products.\<close>

theorem blend_channels:
  assumes "alpha \<le> 255" and "k < 3"
  shows "channel k (blend bg fg alpha) =
    (channel k bg * (255 - unat alpha) + channel k fg * unat alpha) div 255"
proof -
  have eq: "blend bg fg alpha =
      mix bg fg alpha 0 OR push_bit 8 (mix bg fg alpha 1) OR push_bit 16 (mix bg fg alpha 2)"
    by (simp add: blend_def blend_channel_def mix_def Let_def or.assoc)
  have "drop_bit (8 * k) (blend bg fg alpha) AND 255 = mix bg fg alpha k"
  proof (rule bit_word_eqI)
    fix n assume "n < LENGTH(32)"
    have "k = 0 \<or> k = 1 \<or> k = 2" using assms(2) by auto
    then show "bit (drop_bit (8 * k) (blend bg fg alpha) AND 255) n = bit (mix bg fg alpha k) n"
      using mix_small [OF assms(1), of bg fg] \<open>n < LENGTH(32)\<close>
      by (fastforce simp: eq and_255 bit_take_bit_iff bit_drop_bit_eq bit_or_iff bit_push_bit_iff)
  qed
  then show ?thesis
    by (simp add: channel_def [of k "blend bg fg alpha"] unat_mix [OF assms(1)])
qed


theorem blend_channels_witness:
  "channel 0 (blend 0xFFFFFF INK 128) = (channel 0 0xFFFFFF * (255 - 128) + channel 0 INK * 128) div 255"
  using blend_channels [of 128 0 "0xFFFFFF" INK] by simp

section \<open>Where drawing operations store\<close>

text \<open>What libpeel's window guarantees: a positive scale, rows that hold the scaled width, and
  room for the tab strip and the toolbar; and a buffer that holds all rows.\<close>

definition window_ok :: "peel_info \<Rightarrow> bool" where
  "window_ok w \<longleftrightarrow> 0 < w_scale w \<and> 52 \<le> w_width w \<and> CONTENT_Y \<le> w_height w \<and>
     w_width w * w_scale w \<le> w_stride w"

definition holds_window :: "peel_info \<Rightarrow> framebuffer \<Rightarrow> bool" where
  "holds_window w f \<longleftrightarrow> w_height w * w_scale w * w_stride w \<le> size_px f"

text \<open>A drawing operation stores only in the rows of \<open>[y0, y1)\<close> (logical coordinates), inside
  the buffer.\<close>

definition draws_within :: "peel_info \<Rightarrow> int \<Rightarrow> int \<Rightarrow> (framebuffer \<Rightarrow> framebuffer) \<Rightarrow> bool" where
  "draws_within w y0 y1 op \<longleftrightarrow> (\<forall>f X Y. holds_window w f \<longrightarrow> 0 \<le> X \<longrightarrow> X < w_stride w \<longrightarrow>
     size_px (op f) = size_px f \<and> fault (op f) = fault f \<and>
     (Y < y0 * w_scale w \<or> y1 * w_scale w \<le> Y \<longrightarrow>
        pix (op f) (Y * w_stride w + X) = pix f (Y * w_stride w + X)))"

lemma window_okD:
  assumes "window_ok w"
  shows "0 < w_scale w" "0 < w_stride w" "52 \<le> w_width w" "84 \<le> w_height w"
    "w_width w * w_scale w \<le> w_stride w"
proof -
  show s: "0 < w_scale w" "52 \<le> w_width w" "84 \<le> w_height w" "w_width w * w_scale w \<le> w_stride w"
    using assms by (auto simp: window_ok_def layout_defs)
  then have "0 < w_width w * w_scale w" by simp
  with s(4) show "0 < w_stride w" by linarith
qed

lemma draws_within_id [safe_intros]: "draws_within w y0 y1 (\<lambda>f. f)"
  by (simp add: draws_within_def)

lemma draws_within_comp:
  assumes "draws_within w y0 y1 g" "draws_within w y0 y1 h"
  shows "draws_within w y0 y1 (\<lambda>f. h (g f))"
proof -
  have "holds_window w (g f)" if "holds_window w f" and "0 \<le> X" "X < w_stride w" for f X
    using assms(1) that unfolding draws_within_def holds_window_def by metis
  then show ?thesis
    using assms unfolding draws_within_def by (metis (full_types))
qed

lemma draws_within_pointwise:
  assumes "\<And>f. \<exists>op'. draws_within w y0 y1 op' \<and> op f = op' f"
  shows "draws_within w y0 y1 op"
  unfolding draws_within_def
proof (intro allI impI)
  fix f X Y
  assume f: "holds_window w f" "0 \<le> X" "X < w_stride w"
  obtain op' where "draws_within w y0 y1 op'" "op f = op' f" using assms by blast
  then show "size_px (op f) = size_px f \<and> fault (op f) = fault f \<and>
     (Y < y0 * w_scale w \<or> y1 * w_scale w \<le> Y \<longrightarrow>
        pix (op f) (Y * w_stride w + X) = pix f (Y * w_stride w + X))"
    using f by (auto simp: draws_within_def)
qed

lemma draws_within_if:
  assumes "c \<Longrightarrow> draws_within w y0 y1 g" "\<not> c \<Longrightarrow> draws_within w y0 y1 h"
  shows "draws_within w y0 y1 (\<lambda>f. if c then g f else h f)"
  using assms by (cases c) simp_all

lemma draws_within_for [safe_intros]:
  assumes "\<And>i. lo \<le> i \<Longrightarrow> i < hi \<Longrightarrow> draws_within w y0 y1 (body i)"
  shows "draws_within w y0 y1 (for_range lo hi body)"
proof -
  have "(\<forall>i \<in> set is. lo \<le> i \<and> i < hi) \<Longrightarrow> draws_within w y0 y1 (fold body is)" for "is"
  proof (induction "is")
    case Nil
    then show ?case by (simp add: draws_within_def)
  next
    case (Cons i "is")
    then show ?case
      using draws_within_comp [of w y0 y1 "body i" "fold body is"] assms [of i]
      by (simp add: comp_def)
  qed
  then show ?thesis
    by (simp add: for_range_def [abs_def])
qed

lemma draws_within_mono:
  assumes "draws_within w a b op" "y0 \<le> a" "b \<le> y1" "0 < w_scale w"
  shows "draws_within w y0 y1 op"
proof -
  have "y0 * w_scale w \<le> a * w_scale w" "b * w_scale w \<le> y1 * w_scale w"
    using assms by (auto intro: mult_right_mono)
  then show ?thesis
    using assms(1) unfolding draws_within_def by (meson order_trans order_less_le_trans)
qed

lemma draws_within_paint:
  assumes w: "window_ok w" and "0 \<le> x0" "x1 \<le> w_width w * w_scale w" "0 \<le> y0 * w_scale w"
    "y1 \<le> w_height w" "a \<le> y0" "y1 \<le> b"
  shows "draws_within w a b
    (paint (w_stride w) x0 x1 (y0 * w_scale w) (y1 * w_scale w) cond colour)"
proof -
  note W = window_okD [OF w]
  have y: "y1 * w_scale w \<le> w_height w * w_scale w" "a * w_scale w \<le> y0 * w_scale w"
    "y1 * w_scale w \<le> b * w_scale w"
    using assms W(1) by (auto intro: mult_right_mono)
  show ?thesis
    unfolding draws_within_def holds_window_def
  proof (intro allI impI)
    fix f :: framebuffer and X Y
    assume f: "w_height w * w_scale w * w_stride w \<le> size_px f" and X: "0 \<le> X" "X < w_stride w"
    show "size_px (paint (w_stride w) x0 x1 (y0 * w_scale w) (y1 * w_scale w) cond colour f) = size_px f \<and>
      fault (paint (w_stride w) x0 x1 (y0 * w_scale w) (y1 * w_scale w) cond colour f) = fault f \<and>
      (Y < a * w_scale w \<or> b * w_scale w \<le> Y \<longrightarrow>
       pix (paint (w_stride w) x0 x1 (y0 * w_scale w) (y1 * w_scale w) cond colour f) (Y * w_stride w + X) =
         pix f (Y * w_stride w + X))"
    proof -
      have out: "Y < a * w_scale w \<or> b * w_scale w \<le> Y \<longrightarrow> \<not> (y0 * w_scale w \<le> Y \<and> Y < y1 * w_scale w)"
        using y by linarith
      show ?thesis
        using paint_correct [of x0 x1 "w_stride w" "y0 * w_scale w" "y1 * w_scale w"
          "w_height w * w_scale w" f X cond colour Y] assms(2-4) W(5) y(1) f X out
        by auto
    qed
  qed
qed

lemma draws_within_fill:
  assumes "window_ok w" "y0 \<le> max y 0" "min (y + h) (w_height w) \<le> y1"
  shows "draws_within w y0 y1 (fill w x y width h color)"
proof -
  have s: "0 < w_scale w" using assms window_okD by blast
  show ?thesis
    unfolding fill_def [abs_def] Let_def
    by (rule draws_within_paint) (use assms s in \<open>auto intro: mult_right_mono\<close>)
qed

lemma draws_within_rounded:
  assumes "window_ok w" "0 \<le> x" "x + width \<le> w_width w" "0 \<le> y" "y + h \<le> w_height w"
    "y0 \<le> y" "y + h \<le> y1"
  shows "draws_within w y0 y1 (rounded w x y width h radius color)"
proof -
  have s: "0 < w_scale w" using assms window_okD by blast
  show ?thesis
    unfolding rounded_def [abs_def] Let_def
    by (rule draws_within_paint) (use assms s in \<open>auto intro: mult_right_mono\<close>)
qed


lemma draws_within_then_fill:
  assumes "window_ok w" "draws_within w y0 y1 g" "y0 \<le> max y 0" "min (y + h) (w_height w) \<le> y1"
  shows "draws_within w y0 y1 (\<lambda>f. fill w x y width h color (g f))"
  by (rule draws_within_comp [OF assms(2) draws_within_fill]) (use assms in auto)

text \<open>Text\<close>

lemma draws_within_glyph_px:
  assumes w: "window_ok w"
    and py: "0 \<le> py \<Longrightarrow> py < w_height w * w_scale w \<Longrightarrow> y0 * w_scale w \<le> py \<and> py < y1 * w_scale w"
  shows "draws_within w y0 y1 (glyph_px w color limit px py alpha)"
proof -
  note W = window_okD [OF w]
  show ?thesis
    unfolding draws_within_def holds_window_def
  proof (intro allI impI)
    fix f :: framebuffer and X Y
    assume f: "w_height w * w_scale w * w_stride w \<le> size_px f" and X: "0 \<le> X" "X < w_stride w"
    show "size_px (glyph_px w color limit px py alpha f) = size_px f \<and>
      fault (glyph_px w color limit px py alpha f) = fault f \<and>
      (Y < y0 * w_scale w \<or> y1 * w_scale w \<le> Y \<longrightarrow>
       pix (glyph_px w color limit px py alpha f) (Y * w_stride w + X) = pix f (Y * w_stride w + X))"
    proof (cases "0 \<le> px \<and> 0 \<le> py \<and> px < w_width w * w_scale w \<and> py < w_height w * w_scale w")
      case True
      have b: "0 \<le> py * w_stride w + px" "py * w_stride w + px < size_px f"
        using row_major_bounds [of px "w_stride w" py "w_height w * w_scale w" "size_px f"] True W f by auto
      have "Y * w_stride w + X = py * w_stride w + px \<longleftrightarrow> Y = py \<and> X = px"
        by (rule row_major_inj) (use X True W in auto)
      then show ?thesis
        using b py True by (auto simp: glyph_px_def Let_def)
    qed (auto simp: glyph_px_def)
  qed
qed

definition glyph_within :: "peel_info \<Rightarrow> int \<Rightarrow> int \<Rightarrow> int \<Rightarrow> glyph \<Rightarrow> bool" where
  "glyph_within w y0 y1 baseline g \<longleftrightarrow>
     y0 * w_scale w \<le> max 0 (baseline * w_scale w - g_top g) \<and>
     min (w_height w * w_scale w) (baseline * w_scale w - g_top g + int (length (g_bitmap g))) \<le> y1 * w_scale w"

lemma draws_within_glyph:
  assumes "window_ok w" and "glyph_within w y0 y1 baseline g"
  shows "draws_within w y0 y1 (draw_glyph w color pen baseline limit g)"
  unfolding draw_glyph_def [abs_def]
  by (intro draws_within_for draws_within_glyph_px assms(1))
    (use assms in \<open>auto simp: glyph_within_def\<close>)

lemma draws_within_text_chars:
  assumes "window_ok w"
    and "\<And>c g. load_char E (sz * w_scale w) c = Some g \<Longrightarrow> glyph_within w y0 y1 baseline g"
  shows "draws_within w y0 y1 (\<lambda>f. snd (text_chars E w baseline color sz draw limit cs pen f))"
proof (induction cs arbitrary: pen)
  case Nil
  show ?case by (simp add: draws_within_id)
next
  case (Cons c cs)
  show ?case
  proof (cases "load_char E (sz * w_scale w) c")
    case None
    then show ?thesis using Cons by simp
  next
    case (Some g)
    have "draws_within w y0 y1 (\<lambda>f. if draw then draw_glyph w color pen baseline limit g f else f)"
      using draws_within_glyph [OF assms(1) assms(2) [OF Some]] draws_within_id
      by (cases draw) simp_all
    from draws_within_comp [OF this Cons [of "pen + g_advance g div 64"]] Some show ?thesis
      by (cases "limit < pen + g_advance g div 64") (simp_all add: draws_within_id)
  qed
qed

lemma draws_within_text:
  assumes "window_ok w"
    and "\<And>c g. load_char E (sz * w_scale w) c = Some g \<Longrightarrow> glyph_within w y0 y1 baseline g"
  shows "draws_within w y0 y1 (\<lambda>f. snd (text_run E w str x baseline color sz draw max_width f))"
proof (cases "utf8_chars E str")
  case (Some cs)
  then show ?thesis
    using draws_within_text_chars [OF assms, where color = color and draw = draw and limit = "(x + max_width) * w_scale w" and cs = cs
      and pen = "x * w_scale w"]
    by (simp add: text_run_def Let_def case_prod_beta)
qed (simp add: text_run_def draws_within_id)

lemma draws_within_icon:
  assumes "window_ok w" "y0 \<le> cy - 16" "cy + 16 \<le> y1" "0 \<le> y0"
  shows "draws_within w y0 y1 (icon w button cx cy color)"
proof -
  have sin: "-7 \<le> c_trunc (7 * sin a)" "c_trunc (7 * sin a) \<le> 7" for a
  proof -
    have "\<bar>7 * sin a\<bar> \<le> of_int 7" using abs_sin_le_one [of a] by (simp add: abs_mult)
    from c_trunc_bounds [OF this]
    show "-7 \<le> c_trunc (7 * sin a)" "c_trunc (7 * sin a) \<le> 7" by simp_all
  qed
  have arc: "y0 \<le> max (cy - c_trunc (7 * sin a)) 0"
    "min (cy - c_trunc (7 * sin a) + 2) (w_height w) \<le> y1" for a
    using sin [of a] assms(2,3) by linarith+
  show ?thesis
    unfolding icon_def [abs_def] Let_def
    by (intro draws_within_if draws_within_then_fill draws_within_for draws_within_fill arc assms(1);
        use assms(2,3) in auto)
qed

lemma draws_within_cross:
  assumes "window_ok w" "y0 \<le> cy - half" "cy + half + 2 \<le> y1" "0 \<le> y0"
  shows "draws_within w y0 y1 (cross w cx cy half color)"
  unfolding cross_def [abs_def]
  by (intro draws_within_for draws_within_then_fill draws_within_fill assms(1)) (use assms in auto)


lemma draws_within_then_rounded:
  assumes "window_ok w" "draws_within w y0 y1 g"
    "0 \<le> x" "x + width \<le> w_width w" "0 \<le> y" "y + h \<le> w_height w" "y0 \<le> y" "y + h \<le> y1"
  shows "draws_within w y0 y1 (\<lambda>f. rounded w x y width h radius color (g f))"
  by (rule draws_within_comp [OF assms(2) draws_within_rounded]) (use assms in auto)

lemma tabs_fit:
  assumes "window_ok (window b)" "0 < count b"
  shows "0 \<le> tab_width b" "int (count b) * tab_width b \<le> w_width (window b) - 52"
proof -
  let ?n = "int (count b)" and ?a = "w_width (window b) - 52"
  have w: "0 \<le> ?a" "0 < ?n" using assms window_okD(3) by auto
  have tw: "tab_width b = min 220 (?a div ?n)"
    using w by (simp add: tab_width_def max_absorb1)
  show "0 \<le> tab_width b" using w by (simp add: tw pos_imp_zdiv_nonneg_iff)
  have "tab_width b \<le> ?a div ?n" by (simp add: tw)
  then show "?n * tab_width b \<le> ?a"
    using w by (simp add: int_le_div_iff mult.commute)
qed

lemma tab_in_strip:
  assumes "window_ok (window b)" "0 \<le> i" "i < int (count b)"
  shows "8 \<le> tab_x b i" "tab_x b i + tab_width b \<le> w_width (window b) - 44"
proof -
  have c: "0 < count b" using assms by auto
  note fit = tabs_fit [OF assms(1) c]
  show "8 \<le> tab_x b i" using fit assms by (simp add: tab_x_def)
  have "(i + 1) * tab_width b \<le> int (count b) * tab_width b"
    using fit assms by (intro mult_right_mono) auto
  then show "tab_x b i + tab_width b \<le> w_width (window b) - 44"
    using fit by (simp add: tab_x_def algebra_simps)
qed

lemma draws_within_draw_tab:
  assumes w: "window_ok (window b)" and i: "0 \<le> i" "i < int (count b)" and y1: "TABBAR + 6 \<le> y1"
    and g: "\<And>c g. load_char E (13 * w_scale (window b)) c = Some g \<Longrightarrow> glyph_within (window b) 0 y1 26 g"
  shows "draws_within (window b) 0 y1 (draw_tab E b i)"
proof -
  let ?w = "window b"
  note W = window_okD [OF w] and T = tab_in_strip [OF w i]
  have rounded: "draws_within ?w 0 y1 (rounded ?w (tab_x b i) 6 (tab_width b - 4) TABBAR 8 BAR)"
    by (rule draws_within_rounded) (use w W T y1 in \<open>auto simp: layout_defs\<close>)
  have line: "draws_within ?w 0 y1 (fill ?w x 12 1 18 0xB9C1CB)" for x
    by (rule draws_within_fill) (use w y1 in \<open>auto simp: layout_defs\<close>)
  have cross: "draws_within ?w 0 y1 (cross ?w x 21 4 color)" for x color
    by (rule draws_within_cross) (use w y1 in \<open>auto simp: layout_defs\<close>)
  have label: "draws_within ?w 0 y1 (\<lambda>f. snd (text_run E ?w str x 26 color 13 True mw f))" for str x color mw
    by (rule draws_within_text) (use w g in auto)
  have bg: "draws_within ?w 0 y1 (\<lambda>f. if i = int (active b) then rounded ?w (tab_x b i) 6 (tab_width b - 4) TABBAR 8 BAR f
      else if i + 1 \<noteq> int (active b) then fill ?w (tab_x b i + tab_width b - 4) 12 1 18 0xB9C1CB f else f)"
    by (intro draws_within_if rounded line draws_within_id)
  show ?thesis
    unfolding draw_tab_def [abs_def] Let_def
    by (rule draws_within_comp [OF draws_within_comp [OF bg label] cross])
qed

lemma draws_within_draw_tabs:
  assumes w: "window_ok (window b)" and y1: "TABBAR + 6 \<le> y1"
    and g: "\<And>c g. load_char E (13 * w_scale (window b)) c = Some g \<Longrightarrow> glyph_within (window b) 0 y1 26 g"
  shows "draws_within (window b) 0 y1 (draw_tabs_fb E b)"
proof -
  have strip: "draws_within (window b) 0 y1 (fill (window b) 0 0 (w_width (window b)) TABBAR STRIP)"
    by (rule draws_within_fill) (use w y1 in \<open>auto simp: layout_defs\<close>)
  have tabs: "draws_within (window b) 0 y1 (for_range 0 (int (count b)) (draw_tab E b))"
    by (intro draws_within_for draws_within_draw_tab) (use w y1 g in auto)
  show ?thesis
    unfolding draw_tabs_fb_def [abs_def] Let_def
    by (intro draws_within_if draws_within_then_fill draws_within_comp [OF strip tabs] w)
      (use y1 in \<open>auto simp: layout_defs\<close>)
qed

lemma draws_within_toolbar:
  assumes w: "window_ok (window b)" and y: "0 \<le> y0" "y0 \<le> TABBAR" "CONTENT_Y \<le> y1"
    and g: "\<And>c g. load_char E (14 * w_scale (window b)) c = Some g \<Longrightarrow> glyph_within (window b) y0 y1 65 g"
  shows "draws_within (window b) y0 y1 (draw_toolbar_fb E b)"
proof -
  let ?w = "window b" and ?fx = field_x and ?fw = "w_width (window b) - field_x - 12"
  let ?icon = "\<lambda>button. icon ?w button (button_x (button_index button) + 16) (TABBAR + TOOLBAR div 2)
     (if button_enabled E b button then INK else 0xC4C9D0)"
  let ?shown = "if address b \<noteq> [] then address b else ''Search or enter an address''"
  let ?text = "text_run E ?w ?shown (?fx + 12) (TABBAR + 29) (if address b \<noteq> [] then INK else MUTED) 14 True (?fw - 24)"
  note W = window_okD [OF w]
  have icon: "draws_within ?w y0 y1 (?icon button)" for button
    by (rule draws_within_icon) (use w y in \<open>auto simp: layout_defs\<close>)
  have icons: "draws_within ?w y0 y1 (fold ?icon [BUTTON_BACK, BUTTON_FORWARD, BUTTON_RELOAD])"
    using draws_within_comp [OF draws_within_comp [OF icon icon] icon] by (simp add: comp_def)
  have label: "draws_within ?w y0 y1 (\<lambda>f. snd (?text f))"
    by (rule draws_within_text) (use w g in \<open>auto simp: layout_defs\<close>)
  have cursor: "draws_within ?w y0 y1 (\<lambda>f. if editing b
      then fill ?w (?fx + 12 + fst (?text f) + 1) (TABBAR + 16) 1 17 ACCENT (snd (?text f)) else snd (?text f))"
    (is "draws_within _ _ _ ?op")
  proof (rule draws_within_pointwise)
    fix f
    let ?op' = "\<lambda>f'. if editing b
      then fill ?w (?fx + 12 + fst (?text f) + 1) (TABBAR + 16) 1 17 ACCENT (snd (?text f')) else snd (?text f')"
    have "draws_within ?w y0 y1 ?op'"
      by (intro draws_within_if draws_within_then_fill label w) (use y in \<open>auto simp: layout_defs\<close>)
    then show "\<exists>op'. draws_within ?w y0 y1 op' \<and> ?op f = op' f"
      by (intro exI [of _ ?op'] conjI) simp_all
  qed
  have field: "draws_within ?w y0 y1 (\<lambda>f.
      rounded ?w (?fx + 1) (TABBAR + 10) (?fw - 2) 28 7 FIELD
        (rounded ?w ?fx (TABBAR + 9) ?fw 30 8 (if editing b then ACCENT else LINE) f))"
    by (intro draws_within_then_rounded draws_within_rounded w)
      (use y W in \<open>auto simp: layout_defs field_x_def button_x_def BUTTON_COUNT_def\<close>)
  have ground: "draws_within ?w y0 y1 (\<lambda>f. fill ?w 0 (CONTENT_Y - 1) (w_width ?w) 1 LINE
      (fill ?w 0 TABBAR (w_width ?w) TOOLBAR BAR f))"
    by (intro draws_within_then_fill draws_within_fill w) (use y in \<open>auto simp: layout_defs\<close>)
  note all = draws_within_comp [OF draws_within_comp [OF draws_within_comp [OF ground icons] field] cursor]
  show ?thesis
    unfolding draw_toolbar_fb_def [abs_def] Let_def case_prod_beta
    by (intro draws_within_if draws_within_then_fill all w) (use y in \<open>auto simp: layout_defs\<close>)
qed


section \<open>Properties\<close>

lemma draws_within_rows:
  assumes "draws_within w y0 y1 op" "holds_window w f" "0 \<le> X" "X < w_stride w"
  shows "Y < y0 * w_scale w \<or> y1 * w_scale w \<le> Y \<Longrightarrow>
    pix (op f) (Y * w_stride w + X) = pix f (Y * w_stride w + X)"
  using assms by (auto simp: draws_within_def)

lemma draws_within_safe:
  assumes "draws_within w y0 y1 op" "window_ok w" "holds_window w f"
  shows "fault (op f) = fault f" and "size_px (op f) = size_px f"
  using assms window_okD(2) [of w] unfolding draws_within_def by (meson order_refl)+

lemma draw_tabs_safe:
  assumes "window_ok (window b)" "holds_window (window b) f"
  shows "fault (draw_tabs_fb E b f) = fault f" "size_px (draw_tabs_fb E b f) = size_px f"
proof -
  have "draws_within (window b) 0 (w_height (window b)) (draw_tabs_fb E b)"
    by (rule draws_within_draw_tabs)
      (use assms(1) window_okD [OF assms(1)] in \<open>auto simp: layout_defs glyph_within_def\<close>)
  from draws_within_safe [OF this assms]
  show "fault (draw_tabs_fb E b f) = fault f" "size_px (draw_tabs_fb E b f) = size_px f" .
qed

lemma draw_toolbar_safe:
  assumes "window_ok (window b)" "holds_window (window b) f"
  shows "fault (draw_toolbar_fb E b f) = fault f" "size_px (draw_toolbar_fb E b f) = size_px f"
proof -
  have "draws_within (window b) 0 (w_height (window b)) (draw_toolbar_fb E b)"
    by (rule draws_within_toolbar)
      (use assms(1) window_okD [OF assms(1)] in \<open>auto simp: layout_defs glyph_within_def\<close>)
  from draws_within_safe [OF this assms]
  show "fault (draw_toolbar_fb E b f) = fault f" "size_px (draw_toolbar_fb E b f) = size_px f" .
qed

text \<open>An empty browser in a 960 by 640 window at scale 1, and an engine with a small glyph for
  every character; each new view gets a number above all earlier ones.\<close>

definition sample_window :: peel_info where
  "sample_window = \<lparr>w_width = WINDOW_WIDTH, w_height = WINDOW_HEIGHT, w_scale = 1, w_stride = WINDOW_WIDTH\<rparr>"

definition sample_engine :: engine where
  "sample_engine = \<lparr>get_uri = (\<lambda>_ _. Some ''about:blank''), get_title = (\<lambda>_ _. None), get_progress = (\<lambda>_ _. 1/2),
     can_go_back = (\<lambda>_ _. False), can_go_forward = (\<lambda>_ _. True),
     new_web_view = (\<lambda>h. Suc (sum_list (map (\<lambda>c. case c of NewWebView _ w \<Rightarrow> w | _ \<Rightarrow> 0) h))),
     get_wpe_view = (\<lambda>_ v. v), utf8_chars = (\<lambda>s. Some (map of_char s)),
     load_char = (\<lambda>_ _. Some \<lparr>g_left = 0, g_top = 2, g_bitmap = [[255], [128]], g_advance = 64\<rparr>)\<rparr>"

definition empty_browser :: "peel_info \<Rightarrow> browser" where
  "empty_browser w = \<lparr>
     fb = \<lparr>pix = (\<lambda>_. 0xFFFFFF), size_px = w_height w * w_scale w * w_stride w, fault = False\<rparr>,
     surface = \<lparr>sf_stride = w_stride w, sf_scale = w_scale w, sf_x = 0, sf_y = CONTENT_Y,
       sf_width = w_width w, sf_height = w_height w - CONTENT_Y\<rparr>,
     views = (\<lambda>_. orange_view_init), idles = [], trace = [],
     window = w, tabs = replicate MAX_TABS no_tab, count = 0, active = 0, address = [],
     editing = False, replace = False, modifiers = {}, buttons = 0, quit = False, overrun = False\<rparr>"

text \<open>Drawing the tab strip or the toolbar never stores outside the window's pixel buffer,
  whatever titles, addresses, glyphs and load progress the engine reports and however many
  tabs there are.\<close>

theorem chrome_drawing_safe:
  assumes "window_ok (window b)" and "holds_window (window b) (fb b)" and "\<not> fault (fb b)"
  shows "\<not> fault (fb (draw_tabs E b)) \<and> \<not> fault (fb (draw_toolbar E b))"
  using draw_tabs_safe [OF assms(1,2)] draw_toolbar_safe [OF assms(1,2)] assms(3)
  by (simp add: draw_tabs_def draw_toolbar_def)

theorem chrome_drawing_safe_witness:
  "\<not> fault (fb (draw_tabs sample_engine (empty_browser sample_window))) \<and>
   \<not> fault (fb (draw_toolbar sample_engine (empty_browser sample_window)))"
  by (rule chrome_drawing_safe)
    (simp_all add: empty_browser_def sample_window_def window_ok_def holds_window_def layout_defs
      WINDOW_WIDTH_def WINDOW_HEIGHT_def)

text \<open>The glyphs reach at most one pixel size below the baseline and two above it.\<close>

definition font_fits :: "engine \<Rightarrow> int \<Rightarrow> bool" where
  "font_fits E px \<longleftrightarrow> (\<forall>c g. load_char E px c = Some g \<longrightarrow>
     g_top g \<le> 2 * px \<and> int (length (g_bitmap g)) - g_top g \<le> px)"

lemma font_fits_glyph:
  assumes "font_fits E px" "load_char E px c = Some g"
    and "y0 * w_scale w \<le> max 0 (baseline * w_scale w - 2 * px)"
    and "baseline * w_scale w + px \<le> y1 * w_scale w"
  shows "glyph_within w y0 y1 baseline g"
proof -
  have "g_top g \<le> 2 * px" "int (length (g_bitmap g)) - g_top g \<le> px"
    using assms(1,2) by (auto simp: font_fits_def)
  with assms(3,4) show ?thesis unfolding glyph_within_def by linarith
qed

lemma draw_tabs_rows:
  assumes w: "window_ok (window b)" and f: "holds_window (window b) f"
    and font: "font_fits E (13 * w_scale (window b))"
    and X: "0 \<le> X" "X < w_stride (window b)" and Y: "CONTENT_Y * w_scale (window b) \<le> Y"
  shows "pix (draw_tabs_fb E b f) (Y * w_stride (window b) + X) = pix f (Y * w_stride (window b) + X)"
proof -
  have s: "0 < w_scale (window b)" using window_okD [OF w] by blast
  have "draws_within (window b) 0 CONTENT_Y (draw_tabs_fb E b)"
    by (rule draws_within_draw_tabs, rule w, simp add: layout_defs, erule font_fits_glyph [OF font])
      (use s in \<open>auto simp: layout_defs\<close>)
  from draws_within_rows [OF this f X] Y show ?thesis by simp
qed

lemma draw_toolbar_rows:
  assumes w: "window_ok (window b)" and f: "holds_window (window b) f"
    and font: "font_fits E (14 * w_scale (window b))"
    and X: "0 \<le> X" "X < w_stride (window b)"
    and Y: "CONTENT_Y * w_scale (window b) \<le> Y \<or> Y < TABBAR * w_scale (window b)"
  shows "pix (draw_toolbar_fb E b f) (Y * w_stride (window b) + X) = pix f (Y * w_stride (window b) + X)"
proof -
  have s: "0 < w_scale (window b)" using window_okD [OF w] by blast
  have "draws_within (window b) TABBAR CONTENT_Y (draw_toolbar_fb E b)"
    by (rule draws_within_toolbar, rule w, simp_all add: layout_defs, erule font_fits_glyph [OF font])
      (use s in \<open>auto simp: layout_defs\<close>)
  from draws_within_rows [OF this f X] Y show ?thesis by blast
qed

text \<open>The web page's part of the window and the browser's own part are separate: drawing
  the tab strip and the toolbar changes no pixel of the content area, and drawing the toolbar
  changes no pixel of the tab strip, in a font whose glyphs stay near their line.\<close>

theorem chrome_leaves_content:
  assumes w: "window_ok (window b)" and f: "holds_window (window b) (fb b)"
    and font: "font_fits E (13 * w_scale (window b))" "font_fits E (14 * w_scale (window b))"
    and X: "0 \<le> X" "X < w_stride (window b)"
  shows "(CONTENT_Y * w_scale (window b) \<le> Y \<longrightarrow>
       pix (fb (draw_tabs E b)) (Y * w_stride (window b) + X) = pix (fb b) (Y * w_stride (window b) + X) \<and>
       pix (fb (draw_toolbar E b)) (Y * w_stride (window b) + X) = pix (fb b) (Y * w_stride (window b) + X)) \<and>
     (Y < TABBAR * w_scale (window b) \<longrightarrow>
       pix (fb (draw_toolbar E b)) (Y * w_stride (window b) + X) = pix (fb b) (Y * w_stride (window b) + X))"
  using draw_tabs_rows [OF w f font(1) X] draw_toolbar_rows [OF w f font(2) X]
  by (simp add: draw_tabs_def draw_toolbar_def)

theorem chrome_leaves_content_witness:
  "pix (fb (draw_tabs sample_engine (empty_browser sample_window))) (100 * 960 + 7) = 0xFFFFFF"
proof -
  have "window_ok sample_window" "holds_window sample_window (fb (empty_browser sample_window))"
    "font_fits sample_engine 13" "font_fits sample_engine 14"
    by (simp_all add: empty_browser_def sample_window_def window_ok_def holds_window_def layout_defs
      WINDOW_WIDTH_def WINDOW_HEIGHT_def font_fits_def sample_engine_def)
  then show ?thesis
    using chrome_leaves_content [of "empty_browser sample_window" sample_engine 7 100]
    by (simp add: empty_browser_def sample_window_def WINDOW_WIDTH_def layout_defs)
qed

end
