(* ===== verification/PeelDisplay.thy ===== *)
theory PeelDisplay
  imports PeelView
begin

text \<open>
  The display object of the WPE platform backend
  (\<open>userland/bin/orange-browser/peel-platform.c\<close>, lines 176 to 256) and the methods its classes
  give to WPE. \<open>g_object_new\<close> returns a new object, whose number is a parameter.
\<close>

type_synonym object = nat

record orange_display =
  d_surface :: orange_surface
  d_keymap :: "object option"

definition orange_display_new :: "orange_surface \<Rightarrow> orange_display" where
  "orange_display_new sf = \<lparr>d_surface = sf, d_keymap = None\<rparr>"

definition display_connect :: "orange_display \<Rightarrow> bool" where
  "display_connect d = True"

definition display_create_view :: "view \<Rightarrow> 'a platform_scheme \<Rightarrow> 'a platform_scheme" where
  "display_create_view created s = upd_view created (\<lambda>_. orange_view_init) s"

text \<open>The keymap is made on the first call and kept.\<close>

definition display_get_keymap :: "object \<Rightarrow> orange_display \<Rightarrow> object \<times> orange_display" where
  "display_get_keymap created d =
     (case d_keymap d of
        Some k \<Rightarrow> (k, d)
      | None \<Rightarrow> (created, d\<lparr>d_keymap := Some created\<rparr>))"

definition display_dispose :: "orange_display \<Rightarrow> object option \<times> orange_display" where
  "display_dispose d = (d_keymap d, d\<lparr>d_keymap := None\<rparr>)"

text \<open>A toplevel is made for the display, whatever number of views is asked for; constructing
  it tells WPE its size.\<close>

definition display_create_toplevel :: "nat \<Rightarrow> platform \<Rightarrow> platform" where
  "display_create_toplevel max_views s = toplevel_constructed s"

text \<open>The methods of the display, toplevel and keymap classes.\<close>

record display_class =
  connect_m :: "orange_display \<Rightarrow> bool"
  create_view_m :: "view \<Rightarrow> platform \<Rightarrow> platform"
  create_toplevel_m :: "nat \<Rightarrow> platform \<Rightarrow> platform"
  get_keymap_m :: "object \<Rightarrow> orange_display \<Rightarrow> object \<times> orange_display"
  get_egl_display_m :: "string + nat"
  get_drm_device_m :: "nat option"
  dispose_m :: "orange_display \<Rightarrow> object option \<times> orange_display"

definition orange_display_class_init :: display_class where
  "orange_display_class_init =
     \<lparr>connect_m = display_connect, create_view_m = display_create_view,
      create_toplevel_m = display_create_toplevel, get_keymap_m = display_get_keymap,
      get_egl_display_m = display_get_egl_display, get_drm_device_m = display_get_drm_device,
      dispose_m = display_dispose\<rparr>"

record toplevel_class =
  constructed_m :: "platform \<Rightarrow> platform"
  resize_m :: "int \<Rightarrow> int \<Rightarrow> bool"

definition orange_toplevel_class_init :: toplevel_class where
  "orange_toplevel_class_init = \<lparr>constructed_m = toplevel_constructed, resize_m = toplevel_resize\<rparr>"

record keymap_class =
  get_entries_for_keyval_m :: "int \<Rightarrow> keymap_entry list"
  translate_keyboard_state_m :: "nat \<Rightarrow> wpe_modifiers \<Rightarrow> translation option"
  get_modifiers_m :: wpe_modifiers

definition orange_keymap_class_init :: keymap_class where
  "orange_keymap_class_init =
     \<lparr>get_entries_for_keyval_m = keymap_entries_for_keyval, translate_keyboard_state_m = keymap_translate,
      get_modifiers_m = keymap_modifiers\<rparr>"

definition repeat_get_keymap :: "object list \<Rightarrow> orange_display \<Rightarrow> object list \<times> orange_display" where
  "repeat_get_keymap created d =
     fold (\<lambda>c (ks, d). let (k, d') = display_get_keymap c d in (ks @ [k], d')) created ([], d)"

lemma get_keymap_kept:
  "d_keymap d = Some k \<Longrightarrow>
    fold (\<lambda>c (ks, d). let (k, d') = display_get_keymap c d in (ks @ [k], d')) cs (ks0, d) =
      (ks0 @ replicate (length cs) k, d)"
  by (induction cs arbitrary: ks0) (simp_all add: display_get_keymap_def)

text \<open>A display has one keymap: however often WPE asks a new display for it, it gets the one
  object made for the first call, which disposing of the display drops; and the display never
  offers a GPU path (EGL is an error, there is no DRM device), so pages come as shared memory.\<close>

theorem display_has_one_keymap:
  "repeat_get_keymap (c # cs) (orange_display_new sf) =
     (replicate (Suc (length cs)) c, (orange_display_new sf)\<lparr>d_keymap := Some c\<rparr>) \<and>
   dispose_m orange_display_class_init (snd (repeat_get_keymap (c # cs) (orange_display_new sf))) =
     (Some c, orange_display_new sf) \<and>
   get_egl_display_m orange_display_class_init = Inl ''OrangeOS has no EGL'' \<and>
   get_drm_device_m orange_display_class_init = None"
proof -
  have "repeat_get_keymap (c # cs) (orange_display_new sf) =
     (replicate (Suc (length cs)) c, (orange_display_new sf)\<lparr>d_keymap := Some c\<rparr>)"
    using get_keymap_kept [of "(orange_display_new sf)\<lparr>d_keymap := Some c\<rparr>" c cs "[c]"]
    by (simp add: repeat_get_keymap_def display_get_keymap_def orange_display_new_def)
  then show ?thesis
    by (simp add: orange_display_class_init_def display_dispose_def display_get_egl_display_def
        display_get_drm_device_def orange_display_new_def)
qed

end
