(* ===== verification/Browser.thy ===== *)
theory Browser
  imports BrowserDraw PeelDisplay "HOL-Library.Sublist"
begin

unbundle bit_operations_syntax

text \<open>
  Tabs, the address field and input of Orange Browser
  (\<open>userland/bin/orange-browser/browser.c\<close>, lines 280 to 781), and the main loop that runs
  its callbacks one after another.

  The \<open>engine\<close> parameter stands for WebKit, WPE, FreeType and GLib. Every callback takes the
  browser's state to its next state; calls into the libraries are appended to the trace.
\<close>

section \<open>Tabs\<close>

text \<open>\<open>tab_of\<close>: \<open>None\<close> is the \<open>-1\<close> of the code.\<close>

definition tab_of :: "browser \<Rightarrow> webview \<Rightarrow> nat option" where
  "tab_of b w = find (\<lambda>i. t_web_view (tabs b ! i) = w) [0..<count b]"

definition uri_or_empty :: "engine \<Rightarrow> browser \<Rightarrow> string" where
  "uri_or_empty E b = (case get_uri E (trace b) (t_web_view (ACTIVE b)) of Some uri \<Rightarrow> uri | None \<Rightarrow> [])"

definition show_uri :: "engine \<Rightarrow> browser \<Rightarrow> browser" where
  "show_uri E b = b\<lparr>address := uri_or_empty E b\<rparr>"

definition log_tabs :: "engine \<Rightarrow> browser \<Rightarrow> browser" where
  "log_tabs E b =
     emit [Print (''orange-browser: tabs '' @ decimal (count b) @ '' active '' @ decimal (active b + 1) @
       '' '' @ uri_or_empty E b @ [CHR 0x0A])] b"

definition hide_tab :: "nat \<Rightarrow> browser \<Rightarrow> browser" where
  "hide_tab i b = emit [FocusOut (t_view (tabs b ! i))] (orange_view_set_active (t_view (tabs b ! i)) False b)"

definition activate :: "engine \<Rightarrow> nat \<Rightarrow> browser \<Rightarrow> browser" where
  "activate E index b =
     (let b1 = fold (\<lambda>i b. if i = index then b else hide_tab i b) [0..<count b] b;
          b2 = b1\<lparr>active := index, editing := False\<rparr>;
          b3 = orange_view_set_active (t_view (ACTIVE b2)) True b2;
          b4 = emit [FocusIn (t_view (ACTIVE b3))] b3
      in log_tabs E (draw_toolbar E (draw_tabs E (show_uri E b4))))"

text \<open>C strings: \<open>strstr\<close> as a test, and the address field's text as a URL.\<close>

fun strstr :: "string \<Rightarrow> string \<Rightarrow> bool" where
  "strstr [] needle = (needle = [])"
| "strstr (c # s) needle = (prefix needle (c # s) \<or> strstr s needle)"

definition address_to_url :: "string \<Rightarrow> string" where
  "address_to_url typed0 =
     (let typed = dropWhile (\<lambda>c. c = CHR '' '') typed0
      in if strstr typed ''://'' \<or> prefix ''about:'' typed \<or> prefix ''file:'' typed
         then typed else ''https://'' @ typed)"

section \<open>Signals of the web views\<close>

definition on_uri :: "engine \<Rightarrow> webview \<Rightarrow> browser \<Rightarrow> browser" where
  "on_uri E w b =
     (if tab_of b w \<noteq> Some (active b) then b
      else draw_toolbar E (if editing b then b else show_uri E b))"

definition on_title :: "engine \<Rightarrow> webview \<Rightarrow> browser \<Rightarrow> browser" where
  "on_title E w b =
     draw_tabs E (emit [Print (''orange-browser: title '' @ [CHR 0x22] @
       (case get_title E (trace b) w of Some title \<Rightarrow> title | None \<Rightarrow> []) @ [CHR 0x22, CHR 0x0A])] b)"

definition on_progress :: "engine \<Rightarrow> webview \<Rightarrow> browser \<Rightarrow> browser" where
  "on_progress E w b =
     (case tab_of b w of
        None \<Rightarrow> b
      | Some index \<Rightarrow>
          let b1 = b\<lparr>tabs := (tabs b)[index := (tabs b ! index)\<lparr>t_progress := get_progress E (trace b) w\<rparr>]\<rparr>
          in if index = active b1 then draw_toolbar E b1 else b1)"

text \<open>\<open>printf\<close> of a null \<open>%s\<close> (a finished load with no URI) prints \<open>(null)\<close> in the C
  library.\<close>

definition on_load :: "engine \<Rightarrow> webview \<Rightarrow> bool \<Rightarrow> browser \<Rightarrow> browser" where
  "on_load E w finished b =
     (if \<not> finished then b
      else
        let b1 = emit [Print (''orange-browser: loaded '' @
               (case get_uri E (trace b) w of Some uri \<Rightarrow> uri | None \<Rightarrow> ''(null)'') @ '' title='' @ [CHR 0x22] @
               (case get_title E (trace b) w of Some title \<Rightarrow> title | None \<Rightarrow> []) @ [CHR 0x22, CHR 0x0A])] b;
            b2 = draw_tabs E b1
        in if tab_of b2 w = Some (active b2) then draw_toolbar E b2 else b2)"

definition on_failed :: "string \<Rightarrow> string \<Rightarrow> browser \<Rightarrow> bool \<times> browser" where
  "on_failed uri message b =
     (False, emit [Print (''orange-browser: failed '' @ uri @ '': '' @ message @ [CHR 0x0A])] b)"

section \<open>Opening and closing tabs\<close>

definition tab_signals :: "string list" where
  "tab_signals = [''notify::uri'', ''notify::title'', ''notify::estimated-load-progress'',
     ''load-changed'', ''load-failed'', ''create'', ''close'']"

text \<open>The store to \<open>browser.tabs[browser.count++]\<close> is recorded when it leaves the array.\<close>

definition add_tab :: "engine \<Rightarrow> webview \<Rightarrow> browser \<Rightarrow> browser" where
  "add_tab E w b =
     (let t = \<lparr>t_web_view = w, t_view = get_wpe_view E (trace b) w, t_progress = 0\<rparr>;
          b1 = (if count b < length (tabs b) then b\<lparr>tabs := (tabs b)[count b := t]\<rparr> else b\<lparr>overrun := True\<rparr>)
      in emit (map (Connect w) tab_signals) (b1\<lparr>count := count b + 1\<rparr>))"

text \<open>\<open>g_object_new(WEBKIT_TYPE_WEB_VIEW, ...)\<close>: WebKit asks the display for a view, which
  \<open>orange_view_init\<close> leaves inactive.\<close>

definition web_view_new :: "engine \<Rightarrow> webview option \<Rightarrow> browser \<Rightarrow> webview \<times> browser" where
  "web_view_new E related b =
     (let w = new_web_view E (trace b); b1 = emit [NewWebView related w] b
      in (w, display_create_view (get_wpe_view E (trace b1) w) b1))"

definition open_tab :: "engine \<Rightarrow> string option \<Rightarrow> browser \<Rightarrow> webview option \<times> browser" where
  "open_tab E uri b =
     (if count b = MAX_TABS then (None, b)
      else
        let (w, b1) = web_view_new E None b;
            b2 = add_tab E w b1;
            b3 = activate E (count b2 - 1) b2
        in (Some w, case uri of Some u \<Rightarrow> emit [LoadUri w (address_to_url u)] b3 | None \<Rightarrow> b3))"

definition on_create :: "engine \<Rightarrow> webview \<Rightarrow> browser \<Rightarrow> webview option \<times> browser" where
  "on_create E opener b =
     (if count b = MAX_TABS then (None, b)
      else
        let (w, b1) = web_view_new E (Some opener) b;
            b2 = add_tab E w (emit [WebViewRef w] b1)
        in (Some w, activate E (count b2 - 1) b2))"

text \<open>\<open>memmove\<close> shifts the elements after \<open>index\<close> down; the rest of the array keeps its
  contents. With no such element in use (\<open>index >= count\<close>) its length would be negative.\<close>

definition shift_down :: "nat \<Rightarrow> nat \<Rightarrow> tab list \<Rightarrow> tab list" where
  "shift_down index n ts = take index ts @ drop (Suc index) (take n ts) @ drop (n - 1) ts"

definition close_tab :: "engine \<Rightarrow> nat \<Rightarrow> browser \<Rightarrow> browser" where
  "close_tab E index b =
     (if count b \<le> index then b\<lparr>overrun := True\<rparr>
      else
        let closing = tabs b ! index;
            b1 = b\<lparr>tabs := shift_down index (count b) (tabs b), count := count b - 1\<rparr>;
            b2 = emit [Disconnect (t_web_view closing)] b1;
            b3 = orange_view_set_active (t_view closing) False b2;
            b4 = emit [WebViewUnref (t_web_view closing)] b3
        in if count b4 = 0
           then emit [Print (''orange-browser: last tab closed'' @ [CHR 0x0A]), LoopQuit] (b4\<lparr>quit := True\<rparr>)
           else
             let next0 = active b4;
                 next1 = (if index < active b4 \<or> next0 \<ge> count b4 then next0 - 1 else next0)
             in activate E (min next1 (count b4 - 1)) b4)"

definition on_close :: "engine \<Rightarrow> webview \<Rightarrow> browser \<Rightarrow> browser" where
  "on_close E w b = (case tab_of b w of Some index \<Rightarrow> close_tab E index b | None \<Rightarrow> b)"

section \<open>The address field\<close>

definition navigate :: "engine \<Rightarrow> browser \<Rightarrow> browser" where
  "navigate E b =
     (let b1 = emit [LoadUri (t_web_view (ACTIVE b)) (address_to_url (address b))] b;
          b2 = emit [FocusIn (t_view (ACTIVE b))] (b1\<lparr>editing := False\<rparr>)
      in draw_toolbar E (show_uri E b2))"

definition edit_address :: "engine \<Rightarrow> bool \<Rightarrow> browser \<Rightarrow> browser" where
  "edit_address E clear b =
     (let b1 = b\<lparr>editing := True, replace := \<not> clear, address := (if clear then [] else address b)\<rparr>
      in draw_toolbar E (emit [FocusOut (t_view (ACTIVE b1))] b1))"

definition XK_Return :: int where "XK_Return = 0xff0d"
definition XK_KP_Enter :: int where "XK_KP_Enter = 0xff8d"
definition XK_Escape :: int where "XK_Escape = 0xff1b"
definition XK_BackSpace :: int where "XK_BackSpace = 0xff08"
definition XK_Tab :: int where "XK_Tab = 0xff09"
definition XK_ISO_Left_Tab :: int where "XK_ISO_Left_Tab = 0xfe20"

lemmas keysyms = XK_Return_def XK_KP_Enter_def XK_Escape_def XK_BackSpace_def XK_Tab_def XK_ISO_Left_Tab_def

definition printable :: "wpe_modifiers \<Rightarrow> int \<Rightarrow> bool" where
  "printable mods keyval \<longleftrightarrow>
     keyval \<ge> 0x20 \<and> keyval < 0x7f \<and> KEYBOARD_CONTROL \<notin> mods \<and> KEYBOARD_ALT \<notin> mods"

definition address_key :: "engine \<Rightarrow> int \<Rightarrow> browser \<Rightarrow> browser" where
  "address_key E keyval b =
     (if keyval = XK_Return \<or> keyval = XK_KP_Enter then navigate E b
      else
        let b1 =
          (if keyval = XK_Escape then
             let b0 = show_uri E (b\<lparr>editing := False\<rparr>) in emit [FocusIn (t_view (ACTIVE b0))] b0
           else if keyval = XK_BackSpace then b\<lparr>address := butlast (address b)\<rparr>
           else if printable (modifiers b) keyval then
             b\<lparr>address := (if replace b then [] else address b) @ [char_of (nat keyval)]\<rparr>
           else b)
        in draw_toolbar E (b1\<lparr>replace := False\<rparr>))"

section \<open>Keyboard\<close>

text \<open>The next tab of Ctrl+Tab and Ctrl+Shift+Tab.\<close>

definition cycle_step :: "int \<Rightarrow> browser \<Rightarrow> nat" where
  "cycle_step keyval b =
     (if KEYBOARD_SHIFT \<in> modifiers b \<or> keyval = XK_ISO_Left_Tab then count b - 1 else 1)"

text \<open>\<open>shortcut\<close>: whether the key was one, and the state after it.\<close>

definition shortcut :: "engine \<Rightarrow> int \<Rightarrow> browser \<Rightarrow> bool \<times> browser" where
  "shortcut E keyval b =
     (if KEYBOARD_CONTROL \<notin> modifiers b then (False, b)
      else if keyval = of_char (CHR ''l'') \<or> keyval = of_char (CHR ''L'') then (True, edit_address E True b)
      else if keyval = of_char (CHR ''t'') \<or> keyval = of_char (CHR ''T'') then
        (True, case open_tab E (Some START_PAGE) b of
                 (Some _, b1) \<Rightarrow> edit_address E True b1 | (None, b1) \<Rightarrow> b1)
      else if keyval = of_char (CHR ''w'') \<or> keyval = of_char (CHR ''W'') then
        (True, close_tab E (active b) b)
      else if keyval = XK_Tab \<or> keyval = XK_ISO_Left_Tab then
        (True, if count b > 1 then activate E ((active b + cycle_step keyval b) mod count b) b else b)
      else (False, b))"

definition key_pressed :: "peel_event \<Rightarrow> bool" where
  "key_pressed e \<longleftrightarrow> pe_value e AND 1 \<noteq> 0"

definition key_extended :: "peel_event \<Rightarrow> bool" where
  "key_extended e \<longleftrightarrow> pe_value e AND 2 \<noteq> 0"

definition track_modifiers :: "peel_event \<Rightarrow> wpe_modifiers \<Rightarrow> wpe_modifiers" where
  "track_modifiers e mods =
     (let pressed = key_pressed e; extended = key_extended e;
          modifier = orange_key_modifier (unat (pe_code e)) extended
      in if modifier \<noteq> {} then (if pressed then mods \<union> modifier else mods - modifier)
         else if pe_code e = 0x3A \<and> \<not> extended \<and> pressed
         then (if KEYBOARD_CAPS_LOCK \<in> mods then mods - {KEYBOARD_CAPS_LOCK} else insert KEYBOARD_CAPS_LOCK mods)
         else mods)"

definition handle_key :: "engine \<Rightarrow> peel_event \<Rightarrow> browser \<Rightarrow> browser" where
  "handle_key E e b =
     (let pressed = key_pressed e; extended = key_extended e;
          modifier = orange_key_modifier (unat (pe_code e)) extended;
          b1 = b\<lparr>modifiers := track_modifiers e (modifiers b)\<rparr>
      in case orange_key_translate (unat (pe_code e)) extended (modifiers b1) of
           None \<Rightarrow> b1
         | Some (keycode, keyval) \<Rightarrow>
             let (handled, b2) = (if pressed \<and> modifier = {} then shortcut E keyval b1 else (False, b1))
             in if handled then b2
                else if editing b2 then (if pressed \<and> modifier = {} then address_key E keyval b2 else b2)
                else emit [ViewEvent (t_view (ACTIVE b2)) (Keyboard pressed (modifiers b2) keycode keyval)] b2)"

section \<open>Mouse and wheel\<close>

definition on_tab :: "browser \<Rightarrow> int \<Rightarrow> nat \<Rightarrow> bool" where
  "on_tab b x i \<longleftrightarrow> \<not> (x < tab_x b (int i) \<or> x \<ge> tab_x b (int i) + tab_width b - 4)"

definition tabbar_click :: "engine \<Rightarrow> int \<Rightarrow> int \<Rightarrow> browser \<Rightarrow> browser" where
  "tabbar_click E x y b =
     (case find (on_tab b x) [0..<count b] of
        Some i \<Rightarrow>
          if x \<ge> tab_x b (int i) + tab_width b - 4 - 26 then close_tab E i b
          else if i \<noteq> active b then activate E i b else b
      | None \<Rightarrow>
          if count b < MAX_TABS \<and> x \<ge> plus_x b \<and> x < plus_x b + 28
          then (case open_tab E (Some START_PAGE) b of
                  (Some _, b1) \<Rightarrow> edit_address E True b1 | (None, b1) \<Rightarrow> b1)
          else b)"

definition on_button :: "int \<Rightarrow> button \<Rightarrow> bool" where
  "on_button x button \<longleftrightarrow> \<not> (x < button_x (button_index button) \<or> x \<ge> button_x (button_index button) + 32)"

definition toolbar_click :: "engine \<Rightarrow> int \<Rightarrow> int \<Rightarrow> browser \<Rightarrow> browser" where
  "toolbar_click E x y b =
     (let w = t_web_view (ACTIVE b) in
      case find (on_button x) [BUTTON_BACK, BUTTON_FORWARD, BUTTON_RELOAD] of
        Some BUTTON_BACK \<Rightarrow> emit [GoBack w] b
      | Some BUTTON_FORWARD \<Rightarrow> emit [GoForward w] b
      | Some BUTTON_RELOAD \<Rightarrow> emit [Reload w] b
      | None \<Rightarrow> if x \<ge> field_x then edit_address E False b else b)"

definition mouse_buttons :: "(u32 \<times> nat \<times> wpe_modifier) list" where
  "mouse_buttons = [(1, 1, POINTER_BUTTON1), (4, 2, POINTER_BUTTON2), (2, 3, POINTER_BUTTON3)]"

definition held_modifiers :: "u32 \<Rightarrow> wpe_modifiers \<Rightarrow> wpe_modifiers" where
  "held_modifiers code mods =
     fold (\<lambda>(mask, _, modifier) mods. if code AND mask \<noteq> 0 then insert modifier mods else mods) mouse_buttons mods"

definition button_events :: "view \<Rightarrow> u32 \<Rightarrow> u32 \<Rightarrow> wpe_modifiers \<Rightarrow> int \<Rightarrow> int \<Rightarrow> call list" where
  "button_events v changed code mods x y =
     concat (map (\<lambda>(mask, button, _).
       if changed AND mask = 0 then []
       else [ViewEvent v (PointerButton (code AND mask \<noteq> 0) mods button x y)]) mouse_buttons)"

definition handle_mouse :: "engine \<Rightarrow> peel_event \<Rightarrow> browser \<Rightarrow> browser" where
  "handle_mouse E e b0 =
     (let changed = pe_code e XOR buttons b0; pressed = changed AND pe_code e;
          b = b0\<lparr>buttons := pe_code e\<rparr>
      in if pe_y e < TABBAR then (if pressed AND 1 \<noteq> 0 then tabbar_click E (pe_x e) (pe_y e) b else b)
         else if pe_y e < CONTENT_Y then (if pressed AND 1 \<noteq> 0 then toolbar_click E (pe_x e) (pe_y e) b else b)
         else
           let v = t_view (ACTIVE b); x = pe_x e; y = pe_y e - CONTENT_Y;
               mods = held_modifiers (pe_code e) (modifiers b);
               b1 = (if pressed \<noteq> 0 \<and> editing b then draw_toolbar E (show_uri E (b\<lparr>editing := False\<rparr>)) else b);
               b2 = (if pressed \<noteq> 0 then emit [FocusIn v] b1 else b1)
           in emit (ViewEvent v (PointerMove mods x y) # button_events v changed (pe_code e) mods x y) b2)"

definition handle_wheel :: "peel_event \<Rightarrow> browser \<Rightarrow> browser" where
  "handle_wheel e b =
     (if pe_y e < CONTENT_Y then b
      else
        let steps = sint (ucast (pe_code e) :: 8 word)
        in emit [ViewEvent (t_view (ACTIVE b)) (Scroll (modifiers b) 0 (- steps) (pe_x e) (pe_y e - CONTENT_Y))] b)"

section \<open>The main loop\<close>

definition dispatch :: "engine \<Rightarrow> peel_event \<Rightarrow> browser \<Rightarrow> browser" where
  "dispatch E e b =
     (if pe_kind e = 1 then handle_key E e b
      else if pe_kind e = 2 then handle_mouse E e b
      else if pe_kind e = 4 then handle_wheel e b
      else if pe_kind e = 3 then emit [LoopQuit] (b\<lparr>quit := True\<rparr>)
      else b)"

text \<open>What the main loop can run: an event the input thread queued, a signal of a web view, a
  frame for a view, or the oldest idle source.\<close>

datatype source = Incoming incoming | Frame view shm_buffer

fun handle_incoming :: "engine \<Rightarrow> incoming \<Rightarrow> browser \<Rightarrow> browser" where
  "handle_incoming E (InPeel e) b = dispatch E e b"
| "handle_incoming E (InUri w) b = on_uri E w b"
| "handle_incoming E (InTitle w) b = on_title E w b"
| "handle_incoming E (InProgress w) b = on_progress E w b"
| "handle_incoming E (InLoad w finished) b = on_load E w finished b"
| "handle_incoming E (InFailed uri message) b = snd (on_failed uri message b)"
| "handle_incoming E (InCreate w) b = snd (on_create E w b)"
| "handle_incoming E (InClose w) b = on_close E w b"
| "handle_incoming E (InRender v) b = b"
| "handle_incoming E InIdle b = run_idle b"

fun run_source :: "engine \<Rightarrow> source \<Rightarrow> browser \<Rightarrow> browser" where
  "run_source E (Incoming i) b = handle_incoming E i (emit [Received i] b)"
| "run_source E (Frame v buf) b =
     (let b1 = emit [Received (InRender v)] b
      in case view_render_buffer v buf b1 of Inr b2 \<Rightarrow> b2 | Inl _ \<Rightarrow> b1)"

text \<open>One iteration of the main loop runs all the sources that are ready; whether the loop goes
  on is decided between iterations (\<open>g_main_loop_run\<close>).\<close>

fun main_loop :: "engine \<Rightarrow> source list list \<Rightarrow> browser \<Rightarrow> browser" where
  "main_loop E [] b = b"
| "main_loop E (ready # rest) b =
     (if quit b then b else main_loop E rest (fold (run_source E) ready b))"

text \<open>The input thread queues an event for each call of \<open>orange_peel_next_event\<close> that returns
  1, and ends at the first that does not.\<close>

fun input_thread :: "(int \<times> peel_event) list \<Rightarrow> peel_event list" where
  "input_thread [] = []"
| "input_thread ((result, e) # responses) = (if result \<noteq> 1 then [] else e # input_thread responses)"

section \<open>The main program\<close>

text \<open>What \<open>main\<close> finds: the answers of \<open>access\<close>, \<open>g_mkdir_with_parents\<close>,
  \<open>orange_peel_open\<close> (the window and its buffer), FreeType, \<open>wpe_display_connect\<close> (an error
  message), and the test certificate.\<close>

record host =
  data_writable :: bool
  saved_profile_made :: bool
  peel_window :: "(peel_info \<times> framebuffer) option"
  freetype_ok :: bool
  display_error :: "string option"
  console_flag :: bool
  user_agent :: string
  test_certificate :: bool

definition data_dir :: "host \<Rightarrow> string" where
  "data_dir H = (if data_writable H \<and> saved_profile_made H then SAVED_PROFILE else PROFILE @ ''/data'')"

definition main_environment :: "host \<Rightarrow> call list" where
  "main_environment H =
     [Setenv ''WEBKIT_SKIA_ENABLE_CPU_RENDERING'' ''1'' True] @
     (if data_writable H then [MkdirParents SAVED_PROFILE] else []) @
     [Setenv ''HOME'' PROFILE True,
      Setenv ''XDG_CACHE_HOME'' (PROFILE @ ''/cache'') True,
      Setenv ''XDG_DATA_HOME'' (data_dir H) True,
      Setenv ''XDG_RUNTIME_DIR'' (PROFILE @ ''/run'') True,
      MkdirParents (PROFILE @ ''/run''),
      Setenv ''WPE_SHELL_MEDIA_DISK_CACHE_PATH'' (PROFILE @ ''/media'') True,
      MkdirParents (PROFILE @ ''/media''),
      Print (''orange-browser: website data in '' @ data_dir H @ [CHR 0x0A])]"

definition main_settings :: "host \<Rightarrow> call list" where
  "main_settings H =
     [SetPrimary, SettingsWebGL False] @
     (if console_flag H then [SettingsConsole True, Setenv ''GST_DEBUG'' ''3'' False] else []) @
     [Print (''orange-browser: user agent '' @ [CHR 0x22] @ user_agent H @ [CHR 0x22, CHR 0x0A]),
      NetworkSession (data_dir H) (PROFILE @ ''/cache''),
      CookieStorage (data_dir H @ ''/cookies.sqlite'')] @
     (if test_certificate H
      then [AllowCertificate ''10.0.2.2'',
            Print (''orange-browser: test certificate allowed for 10.0.2.2'' @ [CHR 0x0A])] else [])"

text \<open>The state when the main loop starts, or the trace of a start that failed.\<close>

definition main_start :: "host \<Rightarrow> engine \<Rightarrow> string list \<Rightarrow> history + browser" where
  "main_start H E argv =
     (let tr = main_environment H @ [PeelOpen ''Orange Browser'' WINDOW_WIDTH WINDOW_HEIGHT] in
      case peel_window H of
        None \<Rightarrow> Inl (tr @ [PrintError (''orange-browser: no display'' @ [CHR 0x0A])])
      | Some (w, f) \<Rightarrow>
          if \<not> freetype_ok H
          then Inl (tr @ [PrintError (''orange-browser: cannot load '' @ FONT @ [CHR 0x0A])])
          else
            let b0 = (empty_browser w)\<lparr>fb := fill w 0 0 (w_width w) (w_height w) 0xFFFFFF f, trace := tr\<rparr>;
                b1 = emit [PeelCommit 0 0 (w_width w) (w_height w), DisplayConnect] b0
            in case display_error H of
                 Some message \<Rightarrow> Inl (trace b1 @ [PrintError (''orange-browser: display: '' @ message @ [CHR 0x0A])])
               | None \<Rightarrow>
                   let first = (if 1 < length argv then argv ! 1 else START_PAGE);
                       b2 = snd (open_tab E (Some first) (emit (main_settings H) b1))
                   in Inr (emit [StartInputThread] (draw_toolbar E (b2\<lparr>address := first\<rparr>))))"

definition main :: "host \<Rightarrow> engine \<Rightarrow> string list \<Rightarrow> source list list \<Rightarrow> int \<times> history" where
  "main H E argv iterations =
     (case main_start H E argv of
        Inl tr \<Rightarrow> (1, tr)
      | Inr b \<Rightarrow> (0, trace (main_loop E iterations b) @ [PeelClose]))"

end
