(* ===== verification/BrowserInv.thy ===== *)
theory BrowserInv
  imports Browser
begin

text \<open>
  The invariant of Orange Browser and that every callback keeps it: the tab array is never
  overrun, exactly the active tab's view is active, all drawing stays inside the window's
  buffer, and the content area shows the active tab's last frame.
\<close>

section \<open>The state invariant\<close>

text \<open>Documented behaviour of the libraries: a new web view is one that was not created before,
  and each web view keeps a view of its own.\<close>

definition engine_ok :: "engine \<Rightarrow> bool" where
  "engine_ok E \<longleftrightarrow>
     (\<forall>h r. NewWebView r (new_web_view E h) \<notin> set h) \<and>
     (\<forall>h h' w. get_wpe_view E h w = get_wpe_view E h' w) \<and>
     (\<forall>h. inj (get_wpe_view E h))"

definition content_surface :: "peel_info \<Rightarrow> orange_surface" where
  "content_surface w = \<lparr>sf_stride = w_stride w, sf_scale = w_scale w, sf_x = 0, sf_y = CONTENT_Y,
     sf_width = w_width w, sf_height = w_height w - CONTENT_Y\<rparr>"

definition display_ok :: "browser \<Rightarrow> bool" where
  "display_ok b \<longleftrightarrow> window_ok (window b) \<and> surface b = content_surface (window b) \<and>
     holds_window (window b) (fb b) \<and> \<not> fault (fb b) \<and> (\<forall>v. view_ok (views b v))"

definition tabs_ok :: "engine \<Rightarrow> browser \<Rightarrow> bool" where
  "tabs_ok E b \<longleftrightarrow> length (tabs b) = MAX_TABS \<and> count b \<le> MAX_TABS \<and> \<not> overrun b \<and>
     distinct (map t_web_view (take (count b) (tabs b))) \<and>
     (\<forall>t \<in> set (take (count b) (tabs b)). (\<exists>r. NewWebView r (t_web_view t) \<in> set (trace b)) \<and>
        t_view t = get_wpe_view E [] (t_web_view t))"

definition open_views :: "browser \<Rightarrow> view set" where
  "open_views b = t_view ` set (take (count b) (tabs b))"

text \<open>Exactly the active tab's view is active.\<close>

definition shown_ok :: "browser \<Rightarrow> bool" where
  "shown_ok b \<longleftrightarrow> active b < count b \<and> (\<forall>v. v_active (views b v) \<longleftrightarrow> v = t_view (ACTIVE b))"

definition browser_ok :: "engine \<Rightarrow> browser \<Rightarrow> bool" where
  "browser_ok E b \<longleftrightarrow> display_ok b \<and> tabs_ok E b \<and> shown_ok b"

text \<open>The content area of the window shows the active tab's last frame.\<close>

definition content_ok :: "browser \<Rightarrow> bool" where
  "content_ok b \<longleftrightarrow> (\<forall>X Y. in_content (surface b) X Y \<longrightarrow>
     pix (fb b) (Y * w_stride (window b) + X) =
       view_pixel (views b (t_view (ACTIVE b))) X (Y - CONTENT_Y * w_scale (window b)))"

definition fonts_ok :: "engine \<Rightarrow> browser \<Rightarrow> bool" where
  "fonts_ok E b \<longleftrightarrow> font_fits E (13 * w_scale (window b)) \<and> font_fits E (14 * w_scale (window b))"

section \<open>Operations that leave the tabs alone\<close>

text \<open>A quiet operation changes neither tabs nor views, and draws only outside the content
  area.\<close>

definition same_content :: "browser \<Rightarrow> browser \<Rightarrow> bool" where
  "same_content b b' \<longleftrightarrow> (\<forall>X Y. in_content (surface b) X Y \<longrightarrow>
     pix (fb b') (Y * w_stride (window b) + X) = pix (fb b) (Y * w_stride (window b) + X))"

definition quiet :: "engine \<Rightarrow> browser \<Rightarrow> browser \<Rightarrow> bool" where
  "quiet E b b' \<longleftrightarrow>
     tabs b' = tabs b \<and> count b' = count b \<and> active b' = active b \<and> views b' = views b \<and>
     window b' = window b \<and> surface b' = surface b \<and> overrun b' = overrun b \<and> idles b' = idles b \<and>
     set (trace b) \<subseteq> set (trace b') \<and>
     (display_ok b \<longrightarrow> size_px (fb b') = size_px (fb b) \<and> fault (fb b') = fault (fb b) \<and>
        (fonts_ok E b \<longrightarrow> same_content b b'))"

lemma quiet_refl [simp]: "quiet E b b"
  by (simp add: quiet_def same_content_def)

lemma quiet_display_ok: "quiet E b b' \<Longrightarrow> display_ok b \<Longrightarrow> display_ok b'"
  by (auto simp: quiet_def display_ok_def holds_window_def)

lemma quiet_trans:
  assumes "quiet E b b'" "quiet E b' b''"
  shows "quiet E b b''"
proof -
  have "same_content b b''" if "display_ok b" "fonts_ok E b"
    using assms quiet_display_ok [OF assms(1) that(1)] that
    by (auto simp: quiet_def same_content_def fonts_ok_def)
  then show ?thesis
    using assms quiet_display_ok [OF assms(1)] by (auto simp: quiet_def)
qed

text \<open>Updates of the address field, the modifiers, the buttons, the quit flag and the trace.\<close>

lemma quiet_update [simp]:
  "quiet E b (b\<lparr>address := a\<rparr>)" "quiet E b (b\<lparr>editing := e\<rparr>)" "quiet E b (b\<lparr>replace := r\<rparr>)"
  "quiet E b (b\<lparr>modifiers := m\<rparr>)" "quiet E b (b\<lparr>buttons := u\<rparr>)" "quiet E b (b\<lparr>quit := q\<rparr>)"
  "quiet E b (b\<lparr>trace := trace b @ cs\<rparr>)"
  by (auto simp: quiet_def same_content_def)

lemma quiet_tabs_ok: "quiet E b b' \<Longrightarrow> tabs_ok E b \<Longrightarrow> tabs_ok E b'"
  unfolding quiet_def tabs_ok_def by (metis subsetD)

lemma quiet_shown_ok: "quiet E b b' \<Longrightarrow> shown_ok b' = shown_ok b"
  by (simp add: quiet_def shown_ok_def)

lemma quiet_browser_ok: "quiet E b b' \<Longrightarrow> browser_ok E b \<Longrightarrow> browser_ok E b'"
  by (simp add: browser_ok_def quiet_display_ok quiet_tabs_ok quiet_shown_ok)

lemma quiet_content_ok:
  "quiet E b b' \<Longrightarrow> display_ok b \<Longrightarrow> fonts_ok E b \<Longrightarrow> content_ok b \<Longrightarrow> content_ok b'"
  by (auto simp: quiet_def content_ok_def same_content_def)

lemma content_rows:
  assumes "display_ok b" "in_content (surface b) X Y"
  shows "0 \<le> X" "X < w_stride (window b)" "CONTENT_Y * w_scale (window b) \<le> Y"
proof -
  note W = window_okD [of "window b"]
  show "0 \<le> X" "X < w_stride (window b)" "CONTENT_Y * w_scale (window b) \<le> Y"
    using assms W by (auto simp: display_ok_def content_surface_def in_content_def)
qed

lemma quiet_draw_tabs [simp]: "quiet E b (draw_tabs E b)"
proof -
  have "size_px (draw_tabs_fb E b (fb b)) = size_px (fb b)" "fault (draw_tabs_fb E b (fb b)) = fault (fb b)"
    if "display_ok b"
    using that draw_tabs_safe [of b] by (auto simp: display_ok_def)
  moreover have "same_content b (draw_tabs E b)" if "display_ok b" "fonts_ok E b"
    unfolding same_content_def
  proof (intro allI impI)
    fix X Y assume "in_content (surface b) X Y"
    with content_rows [OF that(1)] draw_tabs_rows [of b "fb b" E X Y] that
    show "pix (fb (draw_tabs E b)) (Y * w_stride (window b) + X) = pix (fb b) (Y * w_stride (window b) + X)"
      by (auto simp: display_ok_def fonts_ok_def draw_tabs_def)
  qed
  ultimately show ?thesis
    by (auto simp: quiet_def draw_tabs_def)
qed

lemma quiet_draw_toolbar [simp]: "quiet E b (draw_toolbar E b)"
proof -
  have "size_px (draw_toolbar_fb E b (fb b)) = size_px (fb b)" "fault (draw_toolbar_fb E b (fb b)) = fault (fb b)"
    if "display_ok b"
    using that draw_toolbar_safe [of b] by (auto simp: display_ok_def)
  moreover have "same_content b (draw_toolbar E b)" if "display_ok b" "fonts_ok E b"
    unfolding same_content_def
  proof (intro allI impI)
    fix X Y assume "in_content (surface b) X Y"
    with content_rows [OF that(1)] draw_toolbar_rows [of b "fb b" E X Y] that
    show "pix (fb (draw_toolbar E b)) (Y * w_stride (window b) + X) = pix (fb b) (Y * w_stride (window b) + X)"
      by (auto simp: display_ok_def fonts_ok_def draw_toolbar_def)
  qed
  ultimately show ?thesis
    by (auto simp: quiet_def draw_toolbar_def)
qed


lemma quiet_show_uri [simp]: "quiet E b (show_uri E b)"
  by (simp add: show_uri_def)

lemma quiet_log_tabs [simp]: "quiet E b (log_tabs E b)"
  by (simp add: log_tabs_def)

lemmas quiet_draw = quiet_trans [OF _ quiet_draw_toolbar] quiet_trans [OF _ quiet_draw_tabs]

lemma quiet_edit_address [simp]: "quiet E b (edit_address E clear b)"
  unfolding edit_address_def Let_def
  by (rule quiet_draw(1)) (auto simp: quiet_def same_content_def)

lemma quiet_navigate [simp]: "quiet E b (navigate E b)"
  unfolding navigate_def Let_def
  by (rule quiet_draw(1), rule quiet_trans [OF _ quiet_show_uri]) (auto simp: quiet_def same_content_def)

lemma quiet_address_key [simp]: "quiet E b (address_key E keyval b)"
proof -
  have "quiet E b (show_uri E (b\<lparr>editing := False\<rparr>))"
    by (rule quiet_trans [OF _ quiet_show_uri]) simp
  then have esc: "quiet E b (let b0 = show_uri E (b\<lparr>editing := False\<rparr>) in emit [FocusIn (t_view (ACTIVE b0))] b0)"
    unfolding Let_def by (rule quiet_trans) simp
  show ?thesis
    unfolding address_key_def
    by (auto simp: Let_def intro!: quiet_draw(1) quiet_trans [OF _ quiet_update(3)] esc [unfolded Let_def])
qed

lemma quiet_toolbar_click [simp]: "quiet E b (toolbar_click E x y b)"
  by (simp add: toolbar_click_def Let_def split: option.split button.split)

lemma quiet_handle_wheel [simp]: "quiet E b (handle_wheel e b)"
  by (simp add: handle_wheel_def Let_def)

lemma quiet_on_uri [simp]: "quiet E b (on_uri E w b)"
  by (simp add: on_uri_def quiet_draw(1))

lemma quiet_on_title [simp]: "quiet E b (on_title E w b)"
  by (simp add: on_title_def quiet_draw(2))

lemma quiet_on_load [simp]: "quiet E b (on_load E w finished b)"
  by (simp add: on_load_def Let_def quiet_draw)

lemma quiet_on_failed [simp]: "quiet E b (snd (on_failed uri message b))"
  by (simp add: on_failed_def)

section \<open>Switching tabs\<close>

lemma surface_ok_display:
  assumes d: "display_ok b"
  shows "surface_ok b"
proof -
  let ?w = "window b"
  have wk: "window_ok ?w" and sf: "surface b = content_surface ?w"
    and h: "w_height ?w * w_scale ?w * w_stride ?w \<le> size_px (fb b)"
    using d by (simp_all add: display_ok_def holds_window_def)
  note W = window_okD [OF wk]
  have c: "0 \<le> CONTENT_Y" "0 \<le> w_height ?w - CONTENT_Y" "0 \<le> w_width ?w"
    using W(3,4) by (simp_all add: layout_defs)
  have e: "CONTENT_Y + (w_height ?w - CONTENT_Y) = w_height ?w" "0 + w_width ?w = w_width ?w"
    by simp_all
  show ?thesis
    unfolding surface_ok_def Let_def sf content_surface_def orange_surface.simps e
    using W(1,2,5) c h by (intro conjI order_refl)
qed

text \<open>Setting a view inactive changes that flag and the trace.\<close>

lemma set_inactive:
  "orange_view_set_active v False b =
     b\<lparr>views := (views b)(v := (views b v)\<lparr>v_active := False\<rparr>), trace := trace b @ [SetVisible v False]\<rparr>"
  by (simp add: orange_view_set_active_def Let_def)

lemma hide_tab_eq:
  "hide_tab i b = b\<lparr>views := (views b)(t_view (tabs b ! i) := (views b (t_view (tabs b ! i)))\<lparr>v_active := False\<rparr>),
     trace := trace b @ [SetVisible (t_view (tabs b ! i)) False, FocusOut (t_view (tabs b ! i))]\<rparr>"
  by (simp add: hide_tab_def set_inactive)

lemma hide_tab_simps [simp]:
  "tabs (hide_tab i b) = tabs b"
  "trace (hide_tab i b) = trace b @ [SetVisible (t_view (tabs b ! i)) False, FocusOut (t_view (tabs b ! i))]"
  "(hide_tab i b)\<lparr>views := V, trace := T\<rparr> = b\<lparr>views := V, trace := T\<rparr>"
  by (simp_all add: hide_tab_eq)

text \<open>The loop of \<open>activate\<close>: every other open tab's view is hidden, nothing else changes.\<close>

lemma hide_others_eq:
  fixes b :: browser
  shows "\<exists>cs. fold (\<lambda>i b. if i = index then b else hide_tab i b) is b =
    b\<lparr>views := (\<lambda>v. if \<exists>i \<in> set is. i \<noteq> index \<and> v = t_view (tabs b ! i)
                       then (views b v)\<lparr>v_active := False\<rparr> else views b v),
      trace := trace b @ cs\<rparr>"
proof (induction "is" arbitrary: b)
  case Nil
  have "b = b\<lparr>views := views b, trace := trace b @ []\<rparr>" by simp
  then show ?case by (auto intro: exI [of _ "[]"])
next
  case (Cons i "is")
  let ?b = "if i = index then b else hide_tab i b"
  obtain cs where cs: "fold (\<lambda>i b. if i = index then b else hide_tab i b) is ?b =
    ?b\<lparr>views := (\<lambda>v. if \<exists>i \<in> set is. i \<noteq> index \<and> v = t_view (tabs ?b ! i)
                       then (views ?b v)\<lparr>v_active := False\<rparr> else views ?b v),
      trace := trace ?b @ cs\<rparr>"
    using Cons by blast
  let ?cs = "(if i = index then [] else [SetVisible (t_view (tabs b ! i)) False, FocusOut (t_view (tabs b ! i))]) @ cs"
  show ?case
  proof (cases "i = index")
    case False
    have "(\<lambda>v. if \<exists>i \<in> set is. i \<noteq> index \<and> v = t_view (tabs b ! i)
          then (views (hide_tab i b) v)\<lparr>v_active := False\<rparr> else views (hide_tab i b) v) =
        (\<lambda>v. if \<exists>j \<in> set (i # is). j \<noteq> index \<and> v = t_view (tabs b ! j)
          then (views b v)\<lparr>v_active := False\<rparr> else views b v)"
      using False by (auto simp: hide_tab_eq fun_eq_iff)
    with False cs show ?thesis
      by (intro exI [of _ ?cs]) simp
  qed (use cs in auto)
qed


lemma tab_mem: "tabs_ok E b \<Longrightarrow> i < count b \<Longrightarrow> tabs b ! i \<in> set (take (count b) (tabs b))"
  by (auto simp: tabs_ok_def in_set_conv_nth)

lemma tab_views_inj:
  assumes "engine_ok E" "tabs_ok E b" "i < count b" "j < count b" "t_view (tabs b ! i) = t_view (tabs b ! j)"
  shows "i = j"
proof -
  have "t_web_view (tabs b ! i) = t_web_view (tabs b ! j)"
    using assms tab_mem [of E b i] tab_mem [of E b j]
    by (auto simp: engine_ok_def tabs_ok_def inj_def)
  moreover have "distinct (map t_web_view (take (count b) (tabs b)))" "count b \<le> length (tabs b)"
    using assms(2) by (auto simp: tabs_ok_def)
  ultimately show ?thesis
    using assms(3,4) by (auto simp: distinct_conv_nth)
qed

lemma open_views_nth:
  "tabs_ok E b \<Longrightarrow> open_views b = {t_view (tabs b ! i) | i. i < count b}"
proof -
  assume "tabs_ok E b"
  then have "count b \<le> length (tabs b)" by (simp add: tabs_ok_def)
  then have "take (count b) (tabs b) = map ((!) (tabs b)) [0..<count b]"
    by (intro nth_equalityI) auto
  then show ?thesis by (auto simp: open_views_def)
qed

definition switch_to :: "nat \<Rightarrow> browser \<Rightarrow> browser" where
  "switch_to index b =
     (let b1 = fold (\<lambda>i b. if i = index then b else hide_tab i b) [0..<count b] b;
          b2 = b1\<lparr>active := index, editing := False\<rparr>
      in orange_view_set_active (t_view (ACTIVE b2)) True b2)"

lemma activate_switch: "quiet E (switch_to index b) (activate E index b)"
  unfolding activate_def Let_def switch_to_def
  by (rule quiet_trans [OF _ quiet_log_tabs], rule quiet_draw(1), rule quiet_draw(2),
      rule quiet_trans [OF _ quiet_show_uri]) simp

lemma set_active_eq:
  fixes b :: browser
  shows "orange_view_set_active v True b =
    view_show_frame v (b\<lparr>views := (views b)(v := (views b v)\<lparr>v_active := True\<rparr>),
      trace := trace b @ [SetVisible v True]\<rparr>)"
  by (simp add: orange_view_set_active_def Let_def)

lemma view_show_frame_browser [simp]:
  fixes b :: browser
  shows "tabs (view_show_frame v b) = tabs b" "count (view_show_frame v b) = count b"
    "active (view_show_frame v b) = active b" "window (view_show_frame v b) = window b"
    "overrun (view_show_frame v b) = overrun b" "quit (view_show_frame v b) = quit b"
    "editing (view_show_frame v b) = editing b" "address (view_show_frame v b) = address b"
    "modifiers (view_show_frame v b) = modifiers b" "buttons (view_show_frame v b) = buttons b"
    "replace (view_show_frame v b) = replace b"
  by (simp_all add: view_show_frame_def Let_def)

lemma show_frame_display:
  assumes d: "display_ok b"
  shows "display_ok (view_show_frame v b)"
    and "in_content (surface b) X Y \<Longrightarrow> pix (fb (view_show_frame v b)) (Y * w_stride (window b) + X) =
      view_pixel (views b v) X (Y - CONTENT_Y * w_scale (window b))"
proof -
  have s: "surface_ok b" "view_ok (views b v)" and sf: "surface b = content_surface (window b)"
    using d surface_ok_display by (auto simp: display_ok_def)
  have st: "0 < w_stride (window b)" using d window_okD by (auto simp: display_ok_def)
  note c = view_show_frame_correct [OF s]
  have "size_px (fb (view_show_frame v b)) = size_px (fb b)" "fault (fb (view_show_frame v b)) = fault (fb b)"
    using c(1,2) [of 0] st sf by (simp_all add: content_surface_def)
  then show "display_ok (view_show_frame v b)"
    using d by (simp add: display_ok_def holds_window_def)
  assume "in_content (surface b) X Y"
  then show "pix (fb (view_show_frame v b)) (Y * w_stride (window b) + X) =
      view_pixel (views b v) X (Y - CONTENT_Y * w_scale (window b))"
    using c(3) [of X Y] content_rows [OF d, of X Y] sf by (simp add: content_surface_def)
qed

text \<open>The state of a switch: the views' flags, and what the window shows.\<close>

lemma switch_to_ok:
  assumes e: "engine_ok E" and d: "display_ok b" and t: "tabs_ok E b" and i: "index < count b"
    and a: "\<forall>v. v_active (views b v) \<longrightarrow> v \<in> open_views b"
  shows "browser_ok E (switch_to index b)" "content_ok (switch_to index b)"
    "tabs (switch_to index b) = tabs b" "count (switch_to index b) = count b"
    "active (switch_to index b) = index" "window (switch_to index b) = window b"
    "quit (switch_to index b) = quit b" "address (switch_to index b) = address b"
    "modifiers (switch_to index b) = modifiers b" "\<not> editing (switch_to index b)"
    "\<exists>cs. trace (switch_to index b) = trace b @ cs"
proof -
  let ?v = "t_view (tabs b ! index)"
  define V where "V = (\<lambda>v. if \<exists>i \<in> set [0..<count b]. i \<noteq> index \<and> v = t_view (tabs b ! i)
     then (views b v)\<lparr>v_active := False\<rparr> else views b v)"
  obtain cs where cs: "fold (\<lambda>i b. if i = index then b else hide_tab i b) [0..<count b] b =
      b\<lparr>views := V, trace := trace b @ cs\<rparr>"
    unfolding V_def using hide_others_eq by blast
  define b3 where "b3 = b\<lparr>active := index, editing := False, views := V(?v := (V ?v)\<lparr>v_active := True\<rparr>),
     trace := trace b @ cs @ [SetVisible ?v True]\<rparr>"
  have eq: "switch_to index b = view_show_frame ?v b3"
    by (simp add: switch_to_def Let_def cs set_active_eq b3_def)
  have d3: "display_ok b3"
    using d by (simp add: display_ok_def b3_def V_def)
  have act: "v_active (views b3 v) \<longleftrightarrow> v = ?v" for v
  proof (cases "v = ?v")
    case False
    then have "v_active (views b v) \<Longrightarrow> \<exists>i \<in> set [0..<count b]. i \<noteq> index \<and> v = t_view (tabs b ! i)"
      using a [rule_format, of v] by (auto simp: open_views_nth [OF t])
    then have "\<not> v_active (V v)" by (auto simp: V_def simp del: set_upt)
    with False show ?thesis by (simp add: b3_def)
  qed (simp add: b3_def)
  show "browser_ok E (switch_to index b)"
    using show_frame_display(1) [OF d3, of ?v] t act i
    by (auto simp: browser_ok_def eq shown_ok_def tabs_ok_def b3_def)
  show "content_ok (switch_to index b)"
    using show_frame_display(2) [OF d3, of _ _ ?v] by (auto simp: content_ok_def eq b3_def)
  show "tabs (switch_to index b) = tabs b" "count (switch_to index b) = count b"
    "active (switch_to index b) = index" "window (switch_to index b) = window b"
    "quit (switch_to index b) = quit b" "address (switch_to index b) = address b"
    "modifiers (switch_to index b) = modifiers b" "\<not> editing (switch_to index b)"
    "\<exists>cs. trace (switch_to index b) = trace b @ cs"
    by (simp_all add: eq b3_def)
qed

end
