(* ===== verification/BrowserTabs.thy ===== *)
theory BrowserTabs
  imports BrowserInv
begin

text \<open>
  Opening, switching and closing tabs, and the invariant of \<open>BrowserInv\<close> for every source the
  main loop can run.
\<close>

section \<open>Switching\<close>

text \<open>What a switch needs: everything of the invariant but the active flags.\<close>

definition switchable :: "engine \<Rightarrow> browser \<Rightarrow> bool" where
  "switchable E b \<longleftrightarrow> display_ok b \<and> tabs_ok E b \<and> (\<forall>v. v_active (views b v) \<longrightarrow> v \<in> open_views b)"

lemma browser_ok_switchable: "browser_ok E b \<Longrightarrow> switchable E b"
  using open_views_nth [of E b] by (auto simp: browser_ok_def switchable_def shown_ok_def)

lemma activate_ok:
  assumes "engine_ok E" "switchable E b" "index < count b"
  shows "browser_ok E (activate E index b)"
    and "fonts_ok E b \<Longrightarrow> content_ok (activate E index b)"
    and "tabs (activate E index b) = tabs b" "count (activate E index b) = count b"
      "active (activate E index b) = index" "window (activate E index b) = window b"
      "set (trace b) \<subseteq> set (trace (activate E index b))"
proof -
  note q = activate_switch [of E index b]
  note s = switch_to_ok [OF assms(1) _ _ assms(3)]
  have s': "browser_ok E (switch_to index b)" "content_ok (switch_to index b)"
    "tabs (switch_to index b) = tabs b" "count (switch_to index b) = count b"
    "active (switch_to index b) = index" "window (switch_to index b) = window b"
    "\<exists>cs. trace (switch_to index b) = trace b @ cs"
    using s assms(2) by (auto simp: switchable_def)
  show "browser_ok E (activate E index b)" by (rule quiet_browser_ok [OF q s'(1)])
  show "content_ok (activate E index b)" if "fonts_ok E b"
    using quiet_content_ok [OF q _ _ s'(2)] s' that by (simp add: browser_ok_def fonts_ok_def)
  show "tabs (activate E index b) = tabs b" "count (activate E index b) = count b"
      "active (activate E index b) = index" "window (activate E index b) = window b"
      "set (trace b) \<subseteq> set (trace (activate E index b))"
    using q s' by (auto simp: quiet_def)
qed

section \<open>Opening\<close>

text \<open>\<open>add_tab\<close> of a new web view, appended to the array in use.\<close>

lemma add_tab_switchable:
  fixes h :: history and tr :: history and b :: browser
  assumes e: "engine_ok E" and b: "switchable E b" and c: "count b < MAX_TABS"
    and t: "set (trace b) \<subseteq> set tr" "NewWebView r (new_web_view E (trace b)) \<in> set tr"
  defines "w \<equiv> new_web_view E (trace b)"
  defines "b' \<equiv> add_tab E w (b\<lparr>views := (views b)(get_wpe_view E h w := orange_view_init), trace := tr\<rparr>)"
  shows "switchable E b'" "count b' = count b + 1" "window b' = window b"
    "take (count b) (tabs b') = take (count b) (tabs b)" "t_web_view (tabs b' ! count b) = w"
proof -
  have len: "length (tabs b) = MAX_TABS" using b by (simp add: switchable_def tabs_ok_def)
  define t' where "t' = \<lparr>t_web_view = w, t_view = get_wpe_view E tr w, t_progress = 0\<rparr>"
  have eq: "b' = b\<lparr>views := (views b)(get_wpe_view E h w := orange_view_init), tabs := (tabs b)[count b := t'],
     count := count b + 1, trace := tr @ map (Connect w) tab_signals\<rparr>"
    using c len by (simp add: b'_def add_tab_def Let_def t'_def)
  have view: "get_wpe_view E h' w' = get_wpe_view E [] w'" for h' w' using e by (auto simp: engine_ok_def)
  have fresh: "w \<notin> t_web_view ` set (take (count b) (tabs b))"
  proof
    assume "w \<in> t_web_view ` set (take (count b) (tabs b))"
    then obtain r' where "NewWebView r' w \<in> set (trace b)"
      using b by (auto simp: switchable_def tabs_ok_def)
    then show False using e by (auto simp: w_def engine_ok_def)
  qed
  have tk: "take (count b + 1) (tabs b') = take (count b) (tabs b) @ [t']"
    using c len by (simp add: eq take_Suc_conv_app_nth)
  show "take (count b) (tabs b') = take (count b) (tabs b)" "count b' = count b + 1"
    "window b' = window b" "t_web_view (tabs b' ! count b) = w"
    using c len by (simp_all add: eq t'_def)
  have tabs: "length (tabs b') = MAX_TABS" "\<not> overrun b'" "count b' = count b + 1" "set tr \<subseteq> set (trace b')"
    using len b by (auto simp: eq switchable_def tabs_ok_def)
  have "(\<exists>r. NewWebView r (t_web_view u) \<in> set (trace b')) \<and> t_view u = get_wpe_view E [] (t_web_view u)"
    if "u \<in> set (take (count b + 1) (tabs b'))" for u
    using that b t tabs(4) view [of tr w] unfolding tk
    by (auto simp: switchable_def tabs_ok_def t'_def w_def; blast)
  moreover have "distinct (map t_web_view (take (count b + 1) (tabs b')))"
    using b fresh unfolding tk by (auto simp: switchable_def tabs_ok_def t'_def)
  ultimately have "tabs_ok E b'"
    using tabs c by (simp add: tabs_ok_def)
  moreover have "display_ok b'"
    using b by (simp add: switchable_def display_ok_def eq)
  moreover have "v_active (views b' v) \<Longrightarrow> v \<in> open_views b'" for v
    using b tk unfolding open_views_def switchable_def
    by (auto simp: eq orange_view_init_def split: if_splits)
  ultimately show "switchable E b'" by (simp add: switchable_def)
qed


lemma trace_views_swap: "(b :: browser)\<lparr>trace := t, views := V\<rparr> = b\<lparr>views := V, trace := t\<rparr>"
  by simp

text \<open>The state when a new tab is about to become the active one.\<close>

lemma open_tab_eq:
  assumes "count b \<noteq> MAX_TABS"
  shows "open_tab E uri b =
    (let w = new_web_view E (trace b); tr = trace b @ [NewWebView None w];
         b2 = add_tab E w (b\<lparr>views := (views b)(get_wpe_view E tr w := orange_view_init), trace := tr\<rparr>);
         b3 = activate E (count b2 - 1) b2
     in (Some w, case uri of Some u \<Rightarrow> emit [LoadUri w (address_to_url u)] b3 | None \<Rightarrow> b3))"
  using assms by (simp add: open_tab_def web_view_new_def display_create_view_def Let_def trace_views_swap)

lemma on_create_eq:
  assumes "count b \<noteq> MAX_TABS"
  shows "on_create E opener b =
    (let w = new_web_view E (trace b); tr = trace b @ [NewWebView (Some opener) w];
         b2 = add_tab E w (b\<lparr>views := (views b)(get_wpe_view E tr w := orange_view_init), trace := tr @ [WebViewRef w]\<rparr>)
     in (Some w, activate E (count b2 - 1) b2))"
  using assms by (simp add: on_create_def web_view_new_def display_create_view_def Let_def trace_views_swap)

text \<open>Opening a tab, both ways: the new web view is the last tab and the active one.\<close>

definition tab_opened :: "engine \<Rightarrow> browser \<Rightarrow> browser \<Rightarrow> bool" where
  "tab_opened E b b' \<longleftrightarrow> browser_ok E b' \<and> (fonts_ok E b \<longrightarrow> content_ok b') \<and> window b' = window b \<and>
     count b' = count b + 1 \<and> active b' = count b \<and> take (count b) (tabs b') = take (count b) (tabs b) \<and>
     t_web_view (ACTIVE b') = new_web_view E (trace b)"

lemma activate_last_opened:
  assumes "engine_ok E" "switchable E b" "count b < MAX_TABS"
    and "set (trace b) \<subseteq> set tr" "NewWebView r (new_web_view E (trace b)) \<in> set tr"
    and "b2 = add_tab E (new_web_view E (trace b))
      (b\<lparr>views := (views b)(get_wpe_view E h (new_web_view E (trace b)) := orange_view_init), trace := tr\<rparr>)"
  shows "tab_opened E b (activate E (count b2 - 1) b2)"
proof -
  note s = add_tab_switchable [OF assms(1-5), of h, folded assms(6)]
  note a = activate_ok [OF assms(1) s(1), of "count b2 - 1"]
  show ?thesis
    using a s by (auto simp: tab_opened_def fonts_ok_def)
qed

lemma tab_opened_quiet:
  "tab_opened E b b' \<Longrightarrow> quiet E b' b'' \<Longrightarrow> tab_opened E b b''"
  using quiet_browser_ok [of E b' b''] quiet_content_ok [of E b' b'']
  by (auto simp: tab_opened_def fonts_ok_def browser_ok_def quiet_def)

lemma open_tab_ok:
  assumes "engine_ok E" "switchable E b"
  shows "count b = MAX_TABS \<Longrightarrow> open_tab E uri b = (None, b)"
    and "count b < MAX_TABS \<Longrightarrow> fst (open_tab E uri b) = Some (new_web_view E (trace b))"
    and "count b < MAX_TABS \<Longrightarrow> tab_opened E b (snd (open_tab E uri b))"
proof -
  show "count b = MAX_TABS \<Longrightarrow> open_tab E uri b = (None, b)" by (simp add: open_tab_def)
  assume c: "count b < MAX_TABS"
  then show "fst (open_tab E uri b) = Some (new_web_view E (trace b))"
    by (simp add: open_tab_eq Let_def)
  define w where "w = new_web_view E (trace b)"
  define tr where "tr = trace b @ [NewWebView None w]"
  define b2 where "b2 = add_tab E w (b\<lparr>views := (views b)(get_wpe_view E tr w := orange_view_init), trace := tr\<rparr>)"
  have o: "tab_opened E b (activate E (count b2 - 1) b2)"
    by (rule activate_last_opened [where tr = tr and h = tr and r = None])
      (use assms c in \<open>auto simp: tr_def b2_def w_def\<close>)
  have "snd (open_tab E uri b) = (case uri of
      Some u \<Rightarrow> emit [LoadUri w (address_to_url u)] (activate E (count b2 - 1) b2)
    | None \<Rightarrow> activate E (count b2 - 1) b2)"
    using c by (simp add: open_tab_eq Let_def tr_def b2_def w_def split: option.split)
  with o show "tab_opened E b (snd (open_tab E uri b))"
    by (auto split: option.split intro: tab_opened_quiet)
qed

lemma on_create_ok:
  assumes "engine_ok E" "switchable E b"
  shows "count b = MAX_TABS \<Longrightarrow> on_create E opener b = (None, b)"
    and "count b < MAX_TABS \<Longrightarrow> fst (on_create E opener b) = Some (new_web_view E (trace b))"
    and "count b < MAX_TABS \<Longrightarrow> tab_opened E b (snd (on_create E opener b))"
proof -
  show "count b = MAX_TABS \<Longrightarrow> on_create E opener b = (None, b)" by (simp add: on_create_def)
  assume c: "count b < MAX_TABS"
  then show "fst (on_create E opener b) = Some (new_web_view E (trace b))"
    by (simp add: on_create_eq Let_def)
  define w where "w = new_web_view E (trace b)"
  define tr where "tr = trace b @ [NewWebView (Some opener) w]"
  define b2 where "b2 = add_tab E w (b\<lparr>views := (views b)(get_wpe_view E tr w := orange_view_init),
     trace := tr @ [WebViewRef w]\<rparr>)"
  have "tab_opened E b (activate E (count b2 - 1) b2)"
    by (rule activate_last_opened [where tr = "tr @ [WebViewRef w]" and h = tr and r = "Some opener"])
      (use assms c in \<open>auto simp: tr_def b2_def w_def\<close>)
  then show "tab_opened E b (snd (on_create E opener b))"
    using c by (simp add: on_create_eq Let_def tr_def b2_def w_def)
qed


section \<open>Closing\<close>

lemma shift_down_take:
  assumes "index < n" "n \<le> length ts"
  shows "take (n - 1) (shift_down index n ts) = remove_nth index (take n ts)"
    and "length (shift_down index n ts) = length ts"
  using assms by (auto simp: shift_down_def remove_nth_def)

definition next_active :: "nat \<Rightarrow> browser \<Rightarrow> nat" where
  "next_active index b = (if index < active b \<or> active b = count b - 1 then active b - 1 else active b)"

text \<open>The state after the tab is taken out of the array and its view hidden.\<close>

definition take_out :: "nat \<Rightarrow> browser \<Rightarrow> browser" where
  "take_out index b =
     (let t = tabs b ! index
      in b\<lparr>tabs := shift_down index (count b) (tabs b), count := count b - 1,
           views := (views b)(t_view t := (views b (t_view t))\<lparr>v_active := False\<rparr>),
           trace := trace b @ [Disconnect (t_web_view t), SetVisible (t_view t) False, WebViewUnref (t_web_view t)]\<rparr>)"

lemma close_tab_eq:
  assumes "index < count b" "active b < count b"
  shows "close_tab E index b =
    (if count b = 1
     then emit [Print (''orange-browser: last tab closed'' @ [CHR 0x0A]), LoopQuit] ((take_out index b)\<lparr>quit := True\<rparr>)
     else activate E (next_active index b) (take_out index b))"
proof -
  have "min (if index < active b \<or> active b \<ge> count b - 1 then active b - 1 else active b) (count b - 1 - 1) =
      next_active index b" if "count b \<noteq> 1"
    using assms that by (auto simp: next_active_def)
  then show ?thesis
    using assms by (simp add: close_tab_def take_out_def Let_def set_inactive)
qed

lemma take_out_ok:
  assumes e: "engine_ok E" and b: "browser_ok E b" and i: "index < count b"
  shows "display_ok (take_out index b)" "tabs_ok E (take_out index b)" "switchable E (take_out index b)"
    "count (take_out index b) = count b - 1" "window (take_out index b) = window b"
    "take (count b - 1) (tabs (take_out index b)) = remove_nth index (take (count b) (tabs b))"
    "active (take_out index b) = active b" "overrun (take_out index b) = overrun b"
proof -
  let ?b = "take_out index b" and ?ts = "take (count b) (tabs b)"
  have t: "tabs_ok E b" and d: "display_ok b" and sh: "shown_ok b" using b by (auto simp: browser_ok_def)
  have n: "count b \<le> length (tabs b)" using t by (simp add: tabs_ok_def)
  show eqs: "count ?b = count b - 1" "window ?b = window b" "active ?b = active b" "overrun ?b = overrun b"
    by (simp_all add: take_out_def Let_def)
  show tk: "take (count b - 1) (tabs ?b) = remove_nth index ?ts"
    using shift_down_take(1) [OF i n] by (simp add: take_out_def Let_def)
  show d': "display_ok ?b" using d by (simp add: take_out_def Let_def display_ok_def)
  have sub: "set (remove_nth index ?ts) \<subseteq> set ?ts" by (rule set_remove_nth_subset)
  have len: "length (tabs ?b) = MAX_TABS"
    using shift_down_take(2) [OF i n] t by (simp add: take_out_def Let_def tabs_ok_def)
  have tr: "set (trace b) \<subseteq> set (trace ?b)" by (auto simp: take_out_def Let_def)
  show t': "tabs_ok E ?b"
    unfolding tabs_ok_def eqs tk
  proof (intro conjI ballI)
    show "distinct (map t_web_view (remove_nth index ?ts))"
      using t by (simp add: map_remove_nth tabs_ok_def)
    fix u assume "u \<in> set (remove_nth index ?ts)"
    then have "u \<in> set ?ts" using sub by blast
    then show "\<exists>r. NewWebView r (t_web_view u) \<in> set (trace ?b)" "t_view u = get_wpe_view E [] (t_web_view u)"
      using t tr unfolding tabs_ok_def by (meson subsetD)+
  qed (use t len in \<open>auto simp: tabs_ok_def\<close>)
  have "v \<in> open_views ?b" if v: "v_active (views ?b v)" for v
  proof -
    have a: "v = t_view (ACTIVE b)" "v \<noteq> t_view (tabs b ! index)"
      using v sh by (auto simp: take_out_def Let_def shown_ok_def split: if_splits)
    then have "active b \<noteq> index" by auto
    moreover have ac: "active b < count b" using sh by (simp add: shown_ok_def)
    ultimately have "remove_nth index ?ts ! (if active b < index then active b else active b - 1) = ACTIVE b"
      "(if active b < index then active b else active b - 1) < length (remove_nth index ?ts)"
      using i n by (auto simp: nth_remove_nth)
    then have "ACTIVE b \<in> set (remove_nth index ?ts)" by (metis nth_mem)
    then show ?thesis using a(1) unfolding open_views_def eqs tk by blast
  qed
  with t' d' show "switchable E ?b" by (simp add: switchable_def)
qed

lemma close_tab_ok:
  assumes e: "engine_ok E" and b: "browser_ok E b" and i: "index < count b" and c: "1 < count b"
  shows "browser_ok E (close_tab E index b)" "fonts_ok E b \<Longrightarrow> content_ok (close_tab E index b)"
    "count (close_tab E index b) = count b - 1" "active (close_tab E index b) = next_active index b"
    "take (count b - 1) (tabs (close_tab E index b)) = remove_nth index (take (count b) (tabs b))"
    "window (close_tab E index b) = window b"
proof -
  have a: "active b < count b" using b by (simp add: browser_ok_def shown_ok_def)
  have eq: "close_tab E index b = activate E (next_active index b) (take_out index b)"
    using close_tab_eq [OF i a, of E] c by simp
  note o = take_out_ok [OF e b i]
  have n: "next_active index b < count (take_out index b)"
    using a c i o(4) by (auto simp: next_active_def)
  note k = activate_ok [OF e o(3) n]
  show "browser_ok E (close_tab E index b)" using k(1) by (simp add: eq)
  show "content_ok (close_tab E index b)" if "fonts_ok E b"
    using k(2) that o(5) by (simp add: eq fonts_ok_def)
  show "count (close_tab E index b) = count b - 1" "active (close_tab E index b) = next_active index b"
    "take (count b - 1) (tabs (close_tab E index b)) = remove_nth index (take (count b) (tabs b))"
    "window (close_tab E index b) = window b"
    using k(3-6) o(4,5,6) by (simp_all add: eq)
qed

lemma close_last_ok:
  assumes e: "engine_ok E" and b: "browser_ok E b" and c: "count b = 1"
  shows "count (close_tab E 0 b) = 0" "quit (close_tab E 0 b)" "display_ok (close_tab E 0 b)"
    "\<not> overrun (close_tab E 0 b)" "LoopQuit \<in> set (trace (close_tab E 0 b))" "window (close_tab E 0 b) = window b"
proof -
  have a: "active b < count b" using b by (simp add: browser_ok_def shown_ok_def)
  note o = take_out_ok [OF e b, of 0]
  have eq: "close_tab E 0 b =
      emit [Print (''orange-browser: last tab closed'' @ [CHR 0x0A]), LoopQuit] ((take_out 0 b)\<lparr>quit := True\<rparr>)"
    using close_tab_eq [of 0 b E] a c by simp
  show "count (close_tab E 0 b) = 0" "quit (close_tab E 0 b)" "LoopQuit \<in> set (trace (close_tab E 0 b))"
    "window (close_tab E 0 b) = window b"
    using o c by (simp_all add: eq)
  show "display_ok (close_tab E 0 b)" "\<not> overrun (close_tab E 0 b)"
    using o c b by (simp_all add: eq display_ok_def browser_ok_def tabs_ok_def)
qed


section \<open>Every callback keeps the invariant\<close>

text \<open>The state after the last tab was closed.\<close>

definition finished :: "browser \<Rightarrow> bool" where
  "finished b \<longleftrightarrow> count b = 0 \<and> quit b \<and> display_ok b \<and> \<not> overrun b"

definition kept :: "engine \<Rightarrow> browser \<Rightarrow> browser \<Rightarrow> bool" where
  "kept E b b' \<longleftrightarrow> window b' = window b \<and>
     (browser_ok E b' \<and> (fonts_ok E b \<longrightarrow> content_ok b \<longrightarrow> content_ok b') \<or> finished b')"

lemma kept_quiet: "browser_ok E b \<Longrightarrow> quiet E b b' \<Longrightarrow> kept E b b'"
  using quiet_browser_ok [of E b b'] quiet_content_ok [of E b b']
  by (auto simp: kept_def browser_ok_def quiet_def)

lemma kept_after_quiet:
  assumes "browser_ok E b" "quiet E b b1" "kept E b1 b'"
  shows "kept E b b'"
  using assms quiet_content_ok [of E b b1]
  by (auto simp: kept_def browser_ok_def quiet_def fonts_ok_def)

lemma not_finished: "browser_ok E b \<Longrightarrow> \<not> finished b"
  by (auto simp: browser_ok_def shown_ok_def finished_def)

lemma kept_then_quiet:
  assumes "kept E b b1" "browser_ok E b1" "quiet E b1 b2"
  shows "kept E b b2"
  using assms kept_quiet [OF assms(2,3)] not_finished [OF assms(2)]
  by (auto simp: kept_def fonts_ok_def)

lemma kept_opened: "tab_opened E b b' \<Longrightarrow> kept E b b'"
  by (auto simp: tab_opened_def kept_def)

lemma kept_activate:
  assumes "engine_ok E" "browser_ok E b" "index < count b"
  shows "kept E b (activate E index b)"
  using activate_ok [OF assms(1) browser_ok_switchable [OF assms(2)] assms(3)] by (auto simp: kept_def)

lemma kept_close:
  assumes "engine_ok E" "browser_ok E b" "index < count b"
  shows "kept E b (close_tab E index b)"
proof (cases "count b = 1")
  case True
  then show ?thesis
    using close_last_ok [OF assms(1,2) True] assms(3) by (auto simp: kept_def finished_def)
next
  case False
  then show ?thesis
    using close_tab_ok [OF assms] assms(3) by (auto simp: kept_def)
qed

lemma count_cases: "browser_ok E b \<Longrightarrow> count b = MAX_TABS \<or> count b < MAX_TABS"
  by (auto simp: browser_ok_def tabs_ok_def)

text \<open>A new tab from the \<open>+\<close> button or Ctrl+T, with the address field ready for typing.\<close>

definition new_tab :: "engine \<Rightarrow> browser \<Rightarrow> browser" where
  "new_tab E b = (case open_tab E (Some START_PAGE) b of
     (Some _, b1) \<Rightarrow> edit_address E True b1 | (None, b1) \<Rightarrow> b1)"

lemma kept_new_tab:
  assumes "engine_ok E" "browser_ok E b"
  shows "kept E b (new_tab E b)"
proof -
  note s = browser_ok_switchable [OF assms(2)]
  from count_cases [OF assms(2)] show ?thesis
  proof
    assume "count b = MAX_TABS"
    then show ?thesis
      using open_tab_ok(1) [OF assms(1) s] kept_quiet [OF assms(2) quiet_refl] by (simp add: new_tab_def)
  next
    assume c: "count b < MAX_TABS"
    obtain b1 where o: "open_tab E (Some START_PAGE) b = (Some (new_web_view E (trace b)), b1)"
      using open_tab_ok(2) [OF assms(1) s c, of "Some START_PAGE"]
      by (cases "open_tab E (Some START_PAGE) b") auto
    have "tab_opened E b b1"
      using open_tab_ok(3) [OF assms(1) s c, of "Some START_PAGE"] o by simp
    then show ?thesis
      using o kept_opened [OF tab_opened_quiet [OF _ quiet_edit_address]] by (simp add: new_tab_def)
  qed
qed

lemma kept_create:
  assumes "engine_ok E" "browser_ok E b"
  shows "kept E b (snd (on_create E w b))"
  using count_cases [OF assms(2)] on_create_ok [OF assms(1) browser_ok_switchable [OF assms(2)]]
    kept_quiet [OF assms(2) quiet_refl]
  by (auto intro: kept_opened)

lemma tab_of_Some: "tab_of b w = Some i \<Longrightarrow> i < count b \<and> t_web_view (tabs b ! i) = w"
  by (auto simp: tab_of_def find_Some_iff)

lemma active_bound: "browser_ok E b \<Longrightarrow> active b < count b"
  by (simp add: browser_ok_def shown_ok_def)

lemma kept_shortcut:
  assumes "engine_ok E" "browser_ok E b"
  shows "kept E b (snd (shortcut E keyval b))"
proof -
  note q = kept_quiet [OF assms(2)]
  have "(active b + cycle_step keyval b) mod count b < count b" if "1 < count b"
    using that by simp
  then show ?thesis
    using kept_new_tab [OF assms] kept_close [OF assms active_bound [OF assms(2)]]
      kept_activate [OF assms, of "(active b + cycle_step keyval b) mod count b"]
    by (auto simp: shortcut_def q new_tab_def)
qed

lemma shortcut_unhandled: "\<not> fst (shortcut E keyval b) \<Longrightarrow> snd (shortcut E keyval b) = b"
  by (auto simp: shortcut_def)

lemma kept_handle_key:
  assumes "engine_ok E" "browser_ok E b"
  shows "kept E b (handle_key E e b)"
proof -
  define b1 where "b1 = b\<lparr>modifiers := track_modifiers e (modifiers b)\<rparr>"
  have q: "quiet E b b1" by (simp add: b1_def)
  have ok: "browser_ok E b1" by (rule quiet_browser_ok [OF q assms(2)])
  show ?thesis
  proof (rule kept_after_quiet [OF assms(2) q],
      cases "orange_key_translate (unat (pe_code e)) (key_extended e) (modifiers b1)")
    case None
    then show "kept E b1 (handle_key E e b)"
      using kept_quiet [OF ok quiet_refl] by (simp add: handle_key_def b1_def)
  next
    case (Some p)
    obtain keycode keyval where p: "p = (keycode, keyval)" by (cases p)
    have "kept E b1 (snd (shortcut E keyval b1))" by (rule kept_shortcut [OF assms(1) ok])
    then show "kept E b1 (handle_key E e b)"
      using Some p kept_quiet [OF ok] shortcut_unhandled [of E keyval b1]
      by (auto simp: handle_key_def Let_def b1_def [symmetric] case_prod_beta)
  qed
qed

lemma kept_tabbar_click:
  assumes "engine_ok E" "browser_ok E b"
  shows "kept E b (tabbar_click E x y b)"
proof (cases "find (on_tab b x) [0..<count b]")
  case None
  then show ?thesis
    using kept_new_tab [OF assms] kept_quiet [OF assms(2) quiet_refl]
    by (simp add: tabbar_click_def new_tab_def)
next
  case (Some i)
  then have "i < count b" by (auto simp: find_Some_iff)
  then show ?thesis
    using Some kept_close [OF assms] kept_activate [OF assms] kept_quiet [OF assms(2) quiet_refl]
    by (simp add: tabbar_click_def)
qed

lemma kept_handle_mouse:
  assumes "engine_ok E" "browser_ok E b"
  shows "kept E b (handle_mouse E e b)"
proof -
  let ?b = "b\<lparr>buttons := pe_code e\<rparr>"
  have q: "quiet E b ?b" by simp
  have ok: "browser_ok E ?b" by (rule quiet_browser_ok [OF q assms(2)])
  have "quiet E ?b (draw_toolbar E (show_uri E (?b\<lparr>editing := False\<rparr>)))"
    by (rule quiet_draw(1), rule quiet_trans [OF quiet_update(2) quiet_show_uri])
  then have q1: "quiet E ?b (emit cs (draw_toolbar E (show_uri E (?b\<lparr>editing := False\<rparr>))))" for cs
    by (rule quiet_trans [OF _ quiet_update(7)])
  have q2: "quiet E ?b (?b\<lparr>trace := trace b @ cs\<rparr>)" for cs
    using quiet_update(7) [of E ?b cs] by simp
  show ?thesis
    by (rule kept_after_quiet [OF assms(2) q])
      (simp add: handle_mouse_def Let_def kept_tabbar_click [OF assms(1) ok] kept_quiet [OF ok] q1 q2)
qed


lemma kept_dispatch:
  assumes "engine_ok E" "browser_ok E b"
  shows "kept E b (dispatch E e b)"
proof -
  have "quiet E b (emit [LoopQuit] (b\<lparr>quit := True\<rparr>))"
    by (rule quiet_trans [OF quiet_update(6) quiet_update(7)])
  then show ?thesis
    using kept_quiet [OF assms(2)] kept_handle_key [OF assms] kept_handle_mouse [OF assms]
    by (simp add: dispatch_def)
qed

text \<open>Load progress: one tab's record changes, not its views.\<close>

lemma kept_progress:
  assumes "browser_ok E b"
  shows "kept E b (on_progress E w b)"
proof (cases "tab_of b w")
  case None
  then show ?thesis using kept_quiet [OF assms quiet_refl] by (simp add: on_progress_def)
next
  case (Some i)
  define t where "t = (tabs b ! i)\<lparr>t_progress := get_progress E (trace b) w\<rparr>"
  define b1 where "b1 = b\<lparr>tabs := (tabs b)[i := t]\<rparr>"
  have len: "length (tabs b) = MAX_TABS" "count b \<le> MAX_TABS" using assms by (auto simp: browser_ok_def tabs_ok_def)
  have i: "i < count b" using tab_of_Some [OF Some] by simp
  have same: "t_web_view (tabs b1 ! j) = t_web_view (tabs b ! j)" "t_view (tabs b1 ! j) = t_view (tabs b ! j)"
    if "j < count b" for j
    using that len by (cases "j = i"; simp add: b1_def t_def)+
  have maps: "map t_web_view (take (count b) (tabs b1)) = map t_web_view (take (count b) (tabs b))"
    using same len by (intro nth_equalityI) (auto simp: b1_def)
  have "(\<exists>r. NewWebView r (t_web_view u) \<in> set (trace b1)) \<and> t_view u = get_wpe_view E [] (t_web_view u)"
    if u: "u \<in> set (take (count b) (tabs b1))" for u
  proof -
    obtain j where j: "u = tabs b1 ! j" "j < count b" using u len by (auto simp: in_set_conv_nth b1_def)
    then show ?thesis
      using same [OF j(2)] tab_mem [of E b j] assms by (auto simp: browser_ok_def tabs_ok_def b1_def)
  qed
  then have "tabs_ok E b1"
    using assms maps by (auto simp: browser_ok_def tabs_ok_def b1_def)
  moreover have "display_ok b1" using assms by (simp add: browser_ok_def display_ok_def b1_def)
  moreover have act: "t_view (ACTIVE b1) = t_view (ACTIVE b)"
    using same active_bound [OF assms] by (simp add: b1_def)
  then have "shown_ok b1" using assms by (auto simp: browser_ok_def shown_ok_def b1_def)
  ultimately have ok: "browser_ok E b1" by (simp add: browser_ok_def)
  have "content_ok b1 = content_ok b" unfolding content_ok_def act by (simp add: b1_def)
  then have "kept E b b1" using ok by (simp add: kept_def b1_def)
  moreover have "kept E b (draw_toolbar E b1)"
    by (rule kept_then_quiet [OF \<open>kept E b b1\<close> ok quiet_draw_toolbar])
  ultimately show ?thesis
    using Some by (auto simp: on_progress_def Let_def b1_def t_def)
qed

text \<open>The idle source gives buffers back: only \<open>shown\<close> of one view and the trace change.\<close>

lemma kept_idle:
  assumes "browser_ok E b"
  shows "kept E b (run_idle b)"
proof (cases "idles b")
  case Nil
  then show ?thesis using kept_quiet [OF assms quiet_refl] by simp
next
  case (Cons v vs)
  define b1 where "b1 = release_shown v (b\<lparr>idles := vs\<rparr>)"
  have eq: "run_idle b = emit [ViewUnref v] b1"
    using Cons by (simp add: run_idle_def view_release_def b1_def)
  have f: "tabs b1 = tabs b" "count b1 = count b" "active b1 = active b" "window b1 = window b"
    "overrun b1 = overrun b" "set (trace b) \<subseteq> set (trace b1)" "fb b1 = fb b" "surface b1 = surface b"
    "views b1 = (views b)(v := (views b v)\<lparr>shown := None\<rparr>)"
    by (auto simp: b1_def release_shown_def split: option.split)
  have "tabs_ok E b1" using assms f(1-6) unfolding browser_ok_def tabs_ok_def by (metis subsetD)
  moreover have "display_ok b1" "shown_ok b1"
    using assms f by (auto simp: browser_ok_def display_ok_def shown_ok_def)
  moreover have "content_ok b1 = content_ok b"
    by (simp add: content_ok_def f)
  ultimately have k: "browser_ok E b1" "kept E b b1" using f by (auto simp: browser_ok_def kept_def)
  then show ?thesis
    using kept_then_quiet [OF k(2,1) quiet_update(7)] by (simp add: eq)
qed

text \<open>A frame for a view: shown at once when the view is active.\<close>

lemma kept_render:
  assumes b: "browser_ok E b" and buf: "buffer_ok buf" and r: "view_render_buffer v buf b = Inr b'"
  shows "kept E b b'"
proof -
  have d: "display_ok b" and sh: "shown_ok b" and t: "tabs_ok E b" using b by (auto simp: browser_ok_def)
  have s: "surface_ok b" "view_ok (views b v)" using surface_ok_display [OF d] d by (auto simp: display_ok_def)
  have shm: "b_is_shm buf" using r by (rule render_log(1))
  note eq = view_render_buffer_shm [OF s buf shm, unfolded r, simplified]
  let ?v = "fitted (surface b) buf (views b v)"
  have sf: "surface b = content_surface (window b)" using d by (simp add: display_ok_def)
  have st: "0 < w_stride (window b)" using d window_okD by (auto simp: display_ok_def)
  note c = after_copy_correct [OF s buf]
  have fields: "tabs b' = tabs b" "count b' = count b" "active b' = active b" "window b' = window b"
    "overrun b' = overrun b" "surface b' = surface b" "fb b' = fb (after_copy v buf b)"
    "views b' = (views b)(v := ?v\<lparr>shown := Some (b_id buf)\<rparr>)" "set (trace b) \<subseteq> set (trace b')"
    by (auto simp: eq Let_def after_copy_def release_shown_def split: option.split)
  have fit: "view_ok ?v" "v_active ?v = v_active (views b v)"
    using filled_view_ok [OF s(2) buf fit_bounds [OF s(1) buf]] by auto
  have "size_px (fb b') = size_px (fb b)" "fault (fb b') = fault (fb b)"
    using c(1,2) [of 0] st sf fields(7) by (simp_all add: content_surface_def)
  then have "display_ok b'"
    using d fields fit by (auto simp: display_ok_def holds_window_def)
  moreover have "tabs_ok E b'" using t fields unfolding tabs_ok_def by (metis subsetD)
  moreover have "shown_ok b'" using sh fields fit by (auto simp: shown_ok_def)
  moreover have "content_ok b'" if "content_ok b"
    unfolding content_ok_def
  proof (intro allI impI)
    fix X Y assume "in_content (surface b') X Y"
    then have i: "in_content (surface b) X Y" by (simp add: fields)
    have v: "v_active (views b v) \<longleftrightarrow> v = t_view (ACTIVE b)" using sh by (simp add: shown_ok_def)
    show "pix (fb b') (Y * w_stride (window b') + X) =
       view_pixel (views b' (t_view (ACTIVE b'))) X (Y - CONTENT_Y * w_scale (window b'))"
      using c(3) [of X Y] content_rows [OF d i] i v that sf fields
      by (auto simp: content_surface_def content_ok_def)
  qed
  ultimately show ?thesis
    using fields by (auto simp: kept_def browser_ok_def)
qed


lemma kept_incoming:
  assumes "engine_ok E" "browser_ok E b"
  shows "kept E b (handle_incoming E i b)"
proof (cases i)
  case (InClose w)
  then show ?thesis
    using kept_close [OF assms] tab_of_Some [of b w] kept_quiet [OF assms(2) quiet_refl]
    by (auto simp: on_close_def split: option.split)
qed (use kept_quiet [OF assms(2)] kept_dispatch [OF assms] kept_progress [OF assms(2)]
    kept_create [OF assms] kept_idle [OF assms(2)] in auto)

text \<open>The sources the main loop may run: WPE's buffers have room for their rows.\<close>

fun source_ok :: "source \<Rightarrow> bool" where
  "source_ok (Incoming i) = True"
| "source_ok (Frame v buf) = buffer_ok buf"

lemma kept_source:
  assumes "engine_ok E" "browser_ok E b" "source_ok src"
  shows "kept E b (run_source E src b)"
proof (cases src)
  case (Incoming i)
  have ok: "browser_ok E (emit [Received i] b)" by (rule quiet_browser_ok [OF quiet_update(7) assms(2)])
  show ?thesis
    using kept_after_quiet [OF assms(2) quiet_update(7) kept_incoming [OF assms(1) ok]] Incoming by simp
next
  case (Frame v buf)
  let ?b = "emit [Received (InRender v)] b"
  have ok: "browser_ok E ?b" by (rule quiet_browser_ok [OF quiet_update(7) assms(2)])
  have "kept E ?b (run_source E src b)"
    using Frame assms(3) kept_render [OF ok] kept_quiet [OF ok quiet_refl]
    by (auto simp: Let_def split: sum.split)
  then show ?thesis by (rule kept_after_quiet [OF assms(2) quiet_update(7)])
qed

section \<open>Reachable states\<close>

text \<open>The main loop one source at a time, as long as a tab is open; what may still run in the iteration
  that closed the last tab is the subject of the section after the last tab.\<close>

inductive browser_step :: "engine \<Rightarrow> browser \<Rightarrow> browser \<Rightarrow> bool" for E where
  run: "0 < count b \<Longrightarrow> source_ok src \<Longrightarrow> browser_step E b (run_source E src b)"

inductive reachable :: "host \<Rightarrow> engine \<Rightarrow> string list \<Rightarrow> browser \<Rightarrow> bool" for H E argv where
  start: "main_start H E argv = Inr b \<Longrightarrow> reachable H E argv b"
| step: "reachable H E argv b \<Longrightarrow> browser_step E b b' \<Longrightarrow> reachable H E argv b'"

inductive_cases browser_stepE: "browser_step E b b'"

text \<open>What libpeel's window is, and that the font fits at its scale.\<close>

definition host_ok :: "host \<Rightarrow> engine \<Rightarrow> bool" where
  "host_ok H E \<longleftrightarrow> (case peel_window H of None \<Rightarrow> True | Some (w, f) \<Rightarrow>
     window_ok w \<and> holds_window w f \<and> \<not> fault f \<and>
     font_fits E (13 * w_scale w) \<and> font_fits E (14 * w_scale w))"

lemma main_start_ok:
  assumes e: "engine_ok E" and h: "host_ok H E" and b: "main_start H E argv = Inr b"
  shows "browser_ok E b" "content_ok b" "fonts_ok E b" "count b = 1" "active b = 0"
    "map_option fst (peel_window H) = Some (window b)"
proof -
  obtain w f where w: "peel_window H = Some (w, f)"
    using b by (auto simp: main_start_def Let_def split: option.splits)
  have ok: "window_ok w" "holds_window w f" "\<not> fault f" "font_fits E (13 * w_scale w)" "font_fits E (14 * w_scale w)"
    using h w by (auto simp: host_ok_def)
  define tr where "tr = main_environment H @ [PeelOpen ''Orange Browser'' WINDOW_WIDTH WINDOW_HEIGHT]"
  define b0 where "b0 = (empty_browser w)\<lparr>fb := fill w 0 0 (w_width w) (w_height w) 0xFFFFFF f,
     trace := (tr @ [PeelCommit 0 0 (w_width w) (w_height w), DisplayConnect]) @ main_settings H\<rparr>"
  define first where "first = (if 1 < length argv then argv ! 1 else START_PAGE)"
  define b2 where "b2 = snd (open_tab E (Some first) b0)"
  have eq: "b = emit [StartInputThread] (draw_toolbar E (b2\<lparr>address := first\<rparr>))"
    using b w by (auto simp: main_start_def Let_def b2_def b0_def tr_def first_def split: if_splits option.splits)
  have "draws_within w 0 (w_height w) (fill w 0 0 (w_width w) (w_height w) 0xFFFFFF)"
    by (rule draws_within_fill) (use ok in auto)
  from draws_within_safe [OF this ok(1,2)]
  have "switchable E b0"
    using ok by (auto simp: switchable_def display_ok_def tabs_ok_def b0_def empty_browser_def holds_window_def
      content_surface_def) (simp add: orange_view_init_def)
  moreover have "count b0 = 0" "window b0 = w" by (simp_all add: b0_def empty_browser_def)
  ultimately have o: "tab_opened E b0 b2"
    using open_tab_ok(3) [OF e] by (simp add: b2_def MAX_TABS_def)
  have q: "quiet E b2 b"
    unfolding eq by (rule quiet_trans [OF quiet_trans [OF quiet_update(1) quiet_draw_toolbar] quiet_update(7)])
  have "tab_opened E b0 b" by (rule tab_opened_quiet [OF o q])
  then show "browser_ok E b" "content_ok b" "fonts_ok E b" "count b = 1" "active b = 0"
    "map_option fst (peel_window H) = Some (window b)"
    using w ok \<open>count b0 = 0\<close> \<open>window b0 = w\<close> by (auto simp: tab_opened_def fonts_ok_def)
qed

lemma reachable_inv:
  assumes "reachable H E argv b" "engine_ok E" "host_ok H E"
  shows "fonts_ok E b \<and> (browser_ok E b \<and> content_ok b \<or> finished b)"
  using assms
proof (induction rule: reachable.induct)
  case (start b)
  then show ?case using main_start_ok by blast
next
  case (step b b')
  from step.hyps(2) obtain src where src: "0 < count b" "source_ok src" "b' = run_source E src b"
    by (rule browser_stepE)
  with step have ok: "browser_ok E b" "content_ok b" "fonts_ok E b" by (auto simp: finished_def)
  then have "kept E b b'" using kept_source [OF step.prems(1) ok(1) src(2)] src(3) by simp
  then show ?case using ok by (auto simp: kept_def fonts_ok_def)
qed


section \<open>Properties\<close>

definition sample_host :: host where
  "sample_host = \<lparr>data_writable = True, saved_profile_made = True,
     peel_window = Some (sample_window, fb (empty_browser sample_window)), freetype_ok = True, display_error = None,
     console_flag = False, user_agent = ''OrangeOS'', test_certificate = False\<rparr>"

lemma sample_engine_ok: "engine_ok sample_engine"
proof -
  have "w \<le> sum_list (map (\<lambda>c. case c of NewWebView _ w \<Rightarrow> w | _ \<Rightarrow> 0) h)" if "NewWebView r w \<in> set h" for r w h
    using member_le_sum_list [of w "map (\<lambda>c. case c of NewWebView _ w \<Rightarrow> w | _ \<Rightarrow> 0) h"] that by force
  then show ?thesis
    by (fastforce simp: engine_ok_def sample_engine_def inj_def)
qed

lemma sample_host_ok: "host_ok sample_host sample_engine"
  by (simp add: host_ok_def sample_host_def empty_browser_def sample_window_def window_ok_def holds_window_def
      layout_defs WINDOW_WIDTH_def WINDOW_HEIGHT_def font_fits_def sample_engine_def)

lemma sample_start: "\<exists>b. main_start sample_host sample_engine [] = Inr b"
  by (simp add: main_start_def sample_host_def Let_def)

definition sample_browser :: browser where
  "sample_browser = (case main_start sample_host sample_engine [] of Inr b \<Rightarrow> b)"

lemma sample_browser: "main_start sample_host sample_engine [] = Inr sample_browser"
  using sample_start by (auto simp: sample_browser_def)

lemma sample_reachable: "reachable sample_host sample_engine [] sample_browser"
  by (rule reachable.start [OF sample_browser])

lemmas sample_facts = main_start_ok [OF sample_engine_ok sample_host_ok sample_browser]

text \<open>C2: Whatever events arrive while a tab is open and however the engine answers, Orange Browser
  never stores outside the window's pixel buffer or past the end of its tab array, and never has
  more than \<open>MAX_TABS\<close> tabs. Sources that still run after the last tab has closed are not
  covered: the section after the last tab shows what they can do.\<close>

theorem browser_memory_safe:
  assumes "engine_ok E" "host_ok H E" "reachable H E argv b"
  shows "\<not> fault (fb b) \<and> \<not> overrun b \<and> count b \<le> MAX_TABS"
  using reachable_inv [OF assms(3,1,2)]
  by (auto simp: browser_ok_def display_ok_def tabs_ok_def finished_def)

theorem browser_memory_safe_witness:
  "\<not> fault (fb sample_browser) \<and> \<not> overrun sample_browser \<and> count sample_browser \<le> MAX_TABS"
  by (rule browser_memory_safe [OF sample_engine_ok sample_host_ok sample_reachable])

text \<open>C21: In every reachable state with a tab open, the active index is a tab, the tabs have
  different web views, and exactly the active tab's view is active in the Peel backend; a
  state without tabs has ended the main loop.\<close>

theorem one_active_tab:
  assumes "engine_ok E" "host_ok H E" "reachable H E argv b"
  shows "if count b = 0 then quit b
    else active b < count b \<and> distinct (map t_web_view (take (count b) (tabs b))) \<and>
      (\<forall>v. v_active (views b v) \<longleftrightarrow> v = t_view (ACTIVE b))"
  using reachable_inv [OF assms(3,1,2)]
  by (auto simp: browser_ok_def shown_ok_def tabs_ok_def finished_def)

theorem one_active_tab_witness:
  "active sample_browser < count sample_browser \<and> v_active (views sample_browser (t_view (ACTIVE sample_browser)))"
  using one_active_tab [OF sample_engine_ok sample_host_ok sample_reachable] sample_facts(4) by simp

text \<open>C1: In every reachable state with a tab open, each pixel of the content area is the pixel
  of the active tab's last frame, or white where that frame does not reach: no other tab's
  page, and nothing of the tab strip or toolbar, is ever visible there.\<close>

theorem content_shows_active_tab:
  assumes "engine_ok E" "host_ok H E" "reachable H E argv b" "0 < count b"
    and "0 \<le> X" "X < w_width (window b) * w_scale (window b)"
    and "CONTENT_Y * w_scale (window b) \<le> Y" "Y < w_height (window b) * w_scale (window b)"
  shows "pix (fb b) (Y * w_stride (window b) + X) =
    view_pixel (views b (t_view (ACTIVE b))) X (Y - CONTENT_Y * w_scale (window b))"
proof -
  have "display_ok b" "content_ok b"
    using reachable_inv [OF assms(3,1,2)] assms(4) by (auto simp: browser_ok_def finished_def)
  moreover from this(1) have "in_content (surface b) X Y"
    using assms by (simp add: display_ok_def content_surface_def in_content_def)
  ultimately show ?thesis by (simp add: content_ok_def)
qed

theorem content_shows_active_tab_witness:
  "pix (fb sample_browser) (100 * 960 + 5) =
     view_pixel (views sample_browser (t_view (ACTIVE sample_browser))) 5 16"
proof -
  have "window sample_browser = sample_window" using sample_facts(6) by (simp add: sample_host_def)
  then show ?thesis
    using content_shows_active_tab [OF sample_engine_ok sample_host_ok sample_reachable, of 5 100] sample_facts(4)
    by (simp add: sample_window_def layout_defs WINDOW_WIDTH_def WINDOW_HEIGHT_def)
qed


text \<open>The open tabs, by web view.\<close>

definition open_tabs :: "browser \<Rightarrow> webview list" where
  "open_tabs b = map t_web_view (take (count b) (tabs b))"

lemma open_tabs_nth: "tabs_ok E b \<Longrightarrow> i < count b \<Longrightarrow> open_tabs b ! i = t_web_view (tabs b ! i)"
  by (auto simp: open_tabs_def tabs_ok_def)

lemma length_open_tabs: "tabs_ok E b \<Longrightarrow> length (open_tabs b) = count b"
  by (simp add: open_tabs_def tabs_ok_def)

text \<open>C22: Closing one of several tabs removes exactly that tab, keeps the others in order, and
  leaves the active tab active; closing the active tab itself makes its right neighbour active,
  or its left neighbour when it was the last.\<close>

theorem close_tab_keeps_others:
  assumes "engine_ok E" "browser_ok E b" "index < count b" "1 < count b"
  defines "b' \<equiv> close_tab E index b"
  shows "browser_ok E b' \<and> open_tabs b' = remove_nth index (open_tabs b) \<and>
    t_web_view (ACTIVE b') = open_tabs b !
      (if index \<noteq> active b then active b else if index + 1 < count b then index + 1 else index - 1)"
proof -
  note c = close_tab_ok [OF assms(1-4), folded b'_def]
  have t: "tabs_ok E b" "tabs_ok E b'" "active b' < count b'"
    using assms(2) c(1) by (auto simp: browser_ok_def shown_ok_def)
  have o: "open_tabs b' = remove_nth index (open_tabs b)"
    using c(3,5) by (simp add: open_tabs_def map_remove_nth)
  have "t_web_view (ACTIVE b') = remove_nth index (open_tabs b) ! next_active index b"
    using open_tabs_nth [OF t(2,3)] o c(4) by simp
  also have "\<dots> = open_tabs b ! (if next_active index b < index then next_active index b else next_active index b + 1)"
    using length_open_tabs [OF t(1)] assms(3) t(3) c(3,4) by (simp add: nth_remove_nth)
  also have "(if next_active index b < index then next_active index b else next_active index b + 1) =
      (if index \<noteq> active b then active b else if index + 1 < count b then index + 1 else index - 1)"
    using assms(3,4) active_bound [OF assms(2)] by (auto simp: next_active_def)
  finally show ?thesis using c(1) o by simp
qed

text \<open>A browser with two tabs, the second active.\<close>

definition sample_two :: browser where
  "sample_two = snd (open_tab sample_engine None sample_browser)"

lemma sample_two: "browser_ok sample_engine sample_two" "count sample_two = 2" "active sample_two = 1"
  using open_tab_ok(3) [OF sample_engine_ok browser_ok_switchable [OF sample_facts(1)], of None] sample_facts(4)
  by (simp_all add: sample_two_def tab_opened_def MAX_TABS_def)

theorem close_tab_keeps_others_witness:
  "open_tabs (close_tab sample_engine 0 sample_two) = remove_nth 0 (open_tabs sample_two) \<and>
   t_web_view (ACTIVE (close_tab sample_engine 0 sample_two)) = open_tabs sample_two ! 1"
  using close_tab_keeps_others [OF sample_engine_ok sample_two(1), of 0] sample_two(2,3) by simp

text \<open>Opening a tab with six open does nothing; otherwise the new web view is appended to
  the tabs, becomes the active tab, and loads the address as its last action.\<close>

theorem open_tab_appends:
  assumes "engine_ok E" "browser_ok E b"
  shows "if count b = MAX_TABS then open_tab E (Some uri) b = (None, b)
    else \<exists>w b'. open_tab E (Some uri) b = (Some w, b') \<and> browser_ok E b' \<and> w \<notin> set (open_tabs b) \<and>
      open_tabs b' = open_tabs b @ [w] \<and> t_web_view (ACTIVE b') = w \<and>
      last (trace b') = LoadUri w (address_to_url uri)"
proof (cases "count b = MAX_TABS")
  case False
  then have c: "count b < MAX_TABS" using count_cases [OF assms(2)] by simp
  note s = browser_ok_switchable [OF assms(2)]
  note o = open_tab_ok(2,3) [OF assms(1) s c, of "Some uri"]
  let ?w = "new_web_view E (trace b)"
  obtain b' where b': "open_tab E (Some uri) b = (Some ?w, b')"
    using o(1) by (cases "open_tab E (Some uri) b") auto
  have t: "tab_opened E b b'" using o(2) b' by simp
  have "w \<noteq> ?w" if "w \<in> set (open_tabs b)" for w
    using that assms by (auto simp: open_tabs_def browser_ok_def tabs_ok_def engine_ok_def)
  moreover have "open_tabs b' = open_tabs b @ [?w]"
    using t by (auto simp: tab_opened_def open_tabs_def browser_ok_def tabs_ok_def take_Suc_conv_app_nth)
  moreover have "last (trace b') = LoadUri ?w (address_to_url uri)"
    using b' False by (auto simp: open_tab_eq Let_def)
  ultimately show ?thesis using t b' False by (auto simp: tab_opened_def)
qed (use open_tab_ok(1) [OF assms(1) browser_ok_switchable [OF assms(2)]] in simp)

theorem open_tab_appends_witness:
  "\<exists>w b'. open_tab sample_engine (Some ''orange.example'') sample_browser = (Some w, b') \<and>
     open_tabs b' = open_tabs sample_browser @ [w]"
  using open_tab_appends [OF sample_engine_ok sample_facts(1), of "''orange.example''"] sample_facts(4)
  by (auto simp: MAX_TABS_def)


section \<open>Moving between tabs\<close>

lemma chrome_keeps_input [simp]:
  "modifiers (draw_tabs E b) = modifiers b" "modifiers (draw_toolbar E b) = modifiers b"
  "modifiers (show_uri E b) = modifiers b" "modifiers (log_tabs E b) = modifiers b"
  "editing (draw_tabs E b) = editing b" "editing (draw_toolbar E b) = editing b"
  "editing (show_uri E b) = editing b" "editing (log_tabs E b) = editing b"
  "quit (draw_tabs E b) = quit b" "quit (draw_toolbar E b) = quit b"
  "quit (show_uri E b) = quit b" "quit (log_tabs E b) = quit b"
  by (simp_all add: draw_tabs_def draw_toolbar_def show_uri_def log_tabs_def)

lemma activate_input:
  assumes "engine_ok E" "switchable E b" "index < count b"
  shows "modifiers (activate E index b) = modifiers b" "\<not> editing (activate E index b)"
    "quit (activate E index b) = quit b"
proof -
  let ?s = "switch_to index b"
  have eq: "activate E index b = log_tabs E (draw_toolbar E (draw_tabs E (show_uri E
      (emit [FocusIn (t_view (ACTIVE ?s))] ?s))))"
    by (simp add: activate_def switch_to_def Let_def)
  have "modifiers ?s = modifiers b" "\<not> editing ?s" "quit ?s = quit b"
    using switch_to_ok [OF assms(1) _ _ assms(3)] assms(2) by (auto simp: switchable_def)
  then show "modifiers (activate E index b) = modifiers b" "\<not> editing (activate E index b)"
    "quit (activate E index b) = quit b"
    by (simp_all add: eq)
qed

lemma shortcut_tab:
  assumes "KEYBOARD_CONTROL \<in> modifiers b" "keyval = XK_Tab \<or> keyval = XK_ISO_Left_Tab" "1 < count b"
  shows "shortcut E keyval b = (True, activate E ((active b + cycle_step keyval b) mod count b) b)"
  using assms by (auto simp: shortcut_def keysyms)

lemma tab_key_step:
  assumes "engine_ok E" "browser_ok E b" "KEYBOARD_CONTROL \<in> modifiers b"
    "keyval = XK_Tab \<or> keyval = XK_ISO_Left_Tab" "1 < count b"
  defines "b' \<equiv> snd (shortcut E keyval b)"
  shows "browser_ok E b'" "active b' = (active b + cycle_step keyval b) mod count b" "count b' = count b"
    "modifiers b' = modifiers b" "tabs b' = tabs b"
proof -
  note s = browser_ok_switchable [OF assms(2)]
  have i: "(active b + cycle_step keyval b) mod count b < count b" using assms(5) by simp
  show "browser_ok E b'" "active b' = (active b + cycle_step keyval b) mod count b" "count b' = count b"
    "modifiers b' = modifiers b" "tabs b' = tabs b"
    using activate_ok [OF assms(1) s i] activate_input(1) [OF assms(1) s i] shortcut_tab [OF assms(3-5)]
    by (simp_all add: b'_def)
qed

text \<open>Ctrl+Tab pressed \<open>n\<close> times moves \<open>n\<close> tabs to the right around the strip, so it
  visits every tab and comes back; Ctrl+Shift+Tab (\<open>ISO_Left_Tab\<close>) undoes one step.\<close>

theorem ctrl_tab_cycles:
  assumes "engine_ok E" "browser_ok E b" "1 < count b"
    and "KEYBOARD_CONTROL \<in> modifiers b" "KEYBOARD_SHIFT \<notin> modifiers b"
  shows "active (((\<lambda>b. snd (shortcut E XK_Tab b)) ^^ n) b) = (active b + n) mod count b \<and>
    active (snd (shortcut E XK_ISO_Left_Tab (snd (shortcut E XK_Tab b)))) = active b"
proof -
  let ?f = "\<lambda>b. snd (shortcut E XK_Tab b)"
  have a: "active b < count b" by (rule active_bound [OF assms(2)])
  have inv: "browser_ok E ((?f ^^ n) b) \<and> count ((?f ^^ n) b) = count b \<and> modifiers ((?f ^^ n) b) = modifiers b \<and>
      active ((?f ^^ n) b) = (active b + n) mod count b" for n
  proof (induction n)
    case 0
    then show ?case using assms(2) a by simp
  next
    case (Suc n)
    note st = tab_key_step [OF assms(1), of "(?f ^^ n) b" XK_Tab]
    have "cycle_step XK_Tab ((?f ^^ n) b) = 1"
      using Suc assms(5) by (simp add: cycle_step_def keysyms)
    then show ?case
      using st Suc assms(3,4) by (simp add: mod_Suc_eq)
  qed
  have one: "browser_ok E (?f b)" "count (?f b) = count b" "modifiers (?f b) = modifiers b"
      "active (?f b) = (active b + 1) mod count b"
    using inv [of 1] by simp_all
  have "active (snd (shortcut E XK_ISO_Left_Tab (?f b))) = ((active b + 1) mod count b + (count b - 1)) mod count b"
    using tab_key_step(2) [OF assms(1) one(1), of XK_ISO_Left_Tab] one(2-4) assms(3,4)
    by (simp add: cycle_step_def)
  also have "\<dots> = (active b + 1 + (count b - 1)) mod count b"
    by (simp only: mod_add_left_eq)
  also have "\<dots> = active b"
    using a assms(3) by simp
  finally show ?thesis using inv [of n] by simp
qed

theorem ctrl_tab_cycles_witness:
  "active (((\<lambda>b. snd (shortcut sample_engine XK_Tab b)) ^^ 3) (sample_two\<lparr>modifiers := {KEYBOARD_CONTROL}\<rparr>)) = 0"
proof -
  let ?b = "sample_two\<lparr>modifiers := {KEYBOARD_CONTROL}\<rparr>"
  have "browser_ok sample_engine ?b" by (rule quiet_browser_ok [OF quiet_update(4) sample_two(1)])
  then show ?thesis
    using ctrl_tab_cycles [OF sample_engine_ok, of ?b 3] sample_two(2,3) by simp
qed

section \<open>After the last tab\<close>

text \<open>C39: Closing the only tab ends the main loop, but the sources of the same iteration still
  run: a second Ctrl+W there (a key repeat that is already queued) calls \<open>close_tab\<close> with no
  tab open, whose \<open>memmove\<close> then has a negative length.\<close>

theorem close_after_last_overruns:
  assumes "engine_ok E" "browser_ok E b" "count b = 1" "KEYBOARD_CONTROL \<in> modifiers b"
    and "pe_kind e = 1" "pe_code e = 0x11" "pe_value e = 1"
  shows "overrun (fold (run_source E) [Incoming (InPeel e), Incoming (InPeel e)] b)"
proof -
  have tr: "orange_key_translate 17 False m = Some (25, if (KEYBOARD_SHIFT \<in> m) \<noteq> (KEYBOARD_CAPS_LOCK \<in> m) then 87 else 119)" for m
    by (simp add: orange_key_translate_def plain_code shifted_code is_letter_def Let_def)
  have e: "key_pressed e" "\<not> key_extended e" "unat (pe_code e) = 17" "orange_key_modifier 17 False = {}"
    "track_modifiers e m = m" for m
    using assms(5-7) by (simp_all add: key_pressed_def key_extended_def orange_key_modifier_def track_modifiers_def Let_def)
  have w: "run_source E (Incoming (InPeel e)) c = close_tab E (active c) (emit [Received (InPeel e)] c)"
    if "KEYBOARD_CONTROL \<in> modifiers c" for c
    using that assms(5) by (simp add: dispatch_def handle_key_def Let_def e tr shortcut_def)
  let ?c = "emit [Received (InPeel e)] b"
  have ok: "browser_ok E ?c" by (rule quiet_browser_ok [OF quiet_update(7) assms(2)])
  have a: "active b = 0" using active_bound [OF assms(2)] assms(3) by simp
  have z: "count (close_tab E 0 ?c) = 0" "modifiers (close_tab E 0 ?c) = modifiers b"
    using close_last_ok(1) [OF assms(1) ok] assms(3) close_tab_eq [of 0 ?c E] a
    by (simp_all add: take_out_def Let_def)
  show ?thesis
    using w [OF assms(4)] w [of "close_tab E 0 ?c"] z assms(4) a by (simp add: close_tab_def)
qed


theorem close_after_last_overruns_witness:
  "overrun (fold (run_source sample_engine)
     (replicate 2 (Incoming (InPeel \<lparr>pe_kind = 1, pe_code = 0x11, pe_value = 1, pe_x = 0, pe_y = 0\<rparr>)))
     (sample_browser\<lparr>modifiers := {KEYBOARD_CONTROL}\<rparr>))"
proof -
  let ?b = "sample_browser\<lparr>modifiers := {KEYBOARD_CONTROL}\<rparr>"
  let ?e = "\<lparr>pe_kind = 1, pe_code = 0x11, pe_value = 1, pe_x = 0, pe_y = 0\<rparr> :: peel_event"
  have "browser_ok sample_engine ?b" by (rule quiet_browser_ok [OF quiet_update(4) sample_facts(1)])
  from close_after_last_overruns [OF sample_engine_ok this, of ?e] sample_facts(4)
  show ?thesis by (simp add: numeral_2_eq_2)
qed

end
