(* ===== verification/BrowserInput.thy ===== *)
theory BrowserInput
  imports BrowserTabs
begin

unbundle bit_operations_syntax

text \<open>
  The address field and the mapping of Peel's input events to WPE events and to clicks on the
  tab strip and the toolbar: what each does, on every branch.
\<close>

section \<open>Addresses\<close>

lemma strstr_sublist: "strstr s needle \<longleftrightarrow> sublist needle s"
  by (induction s needle rule: strstr.induct) (auto simp: sublist_Cons_right)

definition has_scheme :: "string \<Rightarrow> bool" where
  "has_scheme url \<longleftrightarrow> sublist ''://'' url \<or> prefix ''about:'' url \<or> prefix ''file:'' url"

lemma address_to_url_head: "\<not> prefix '' '' (address_to_url typed)"
proof -
  have "\<not> prefix '' '' (dropWhile (\<lambda>c. c = CHR '' '') typed)"
    by (induction typed) simp_all
  then show ?thesis unfolding address_to_url_def Let_def by simp
qed

lemma address_to_url_keep:
  assumes "has_scheme u" "\<not> prefix '' '' u"
  shows "address_to_url u = u"
proof -
  have d: "dropWhile (\<lambda>c. c = CHR '' '') u = u" using assms(2) by (cases u) simp_all
  show ?thesis
    using assms(1) unfolding address_to_url_def Let_def d has_scheme_def strstr_sublist by simp
qed

lemma address_to_url_has_scheme: "has_scheme (address_to_url typed)"
proof -
  let ?t = "dropWhile (\<lambda>c. c = CHR '' '') typed"
  have "sublist ''://'' (''https'' @ ''://'' @ ?t)" by (rule sublist_appendI)
  then have "sublist ''://'' (''https://'' @ ?t)" by simp
  then show ?thesis
    unfolding address_to_url_def Let_def strstr_sublist has_scheme_def by simp
qed

text \<open>\<open>address_to_url\<close> always gives a URL with a scheme and no leading space, keeps an
  address that has one, and changes nothing when it is applied to its own result.\<close>

theorem address_to_url_scheme:
  "has_scheme (address_to_url typed) \<and> \<not> prefix '' '' (address_to_url typed) \<and>
   address_to_url (address_to_url typed) = address_to_url typed \<and>
   (address_to_url typed = typed \<longleftrightarrow> has_scheme typed \<and> \<not> prefix '' '' typed)"
  using address_to_url_head [of typed] address_to_url_has_scheme [of typed]
    address_to_url_keep [of "address_to_url typed"] address_to_url_keep [of typed]
  by metis

section \<open>Editing the address\<close>

lemma chrome_keeps_address [simp]:
  "address (draw_toolbar E b) = address b" "replace (draw_toolbar E b) = replace b"
  "tabs (draw_toolbar E b) = tabs b" "active (draw_toolbar E b) = active b"
  by (simp_all add: draw_toolbar_def)

text \<open>Keys that the address field takes as text.\<close>

definition typed_char :: "char \<Rightarrow> bool" where
  "typed_char c \<longleftrightarrow> 0x20 \<le> (of_char c :: int) \<and> (of_char c :: int) < 0x7f"

lemma address_key_char:
  fixes E :: engine
  assumes "typed_char c" "KEYBOARD_CONTROL \<notin> modifiers b" "KEYBOARD_ALT \<notin> modifiers b"
  defines "b' \<equiv> address_key E (of_char c) b"
  shows "address b' = (if replace b then [] else address b) @ [c]" "\<not> replace b'"
    "modifiers b' = modifiers b" "editing b' = editing b" "tabs b' = tabs b" "active b' = active b"
proof -
  have "nat (of_char c) = (of_char c :: nat)" by (metis nat_int of_char_of of_nat_of_char)
  moreover have "(of_char c :: int) \<noteq> XK_Return" "(of_char c :: int) \<noteq> XK_KP_Enter"
    "(of_char c :: int) \<noteq> XK_Escape" "(of_char c :: int) \<noteq> XK_BackSpace"
    using assms(1) by (auto simp: typed_char_def keysyms)
  ultimately show "address b' = (if replace b then [] else address b) @ [c]" "\<not> replace b'"
    "modifiers b' = modifiers b" "editing b' = editing b" "tabs b' = tabs b" "active b' = active b"
    using assms(1-3) by (simp_all add: b'_def address_key_def printable_def typed_char_def)
qed

lemma typing:
  fixes E :: engine
  assumes "KEYBOARD_CONTROL \<notin> modifiers b" "KEYBOARD_ALT \<notin> modifiers b" "list_all typed_char cs"
  defines "b' \<equiv> fold (\<lambda>c. address_key E (of_char c)) cs b"
  shows "address b' = (if replace b \<and> cs \<noteq> [] then [] else address b) @ cs"
    "modifiers b' = modifiers b" "editing b' = editing b" "tabs b' = tabs b" "active b' = active b"
proof -
  have "address (fold (\<lambda>c. address_key E (of_char c)) cs b) = (if replace b \<and> cs \<noteq> [] then [] else address b) @ cs \<and>
    modifiers (fold (\<lambda>c. address_key E (of_char c)) cs b) = modifiers b \<and>
    editing (fold (\<lambda>c. address_key E (of_char c)) cs b) = editing b \<and>
    tabs (fold (\<lambda>c. address_key E (of_char c)) cs b) = tabs b \<and>
    active (fold (\<lambda>c. address_key E (of_char c)) cs b) = active b"
    using assms(1-3)
  proof (induction cs arbitrary: b)
    case (Cons c cs)
    note k = address_key_char [of c b E]
    show ?case
      using Cons.IH [of "address_key E (of_char c) b"] Cons.prems k by auto
  qed simp
  then show "address b' = (if replace b \<and> cs \<noteq> [] then [] else address b) @ cs"
    "modifiers b' = modifiers b" "editing b' = editing b" "tabs b' = tabs b" "active b' = active b"
    by (simp_all add: b'_def)
qed

lemma edit_address_simps:
  "editing (edit_address E clear b)" "modifiers (edit_address E clear b) = modifiers b"
  "replace (edit_address E clear b) = (\<not> clear)" "address (edit_address E clear b) = (if clear then [] else address b)"
  "tabs (edit_address E clear b) = tabs b" "active (edit_address E clear b) = active b"
  by (simp_all add: edit_address_def Let_def)

text \<open>Text typed after focusing the address field, by Ctrl+L or by a click, replaces what
  the field showed, and Return loads exactly that text, as a URL, in the active tab and gives
  the keyboard back to the page.\<close>

theorem typed_address_loads:
  fixes E :: engine and clear :: bool
  assumes "KEYBOARD_CONTROL \<notin> modifiers b" "KEYBOARD_ALT \<notin> modifiers b" "cs \<noteq> []" "list_all typed_char cs"
  defines "b1 \<equiv> fold (\<lambda>c. address_key E (of_char c)) cs (edit_address E clear b)"
  defines "b2 \<equiv> address_key E XK_Return b1"
  shows "editing b1 \<and> address b1 = cs \<and> \<not> editing b2 \<and>
    trace b2 = trace b1 @ [LoadUri (t_web_view (ACTIVE b)) (address_to_url cs), FocusIn (t_view (ACTIVE b)),
      PeelCommit 0 TABBAR (w_width (window b1)) TOOLBAR]"
proof -
  note e = edit_address_simps [of E clear b]
  note t = typing [of "edit_address E clear b" cs E, folded b1_def]
  have f: "editing b1" "address b1 = cs" "tabs b1 = tabs b" "active b1 = active b"
    using t e assms(1-4) by (auto split: if_splits)
  have "b2 = navigate E b1" by (simp add: b2_def address_key_def)
  with f show ?thesis
    by (simp add: navigate_def Let_def show_uri_def draw_toolbar_def)
qed

theorem typed_address_loads_witness:
  "address (fold (\<lambda>c. address_key sample_engine (of_char c)) ''a.b''
     (edit_address sample_engine False (sample_browser\<lparr>modifiers := {}\<rparr>))) = ''a.b''"
  using typed_address_loads [of "sample_browser\<lparr>modifiers := {}\<rparr>" "''a.b''" sample_engine False]
  by (simp add: typed_char_def)

text \<open>BackSpace undoes the last typed character, does nothing to an empty field, and Escape
  leaves the field with the address of the page restored.\<close>

theorem address_undo:
  assumes "typed_char c" "KEYBOARD_CONTROL \<notin> modifiers b" "KEYBOARD_ALT \<notin> modifiers b" "\<not> replace b"
  shows "address (address_key E XK_BackSpace (address_key E (of_char c) b)) = address b \<and>
    (address b = [] \<longrightarrow> address (address_key E XK_BackSpace b) = []) \<and>
    \<not> editing (address_key E XK_Escape b) \<and> address (address_key E XK_Escape b) = uri_or_empty E b"
proof -
  have bs: "address (address_key E XK_BackSpace u) = butlast (address u)" for u
    by (simp add: address_key_def keysyms)
  have "\<not> editing (address_key E XK_Escape b) \<and> address (address_key E XK_Escape b) = uri_or_empty E b"
    by (simp add: address_key_def keysyms Let_def show_uri_def uri_or_empty_def)
  then show ?thesis
    using bs [of b] bs [of "address_key E (of_char c) b"] address_key_char(1) [OF assms(1-3)] assms(4) by simp
qed


theorem address_undo_witness:
  "address (address_key sample_engine XK_BackSpace (address_key sample_engine (of_char (CHR ''x''))
     (sample_browser\<lparr>modifiers := {}, replace := False\<rparr>))) = address sample_browser"
  using address_undo [of "CHR ''x''" "sample_browser\<lparr>modifiers := {}, replace := False\<rparr>" sample_engine]
  by (simp add: typed_char_def)


section \<open>What reaches the page\<close>

definition page_events :: "history \<Rightarrow> call list" where
  "page_events tr = filter (\<lambda>c. case c of ViewEvent _ _ \<Rightarrow> True | _ \<Rightarrow> False) tr"

lemma page_events_simps [simp]:
  "page_events [] = []" "page_events (tr @ tr') = page_events tr @ page_events tr'"
  "page_events (c # tr) = (case c of ViewEvent _ _ \<Rightarrow> [c] | _ \<Rightarrow> []) @ page_events tr"
  by (simp_all add: page_events_def split: call.split)

lemma page_events_set_active [simp]:
  "page_events (trace (orange_view_set_active v a s)) = page_events (trace s)"
  by (simp add: orange_view_set_active_def Let_def)

lemma page_events_chrome [simp]:
  "page_events (trace (draw_tabs E b)) = page_events (trace b)"
  "page_events (trace (draw_toolbar E b)) = page_events (trace b)"
  "page_events (trace (show_uri E b)) = page_events (trace b)"
  "page_events (trace (log_tabs E b)) = page_events (trace b)"
  by (simp_all add: draw_tabs_def draw_toolbar_def show_uri_def log_tabs_def)

lemma page_events_activate [simp]: "page_events (trace (activate E index b)) = page_events (trace b)"
proof -
  have "page_events (trace (fold (\<lambda>i b. if i = index then b else hide_tab i b) is b)) = page_events (trace b)" for "is"
    by (induction "is" arbitrary: b) simp_all
  then show ?thesis by (simp add: activate_def Let_def)
qed

lemma page_events_add_tab [simp]: "page_events (trace (add_tab E w b)) = page_events (trace b)"
  by (auto simp: add_tab_def Let_def tab_signals_def)

lemma page_events_open_tab [simp]: "page_events (trace (snd (open_tab E uri b))) = page_events (trace b)"
proof (cases "count b = MAX_TABS")
  case False
  then show ?thesis by (simp add: open_tab_eq Let_def split: option.split)
qed (simp add: open_tab_def)

lemma page_events_edit [simp]: "page_events (trace (edit_address E clear b)) = page_events (trace b)"
  by (simp add: edit_address_def Let_def)

lemma page_events_close [simp]: "page_events (trace (close_tab E index b)) = page_events (trace b)"
  by (simp add: close_tab_def Let_def)

lemma page_events_address_key [simp]: "page_events (trace (address_key E keyval b)) = page_events (trace b)"
proof -
  have "page_events (trace (navigate E b)) = page_events (trace b)"
    by (simp add: navigate_def Let_def)
  then show ?thesis by (simp add: address_key_def Let_def)
qed

lemma page_events_shortcut [simp]: "page_events (trace (snd (shortcut E keyval b))) = page_events (trace b)"
proof -
  have "page_events (trace b1) = page_events (trace b)" if "open_tab E (Some START_PAGE) b = (r, b1)" for r b1
    using page_events_open_tab [of E "Some START_PAGE" b] that by simp
  then show ?thesis by (auto simp: shortcut_def split: prod.split option.split)
qed




section \<open>Modifier keys\<close>

text \<open>Pressing and releasing a modifier key sets and clears its modifier and no other; Caps
  Lock toggles its modifier on each press and ignores the release; no other key changes the
  modifiers.\<close>

theorem modifier_tracking:
  fixes press release :: peel_event
  assumes "pe_code release = pe_code press" "key_pressed press" "\<not> key_pressed release"
    "key_extended release = key_extended press"
  defines "m \<equiv> orange_key_modifier (unat (pe_code press)) (key_extended press)"
  shows "if m \<noteq> {} then track_modifiers press mods = mods \<union> m \<and> track_modifiers release (mods \<union> m) = mods - m
    else if pe_code press = 0x3A \<and> \<not> key_extended press then
      track_modifiers release mods = mods \<and> track_modifiers press (track_modifiers press mods) = mods \<and>
      (KEYBOARD_CAPS_LOCK \<in> track_modifiers press mods \<longleftrightarrow> KEYBOARD_CAPS_LOCK \<notin> mods)
    else track_modifiers press mods = mods \<and> track_modifiers release mods = mods"
  using assms by (auto simp: track_modifiers_def Let_def m_def)

theorem modifier_tracking_witness:
  "track_modifiers \<lparr>pe_kind = 1, pe_code = 0x2A, pe_value = 1, pe_x = 0, pe_y = 0\<rparr> {KEYBOARD_ALT} =
     {KEYBOARD_ALT, KEYBOARD_SHIFT}"
  using modifier_tracking [of "\<lparr>pe_kind = 1, pe_code = 0x2A, pe_value = 0, pe_x = 0, pe_y = 0\<rparr>"
      "\<lparr>pe_kind = 1, pe_code = 0x2A, pe_value = 1, pe_x = 0, pe_y = 0\<rparr>" "{KEYBOARD_ALT}"]
  by (auto simp: key_pressed_def key_extended_def orange_key_modifier_def)

section \<open>Mouse and wheel over the page\<close>

text \<open>The calls a handler added to the trace.\<close>

definition new_calls :: "browser \<Rightarrow> browser \<Rightarrow> call list" where
  "new_calls b b' = drop (length (trace b)) (trace b')"

lemma and_bit: "((w :: u32) AND 1 \<noteq> 0) = bit w 0" "(w AND 2 \<noteq> 0) = bit w 1" "(w AND 4 \<noteq> 0) = bit w 2"
  using and_exp_eq_0_iff_not_bit [of w 0] and_exp_eq_0_iff_not_bit [of w 1] and_exp_eq_0_iff_not_bit [of w 2] by auto

lemma and_bit_zero: "((w :: u32) AND 1 = 0) = (\<not> bit w 0)" "(w AND 2 = 0) = (\<not> bit w 1)" "(w AND 4 = 0) = (\<not> bit w 2)"
  using and_bit by blast+

text \<open>The number WPE gives the button of each of Peel's bits: left 1, right 3, middle 2.\<close>

definition wpe_button :: "nat \<Rightarrow> nat" where
  "wpe_button k = (if k = 0 then 1 else if k = 1 then 3 else 2)"

lemma button_events_iff:
  "ViewEvent u (PointerButton down mods n x' y') \<in> set (button_events v (code XOR old) code m x y) \<longleftrightarrow>
     u = v \<and> mods = m \<and> x' = x \<and> y' = y \<and>
     (\<exists>k<3. n = wpe_button k \<and> bit code k \<noteq> bit old k \<and> down = bit code k)"
proof -
  have three: "(\<exists>k<3. P k) \<longleftrightarrow> P 0 \<or> P 1 \<or> P (2::nat)" for P
    by (auto simp: numeral_3_eq_3 less_Suc_eq numeral_2_eq_2)
  show ?thesis
    unfolding three by (auto simp: button_events_def mouse_buttons_def and_bit and_bit_zero wpe_button_def bit_xor_iff)
qed

lemma held_modifiers_eq:
  "held_modifiers code mods = mods \<union>
     (if bit code 0 then {POINTER_BUTTON1} else {}) \<union> (if bit code 2 then {POINTER_BUTTON2} else {}) \<union>
     (if bit code 1 then {POINTER_BUTTON3} else {})"
  by (auto simp: held_modifiers_def mouse_buttons_def and_bit)

text \<open>A mouse event over the page reports, for each of the three buttons whose state changed
  since the last event and for no other, one button event to the active tab's view, with WPE's
  number for it (left 1, middle 2, right 3), the right direction, the position relative to
  the page and the held buttons among the modifiers.\<close>

theorem mouse_reports_changes:
  assumes "CONTENT_Y \<le> pe_y e"
  shows "ViewEvent u (PointerButton down mods n x y) \<in> set (new_calls b (handle_mouse E e b)) \<longleftrightarrow>
    u = t_view (ACTIVE b) \<and> x = pe_x e \<and> y = pe_y e - CONTENT_Y \<and>
    mods = modifiers b \<union> (if bit (pe_code e) 0 then {POINTER_BUTTON1} else {}) \<union>
      (if bit (pe_code e) 2 then {POINTER_BUTTON2} else {}) \<union> (if bit (pe_code e) 1 then {POINTER_BUTTON3} else {}) \<and>
    (\<exists>k<3. n = wpe_button k \<and> bit (pe_code e) k \<noteq> bit (buttons b) k \<and> down = bit (pe_code e) k)"
proof -
  let ?v = "t_view (ACTIVE b)" and ?m = "held_modifiers (pe_code e) (modifiers b)"
  let ?ev = "button_events ?v (pe_code e XOR buttons b) (pe_code e) ?m (pe_x e) (pe_y e - CONTENT_Y)"
  have y: "\<not> pe_y e < CONTENT_Y" "\<not> pe_y e < TABBAR" using assms by (auto simp: layout_defs)
  have "\<exists>cs. new_calls b (handle_mouse E e b) = cs @ ViewEvent ?v (PointerMove ?m (pe_x e) (pe_y e - CONTENT_Y)) # ?ev \<and>
      set cs \<subseteq> {PeelCommit 0 TABBAR (w_width (window b)) TOOLBAR, FocusIn ?v}"
    using y by (auto simp: handle_mouse_def Let_def new_calls_def draw_toolbar_def show_uri_def)
  then obtain cs where cs: "new_calls b (handle_mouse E e b) =
      cs @ ViewEvent ?v (PointerMove ?m (pe_x e) (pe_y e - CONTENT_Y)) # ?ev"
    "set cs \<subseteq> {PeelCommit 0 TABBAR (w_width (window b)) TOOLBAR, FocusIn ?v}" by blast
  then have "ViewEvent u (PointerButton down mods n x y) \<in> set (new_calls b (handle_mouse E e b)) \<longleftrightarrow>
      ViewEvent u (PointerButton down mods n x y) \<in> set ?ev"
    by auto
  then show ?thesis
    unfolding button_events_iff held_modifiers_eq by blast
qed

theorem mouse_reports_changes_witness:
  "ViewEvent (t_view (ACTIVE sample_browser)) (PointerButton True {POINTER_BUTTON3} 3 10 16) \<in>
     set (new_calls (sample_browser\<lparr>modifiers := {}, buttons := 0\<rparr>) (handle_mouse sample_engine
       \<lparr>pe_kind = 2, pe_code = 2, pe_value = 0, pe_x = 10, pe_y = 100\<rparr> (sample_browser\<lparr>modifiers := {}, buttons := 0\<rparr>)))"
proof -
  have b: "\<not> bit (2 :: u32) 0" "bit (2 :: u32) 1" "\<not> bit (2 :: u32) 2"
    by (simp_all add: bit_iff_odd_drop_bit)
  show ?thesis
    by (subst mouse_reports_changes) (auto simp: b layout_defs wpe_button_def intro: exI [of _ 1])
qed

lemma sint_byte: "sint (w :: u8) = (if unat w < 128 then int (unat w) else int (unat w) - 256)"
proof -
  have r: "0 \<le> uint w" "uint w < 256" using uint_lt2p [of w] by simp_all
  have q: "uint w div 128 = (if 128 \<le> uint w then 1 else 0)"
    using r by (simp add: div_pos_pos_trivial) linarith
  have b: "bit (uint w) 7 \<longleftrightarrow> 128 \<le> uint w"
    unfolding bit_iff_odd by (simp add: q)
  have s: "sint w = take_bit 8 (uint w) - 256 * of_bool (bit (uint w) 7)"
    using signed_take_bit_eq_take_bit_minus [of 7 "uint w"] by (simp add: sint_uint)
  have t: "take_bit 8 (uint w) = uint w" using r by (simp add: take_bit_int_eq_self)
  have i: "int (unat w) = uint w" by simp
  have j: "unat w < 128 \<longleftrightarrow> \<not> 128 \<le> uint w" unfolding i [symmetric] by linarith
  show ?thesis unfolding s t b j i by simp
qed
text \<open>A wheel event over the page is one scroll event for the active tab with the low byte
  of Peel's value, read as a signed number and negated, as its vertical delta; one over the
  tab strip or the toolbar does nothing.\<close>

theorem wheel_scrolls:
  fixes e :: peel_event and b :: browser
  defines "steps \<equiv> (if unat (pe_code e) mod 256 < 128 then int (unat (pe_code e) mod 256)
    else int (unat (pe_code e) mod 256) - 256)"
  shows "new_calls b (handle_wheel e b) =
      (if pe_y e < CONTENT_Y then []
       else [ViewEvent (t_view (ACTIVE b)) (Scroll (modifiers b) 0 (- steps) (pe_x e) (pe_y e - CONTENT_Y))]) \<and>
    - 127 \<le> - steps \<and> - steps \<le> 128"
proof -
  have u: "unat (ucast (pe_code e) :: u8) = unat (pe_code e) mod 256"
    by (simp add: unsigned_ucast_eq take_bit_eq_mod)
  have "sint (ucast (pe_code e) :: u8) = steps"
    unfolding steps_def u [symmetric] by (rule sint_byte)
  then show ?thesis
    by (auto simp: handle_wheel_def Let_def new_calls_def steps_def)
qed


section \<open>Clicks on the tab strip and the toolbar\<close>

lemma tab_zone:
  assumes "window_ok (window b)" "i < count b"
  shows "tab_x b (int i) + tab_width b \<le> tab_x b (int (count b))"
proof -
  have "0 \<le> tab_width b" using tabs_fit(1) [OF assms(1)] assms(2) by simp
  then have "(int i + 1) * tab_width b \<le> int (count b) * tab_width b"
    using assms(2) by (intro mult_right_mono) auto
  then show ?thesis by (simp add: tab_x_def algebra_simps)
qed

lemma on_tab_unique:
  assumes "window_ok (window b)" "on_tab b x i" "on_tab b x j" "i < count b" "j < count b"
  shows "i = j"
proof -
  have w: "0 \<le> tab_width b" using tabs_fit(1) [OF assms(1)] assms(4) by simp
  have no: False if "p < q" "on_tab b x p" "on_tab b x q" for p q :: nat
  proof -
    have "(int p + 1) * tab_width b \<le> int q * tab_width b" using that(1) w by (intro mult_right_mono) auto
    then show False using that by (simp add: on_tab_def tab_x_def algebra_simps)
  qed
  show ?thesis using no [of i j] no [of j i] assms by (cases i j rule: linorder_cases) auto
qed

lemma find_tab:
  assumes "window_ok (window b)" "on_tab b x i" "i < count b"
  shows "find (on_tab b x) [0..<count b] = Some i"
proof -
  have "find (on_tab b x) [0..<count b] \<noteq> None"
    using assms by (auto simp: find_None_iff)
  then obtain j where j: "find (on_tab b x) [0..<count b] = Some j" by auto
  then have "on_tab b x j" "j < count b" by (auto simp: find_Some_iff)
  with on_tab_unique [OF assms(1) _ assms(2) _ assms(3)] j show ?thesis by auto
qed

text \<open>A click on the tab strip acts on the tab that is drawn under it: the last 26 pixels
  of tab \<open>i\<close> close it, the rest of it selects it. Every tab lies inside the window and left of
  the \<open>+\<close> button, so no click hits two of them.\<close>

theorem tabbar_click_hits:
  assumes "window_ok (window b)" "i < count b"
    and "tab_x b (int i) \<le> x" "x < tab_x b (int i) + tab_width b - 4"
  shows "0 \<le> x \<and> x < plus_x b \<and> plus_x b + 28 \<le> w_width (window b) \<and>
    tabbar_click E x y b =
      (if tab_x b (int i) + tab_width b - 30 \<le> x then close_tab E i b
       else if i \<noteq> active b then activate E i b else b)"
proof -
  have "on_tab b x i" using assms(3,4) by (simp add: on_tab_def)
  note f = find_tab [OF assms(1) this assms(2)]
  have c: "0 < count b" using assms(2) by simp
  have "8 \<le> tab_x b (int i)" using tab_in_strip [OF assms(1), of "int i"] assms(2) by simp
  moreover have "plus_x b + 28 \<le> w_width (window b)"
    using tabs_fit(2) [OF assms(1) c] by (simp add: plus_x_def tab_x_def)
  ultimately show ?thesis
    using f tab_zone [OF assms(1,2)] assms(3,4) by (simp add: tabbar_click_def plus_x_def)
qed

theorem tabbar_click_hits_witness:
  "tabbar_click sample_engine 120 10 sample_two = close_tab sample_engine 0 sample_two \<or>
   tabbar_click sample_engine 120 10 sample_two = activate sample_engine 0 sample_two"
proof -
  have w: "window sample_two = sample_window"
    using open_tab_ok(3) [OF sample_engine_ok browser_ok_switchable [OF sample_facts(1)], of None] sample_facts(4,6)
    by (simp add: sample_two_def tab_opened_def MAX_TABS_def sample_host_def)
  have "window_ok (window sample_two)" using sample_two(1) by (simp add: browser_ok_def display_ok_def)
  moreover have "tab_width sample_two = 220"
    by (simp add: tab_width_def w sample_window_def WINDOW_WIDTH_def sample_two(2))
  ultimately show ?thesis
    using tabbar_click_hits [of sample_two 0 120 sample_engine 10] sample_two(2,3) by (simp add: tab_x_def)
qed

text \<open>A click on the toolbar goes to the active tab's history or reload for the three
  buttons, opens the address field from its left edge on, keeping what it shows, and does
  nothing in the gaps.\<close>

theorem toolbar_click_hits:
  "toolbar_click E x y b =
     (if 10 \<le> x \<and> x < 42 then emit [GoBack (t_web_view (ACTIVE b))] b
      else if 48 \<le> x \<and> x < 80 then emit [GoForward (t_web_view (ACTIVE b))] b
      else if 86 \<le> x \<and> x < 118 then emit [Reload (t_web_view (ACTIVE b))] b
      else if 130 \<le> x then edit_address E False b else b)"
  by (auto simp: toolbar_click_def on_button_def button_x_def button_index_def field_x_def BUTTON_COUNT_def Let_def)

end
