(* ===== verification/HdaStream.thy ===== *)
theory HdaStream
  imports Prelude
begin

text \<open>
  The sound driver's stream behind \<open>/dev/audio\<close> (\<open>kernel/drivers/audio/hda.zig\<close>, lines
  413 to 530): a ring the DMA engine plays in a loop, written just ahead of the play position
  and silenced behind it.

  The hardware's play position (\<open>SD_LPIB\<close>) is an input of each operation. Byte totals count
  from the first write; they are natural numbers, as 64 bits never wrap at 192 KB/s. What a
  system call does under \<open>stream_lock\<close> is one step.
\<close>

section \<open>State\<close>

definition BUFFER_BYTES :: nat where "BUFFER_BYTES = 192 * 1024"
definition FRAME_BYTES :: nat where "FRAME_BYTES = 4"
definition MAX_QUEUED :: nat where "MAX_QUEUED = 64 * 1024"
definition LEAD :: nat where "LEAD = 4096"
definition IDLE_STOP_MS :: nat where "IDLE_STOP_MS = 3000"

lemmas hda_consts = BUFFER_BYTES_def FRAME_BYTES_def MAX_QUEUED_def LEAD_def

record stream =
  running :: bool
  played_total :: nat
  written_total :: nat
  last_lpib :: nat
  idle_since_ms :: nat
  ring :: "nat \<Rightarrow> u8"

definition stream_init :: stream where
  "stream_init = \<lparr>running = False, played_total = 0, written_total = 0, last_lpib = 0, idle_since_ms = 0, ring = (\<lambda>_. 0)\<rparr>"

section \<open>Operations\<close>

definition store_ring :: "nat \<Rightarrow> u8 \<Rightarrow> stream \<Rightarrow> stream" where
  "store_ring t v s = s\<lparr>ring := (ring s)(t mod BUFFER_BYTES := v)\<rparr>"

definition zeroRing :: "nat \<Rightarrow> nat \<Rightarrow> stream \<Rightarrow> stream" where
  "zeroRing from len s = fold (\<lambda>k. store_ring (from + k) 0) [0..<len] s"

definition advanceLocked :: "nat \<Rightarrow> stream \<Rightarrow> stream" where
  "advanceLocked position s =
     (if \<not> running s then s
      else
        let lpib = position mod BUFFER_BYTES;
            delta = (if lpib \<ge> last_lpib s then lpib - last_lpib s else BUFFER_BYTES - last_lpib s + lpib)
        in (zeroRing (played_total s) delta s)\<lparr>played_total := played_total s + delta, last_lpib := lpib\<rparr>)"

definition startLocked :: "nat \<Rightarrow> stream \<Rightarrow> stream" where
  "startLocked position s =
     (if running s then s
      else s\<lparr>last_lpib := position mod BUFFER_BYTES, played_total := written_total s, running := True\<rparr>)"

definition stopLocked :: "stream \<Rightarrow> stream" where
  "stopLocked s = (if \<not> running s then s else s\<lparr>running := False, written_total := played_total s\<rparr>)"

definition queuedBytes :: "nat \<Rightarrow> stream \<Rightarrow> nat \<times> stream" where
  "queuedBytes position s = (let s' = advanceLocked position s in (written_total s' - played_total s', s'))"

text \<open>The copy loop of \<open>writeStream\<close>: chunks up to the end of the ring.\<close>

definition copy_ring :: "u8 list \<Rightarrow> nat \<Rightarrow> stream \<Rightarrow> stream" where
  "copy_ring bytes n s = fold (\<lambda>k. store_ring (written_total s + k) (bytes ! k)) [0..<n] s"

definition catch_up :: "stream \<Rightarrow> stream" where
  "catch_up s =
     (if written_total s < played_total s + LEAD
      then (zeroRing (written_total s) (played_total s + LEAD - written_total s) s)\<lparr>written_total := played_total s + LEAD\<rparr>
      else s)"

text \<open>One turn of \<open>writeStream\<close> at a play position and a time: \<open>Some n\<close> bytes accepted, or
  \<open>None\<close> when the queue is full and the caller sleeps or gets \<open>WouldBlock\<close>.\<close>

definition writeStream :: "nat \<Rightarrow> nat \<Rightarrow> u8 list \<Rightarrow> stream \<Rightarrow> nat option \<times> stream" where
  "writeStream position now bytes s =
     (let usable = length bytes - length bytes mod FRAME_BYTES in
      if usable = 0 then (Some 0, s)
      else
        let s1 = catch_up (advanceLocked position (startLocked position s));
            queued = written_total s1 - played_total s1
        in if queued + FRAME_BYTES \<le> MAX_QUEUED
           then let n0 = min usable (MAX_QUEUED - queued); n = n0 - n0 mod FRAME_BYTES;
                    s2 = copy_ring bytes n s1
                in (Some n, s2\<lparr>written_total := written_total s1 + n, idle_since_ms := now\<rparr>)
           else (None, s1))"

definition serviceThread :: "nat \<Rightarrow> nat \<Rightarrow> stream \<Rightarrow> stream" where
  "serviceThread position now s =
     (let s1 = advanceLocked position s
      in if running s1 \<and> written_total s1 \<le> played_total s1 \<and> now - idle_since_ms s1 > IDLE_STOP_MS
         then stopLocked s1 else s1)"

section \<open>Stores into the ring\<close>

lemma fold_store_simps [simp]:
  "running (fold (\<lambda>k. store_ring (a + k) (f k)) ks s) = running s"
  "played_total (fold (\<lambda>k. store_ring (a + k) (f k)) ks s) = played_total s"
  "written_total (fold (\<lambda>k. store_ring (a + k) (f k)) ks s) = written_total s"
  "last_lpib (fold (\<lambda>k. store_ring (a + k) (f k)) ks s) = last_lpib s"
  "idle_since_ms (fold (\<lambda>k. store_ring (a + k) (f k)) ks s) = idle_since_ms s"
  by (induction ks arbitrary: s) (simp_all add: store_ring_def)

lemma ring_untouched:
  "(\<And>k. k < n \<Longrightarrow> (a + k) mod BUFFER_BYTES \<noteq> i) \<Longrightarrow>
    ring (fold (\<lambda>k. store_ring (a + k) (f k)) [0..<n] s) i = ring s i"
  by (induction n) (auto simp: store_ring_def)

lemma ring_zeroed:
  "k < n \<Longrightarrow> (a + k) mod BUFFER_BYTES = i \<Longrightarrow> ring (fold (\<lambda>k. store_ring (a + k) 0) [0..<n] s) i = 0"
  by (induction n) (auto simp: store_ring_def less_Suc_eq)

lemma ring_stored:
  "k < n \<Longrightarrow> n \<le> BUFFER_BYTES \<Longrightarrow>
    ring (fold (\<lambda>k. store_ring (a + k) (f k)) [0..<n] s) ((a + k) mod BUFFER_BYTES) = f k"
proof (induction n)
  case (Suc n)
  have "(a + k) mod BUFFER_BYTES \<noteq> (a + n) mod BUFFER_BYTES" if "k < n"
  proof
    assume "(a + k) mod BUFFER_BYTES = (a + n) mod BUFFER_BYTES"
    then have "BUFFER_BYTES dvd n - k"
      using that mod_eq_dvd_iff_nat [of "a + k" "a + n" BUFFER_BYTES] by simp
    moreover have "0 < n - k" "n - k < BUFFER_BYTES" using that Suc.prems by auto
    ultimately show False using nat_dvd_not_less by blast
  qed
  then show ?case using Suc by (auto simp: store_ring_def less_Suc_eq)
qed simp

section \<open>Silence outside the queue\<close>

definition queued_at :: "stream \<Rightarrow> nat \<Rightarrow> bool" where
  "queued_at s i \<longleftrightarrow> (\<exists>t. played_total s \<le> t \<and> t < written_total s \<and> t mod BUFFER_BYTES = i)"

text \<open>Whatever is not queued is silence; a stopped stream has nothing queued; the queue never
  exceeds \<open>MAX_QUEUED\<close>.\<close>

definition stream_ok :: "stream \<Rightarrow> bool" where
  "stream_ok s \<longleftrightarrow> (\<forall>i. \<not> queued_at s i \<longrightarrow> ring s i = 0) \<and>
     (\<not> running s \<longrightarrow> written_total s \<le> played_total s) \<and> written_total s \<le> played_total s + MAX_QUEUED"

lemma stream_init_ok: "stream_ok stream_init"
  by (simp add: stream_ok_def stream_init_def)

lemma advance_ok: "stream_ok s \<Longrightarrow> stream_ok (advanceLocked position s)"
proof -
  assume ok: "stream_ok s"
  show ?thesis
  proof (cases "running s")
    case True
    define lpib where "lpib = position mod BUFFER_BYTES"
    define delta where "delta = (if lpib \<ge> last_lpib s then lpib - last_lpib s else BUFFER_BYTES - last_lpib s + lpib)"
    define s' where "s' = advanceLocked position s"
    have s': "s' = (zeroRing (played_total s) delta s)\<lparr>played_total := played_total s + delta, last_lpib := lpib\<rparr>"
      using True by (simp add: s'_def advanceLocked_def Let_def lpib_def delta_def)
    have f: "running s' = running s" "played_total s' = played_total s + delta" "written_total s' = written_total s"
      by (simp_all add: s' zeroRing_def)
    have "ring s' i = 0" if n: "\<not> queued_at s' i" for i
    proof (cases "\<exists>k<delta. (played_total s + k) mod BUFFER_BYTES = i")
      case True
      then show ?thesis using ring_zeroed by (auto simp: s' zeroRing_def)
    next
      case False
      have "\<not> queued_at s i"
      proof
        assume "queued_at s i"
        then obtain t where t: "played_total s \<le> t" "t < written_total s" "t mod BUFFER_BYTES = i"
          by (auto simp: queued_at_def)
        show False
        proof (cases "t < played_total s + delta")
          case True
          then show False using False t by (auto dest: spec [of _ "t - played_total s"])
        next
          case False
          then show False using n t f by (auto simp: queued_at_def)
        qed
      qed
      then have "ring s i = 0" using ok by (simp add: stream_ok_def)
      then show ?thesis using False ring_untouched by (auto simp: s' zeroRing_def)
    qed
    then show ?thesis using ok f unfolding s'_def [symmetric] by (auto simp: stream_ok_def)
  qed (simp add: advanceLocked_def ok)
qed


lemma start_ok: "stream_ok s \<Longrightarrow> stream_ok (startLocked position s)"
  by (auto simp: stream_ok_def startLocked_def queued_at_def)

lemma stop_ok: "stream_ok s \<Longrightarrow> written_total s \<le> played_total s \<Longrightarrow> stream_ok (stopLocked s)"
  by (auto simp: stream_ok_def stopLocked_def queued_at_def)

lemma catch_up_simps:
  "running (catch_up s) = running s" "played_total (catch_up s) = played_total s"
  "written_total (catch_up s) = max (written_total s) (played_total s + LEAD)"
  by (auto simp: catch_up_def zeroRing_def)

lemma catch_up_ok:
  assumes "stream_ok s" "running s"
  shows "stream_ok (catch_up s)"
proof (cases "written_total s < played_total s + LEAD")
  case True
  let ?n = "played_total s + LEAD - written_total s"
  have "ring (catch_up s) i = 0" if "\<not> queued_at (catch_up s) i" for i
  proof -
    have "\<not> queued_at s i"
      using that by (auto simp: queued_at_def catch_up_simps)
    then have z: "ring s i = 0" using assms by (simp add: stream_ok_def)
    show ?thesis
    proof (cases "\<exists>k<?n. (written_total s + k) mod BUFFER_BYTES = i")
      case c: True
      then show ?thesis using True ring_zeroed by (auto simp: catch_up_def zeroRing_def)
    next
      case c: False
      then show ?thesis using True z ring_untouched [of ?n "written_total s" i "\<lambda>_. 0" s]
        by (auto simp: catch_up_def zeroRing_def)
    qed
  qed
  then show ?thesis
    using assms by (auto simp: stream_ok_def catch_up_simps hda_consts)
qed (use assms in \<open>simp add: catch_up_def\<close>)

lemma running_advance [simp]: "running (advanceLocked p s) = running s"
  by (simp add: advanceLocked_def Let_def zeroRing_def)

lemma written_advance [simp]: "written_total (advanceLocked p s) = written_total s"
  by (simp add: advanceLocked_def Let_def zeroRing_def)

lemma writeStream_ok:
  assumes ok: "stream_ok s"
  shows "stream_ok (snd (writeStream position now bytes s))"
proof -
  let ?usable = "length bytes - length bytes mod FRAME_BYTES"
  define s1 where "s1 = catch_up (advanceLocked position (startLocked position s))"
  have ok1: "stream_ok s1"
    unfolding s1_def by (intro catch_up_ok advance_ok start_ok ok) (simp add: startLocked_def)
  have run: "running s1" by (simp add: s1_def catch_up_simps startLocked_def)
  define queued where "queued = written_total s1 - played_total s1"
  define n0 where "n0 = min ?usable (MAX_QUEUED - queued)"
  define n where "n = n0 - n0 mod FRAME_BYTES"
  have n: "n \<le> MAX_QUEUED - queued" by (auto simp: n_def n0_def)
  define s2 where "s2 = (copy_ring bytes n s1)\<lparr>written_total := written_total s1 + n, idle_since_ms := now\<rparr>"
  have f: "running s2 = running s1" "played_total s2 = played_total s1" "written_total s2 = written_total s1 + n"
    by (simp_all add: s2_def copy_ring_def)
  have "ring s2 i = 0" if nq: "\<not> queued_at s2 i" for i
  proof -
    have "\<not> queued_at s1 i" using nq f by (auto simp: queued_at_def)
    then have z: "ring s1 i = 0" using ok1 by (simp add: stream_ok_def)
    have "played_total s1 \<le> written_total s1"
      by (simp add: s1_def catch_up_simps)
    then have "(written_total s1 + k) mod BUFFER_BYTES \<noteq> i" if "k < n" for k
      using nq f that unfolding queued_at_def by (metis le_add1 nat_add_left_cancel_less order_trans)
    then show ?thesis using z ring_untouched [of n "written_total s1" i] by (simp add: s2_def copy_ring_def)
  qed
  then have "stream_ok s2"
    using ok1 f n run by (auto simp: stream_ok_def queued_def)
  then show ?thesis
    unfolding writeStream_def Let_def s1_def [symmetric] queued_def [symmetric] n0_def [symmetric]
      n_def [symmetric] s2_def [symmetric]
    using ok ok1 by simp
qed

lemma service_ok: "stream_ok s \<Longrightarrow> stream_ok (serviceThread position now s)"
  by (simp add: serviceThread_def Let_def advance_ok stop_ok)

text \<open>What the driver can be asked to do.\<close>

datatype stream_op = Write nat nat "u8 list" | Query nat | Service nat nat

fun stream_step :: "stream_op \<Rightarrow> stream \<Rightarrow> stream" where
  "stream_step (Write position now bytes) s = snd (writeStream position now bytes s)"
| "stream_step (Query position) s = snd (queuedBytes position s)"
| "stream_step (Service position now) s = serviceThread position now s"

lemma stream_step_ok: "stream_ok s \<Longrightarrow> stream_ok (stream_step op s)"
  by (cases op) (simp_all add: writeStream_ok service_ok queuedBytes_def Let_def advance_ok)

lemma stream_steps_ok: "stream_ok (fold stream_step ops stream_init)"
proof -
  have "stream_ok s \<Longrightarrow> stream_ok (fold stream_step ops s)" for s
    by (induction ops arbitrary: s) (simp_all add: stream_step_ok)
  then show ?thesis by (simp add: stream_init_ok)
qed

text \<open>C32: The sound driver never plays old samples again: after any sequence of writes, queries
  and service runs, at whatever play positions, every byte of the DMA ring that is not queued
  is silence, and at most \<open>MAX_QUEUED\<close> bytes are queued.\<close>

theorem unqueued_is_silence:
  "(\<forall>i. queued_at (fold stream_step ops stream_init) i \<or> ring (fold stream_step ops stream_init) i = 0) \<and>
   written_total (fold stream_step ops stream_init) \<le> played_total (fold stream_step ops stream_init) + MAX_QUEUED"
  using stream_steps_ok [of ops] by (auto simp: stream_ok_def)


section \<open>What a write accepts\<close>

lemma writeStream_cases:
  assumes ok: "stream_ok s"
  obtains (short) "length bytes < FRAME_BYTES" "writeStream position now bytes s = (Some 0, s)"
  | (full) s' where "FRAME_BYTES \<le> length bytes" "writeStream position now bytes s = (None, s')"
  | (accepted) n s' where "writeStream position now bytes s = (Some n, s')" "FRAME_BYTES \<le> n" "n \<le> length bytes"
      "FRAME_BYTES dvd n" "written_total s' \<le> played_total s' + MAX_QUEUED" "n \<le> written_total s'"
      "\<And>k. k < n \<Longrightarrow> ring s' ((written_total s' - n + k) mod BUFFER_BYTES) = bytes ! k"
proof -
  let ?usable = "length bytes - length bytes mod FRAME_BYTES"
  define s1 where "s1 = catch_up (advanceLocked position (startLocked position s))"
  define queued where "queued = written_total s1 - played_total s1"
  define n0 where "n0 = min ?usable (MAX_QUEUED - queued)"
  define n where "n = n0 - n0 mod FRAME_BYTES"
  define s2 where "s2 = (copy_ring bytes n s1)\<lparr>written_total := written_total s1 + n, idle_since_ms := now\<rparr>"
  have eq: "writeStream position now bytes s =
    (if ?usable = 0 then (Some 0, s) else if queued + FRAME_BYTES \<le> MAX_QUEUED then (Some n, s2) else (None, s1))"
    unfolding writeStream_def Let_def s1_def [symmetric] queued_def [symmetric] n0_def [symmetric]
      n_def [symmetric] s2_def [symmetric] by simp
  have us: "?usable = 0 \<longleftrightarrow> length bytes < FRAME_BYTES"
    by (auto simp: FRAME_BYTES_def)
  consider "length bytes < FRAME_BYTES" | "FRAME_BYTES \<le> length bytes" "\<not> queued + FRAME_BYTES \<le> MAX_QUEUED"
    | "FRAME_BYTES \<le> length bytes" "queued + FRAME_BYTES \<le> MAX_QUEUED" by linarith
  then show ?thesis
  proof cases
    case 1
    then show ?thesis using short eq us by simp
  next
    case 2
    then show ?thesis using full eq us by simp
  next
    case 3
    have "FRAME_BYTES dvd ?usable" by (simp add: dvd_minus_mod)
    moreover have "0 < ?usable" using 3(1) us by (simp only: neq0_conv [symmetric] not_less)
    ultimately have "FRAME_BYTES \<le> ?usable" by (rule dvd_imp_le)
    then have "FRAME_BYTES \<le> n0" using 3(2) by (simp add: n0_def)
    then have "0 < n"
      using mod_less_divisor [of FRAME_BYTES n0] unfolding n_def by (simp add: FRAME_BYTES_def)
    have dn: "FRAME_BYTES dvd n" by (simp add: n_def dvd_minus_mod)
    have "n \<le> n0" by (simp add: n_def)
    moreover have "n0 \<le> length bytes" "n0 \<le> MAX_QUEUED - queued"
      unfolding n0_def by linarith+
    ultimately have n: "FRAME_BYTES \<le> n" "n \<le> length bytes" "n \<le> MAX_QUEUED - queued"
      using dvd_imp_le [OF dn \<open>0 < n\<close>] by (auto intro: order_trans)
    have "n \<le> BUFFER_BYTES" using n(3) by (simp add: hda_consts)
    then have r: "ring s2 ((written_total s2 - n + k) mod BUFFER_BYTES) = bytes ! k" if "k < n" for k
      using ring_stored [OF that, of "written_total s1" "\<lambda>k. bytes ! k" s1] by (simp add: s2_def copy_ring_def)
    have "written_total s2 \<le> played_total s2 + MAX_QUEUED"
      using writeStream_ok [OF ok, of position now bytes] 3 us by (simp add: eq stream_ok_def)
    moreover have "n \<le> written_total s2" by (simp add: s2_def)
    ultimately show ?thesis using accepted [of n s2] n dn r 3 us by (simp add: eq)
  qed
qed

text \<open>A write that the driver accepts takes whole frames, at least one, and puts exactly
  those bytes in the ring, in order, at the end of what is queued; a queue never passes
  \<open>MAX_QUEUED\<close> bytes, so nothing queued is overwritten.\<close>

theorem accepted_bytes_are_queued:
  assumes "stream_ok s" "writeStream position now bytes s = (Some n, s')" "FRAME_BYTES \<le> length bytes" "k < n"
  shows "FRAME_BYTES dvd n \<and> n \<le> length bytes \<and> written_total s' \<le> played_total s' + MAX_QUEUED \<and>
    ring s' ((written_total s' - n + k) mod BUFFER_BYTES) = bytes ! k"
  using assms(2-4) by (cases rule: writeStream_cases [OF assms(1), of bytes position now]) auto

theorem accepted_bytes_are_queued_witness:
  "\<exists>n s'. writeStream 0 0 [1, 2, 3, 4] stream_init = (Some n, s') \<and> ring s' ((written_total s' - n) mod BUFFER_BYTES) = 1"
proof (rule writeStream_cases [OF stream_init_ok, of "[1, 2, 3, 4]" 0 0], goal_cases)
  case 1
  then show ?case by (simp add: FRAME_BYTES_def)
next
  case (2 s')
  then show ?case
    by (simp add: writeStream_def Let_def stream_init_def startLocked_def advanceLocked_def zeroRing_def
        catch_up_simps hda_consts)
next
  case (3 n s')
  have "FRAME_BYTES \<le> length [1, 2, 3, 4 :: u8]" "0 < n" using 3(2) by (simp_all add: FRAME_BYTES_def)
  from accepted_bytes_are_queued [OF stream_init_ok 3(1) this] 3(1) show ?case by auto
qed

end
