(* ===== verification/AudioSink.thy ===== *)
theory AudioSink
  imports HdaStream
begin

text \<open>
  The GStreamer audio sink of OrangeOS (\<open>userland/libs/gst-orange/gstorange.c\<close>) and the
  sound probe (\<open>userland/bin/audio-probe/probe.c\<close>), over the driver of \<open>HdaStream\<close>.

  \<open>write\<close> is a blocking call: \<open>device_writes\<close> gives the results of successive calls on the
  driver for a sequence of play positions, one for each time the driver looks at the queue.
  A loop that has not ended when the positions run out has value \<open>None\<close>.
\<close>

section \<open>orangeaudiosink\<close>

record audio_sink =
  sink_fd :: int
  frame_bytes :: nat

record ring_buffer_spec =
  spec_bpf :: nat
  segsize :: nat
  segtotal :: nat

definition orange_audio_sink_init :: audio_sink where
  "orange_audio_sink_init = \<lparr>sink_fd = -1, frame_bytes = 0\<rparr>"

text \<open>\<open>open\<close> returned a descriptor or -1.\<close>

definition sink_open :: "int \<Rightarrow> audio_sink \<Rightarrow> bool \<times> audio_sink" where
  "sink_open opened self = (\<not> opened < 0, self\<lparr>sink_fd := opened\<rparr>)"

definition sink_prepare :: "ring_buffer_spec \<Rightarrow> audio_sink \<Rightarrow> bool \<times> ring_buffer_spec \<times> audio_sink" where
  "sink_prepare spec self =
     (let self' = self\<lparr>frame_bytes := spec_bpf spec\<rparr>
      in (True, spec\<lparr>segsize := 480 * frame_bytes self', segtotal := 20\<rparr>, self'))"

definition sink_unprepare :: "audio_sink \<Rightarrow> bool \<times> audio_sink" where
  "sink_unprepare self = (True, self)"

text \<open>The descriptors it closes, and the sink.\<close>

definition sink_close :: "audio_sink \<Rightarrow> int list \<times> audio_sink" where
  "sink_close self = ((if sink_fd self \<ge> 0 then [sink_fd self] else []), self\<lparr>sink_fd := -1\<rparr>)"

datatype write_result = Wrote nat | Errno nat

definition EINTR :: nat where "EINTR = 4"

text \<open>The loop of \<open>sink_write\<close> for the results its calls of \<open>write\<close> return: the value returned,
  or \<open>None\<close> while it has not returned.\<close>

fun sink_write :: "write_result list \<Rightarrow> nat \<Rightarrow> nat \<Rightarrow> int option" where
  "sink_write rs len done =
     (if \<not> done < len then Some (int done)
      else case rs of
        [] \<Rightarrow> None
      | Errno e # rs' \<Rightarrow> if e = EINTR then sink_write rs' len done else Some (-1)
      | Wrote n # rs' \<Rightarrow> sink_write rs' len (done + n))"

declare sink_write.simps [simp del]

text \<open>\<open>fstat\<close> gave the queued bytes, or failed.\<close>

definition sink_delay :: "nat option \<Rightarrow> audio_sink \<Rightarrow> u32" where
  "sink_delay status self =
     (if sink_fd self < 0 \<or> frame_bytes self = 0 then 0
      else case status of None \<Rightarrow> 0 | Some st_size \<Rightarrow> of_nat (st_size div frame_bytes self))"

definition sink_reset :: "audio_sink \<Rightarrow> audio_sink" where
  "sink_reset self = self"

datatype registration = StaticPlugin string | Element string int

definition PLUGINS :: "string list" where
  "PLUGINS = [''coreelements'', ''app'', ''playback'', ''typefindfunctions'', ''audioconvert'', ''audioresample'',
     ''videoconvertscale'', ''volume'', ''audiotestsrc'', ''videotestsrc'', ''rawparse'', ''autodetect'',
     ''isomp4'', ''matroska'', ''audioparsers'', ''id3demux'', ''wavparse'', ''videoparsersbad'', ''opusparse'',
     ''audiofx'', ''deinterlace'', ''debugutilsbad'', ''libav'']"

text \<open>The rank of GStreamer's primary elements is a parameter.\<close>

definition gst_init_static_plugins :: "int \<Rightarrow> registration list" where
  "gst_init_static_plugins rank_primary =
     map StaticPlugin PLUGINS @ [Element ''orangeaudiosink'' (rank_primary + 10)]"

section \<open>Writing to the driver\<close>

text \<open>Successive blocking calls of \<open>write\<close> with the rest of the data, at the given play
  positions and times.\<close>

fun device_writes :: "(nat \<times> nat) list \<Rightarrow> u8 list \<Rightarrow> stream \<Rightarrow> write_result list \<times> stream" where
  "device_writes [] bytes s = ([], s)"
| "device_writes ((position, now) # looks) bytes s =
     (case writeStream position now bytes s of
        (None, s') \<Rightarrow> device_writes looks bytes s'
      | (Some n, s') \<Rightarrow> let (rs, s'') = device_writes looks (drop n bytes) s' in (Wrote n # rs, s''))"

lemma device_writes_accepts:
  assumes "stream_ok s" "FRAME_BYTES dvd length bytes" "fst (device_writes looks bytes s) = rs"
  shows "\<exists>ns k. rs = map Wrote ns @ replicate k (Wrote 0) \<and> (\<forall>n \<in> set ns. FRAME_BYTES \<le> n) \<and>
    sum_list ns \<le> length bytes \<and> (0 < k \<longrightarrow> sum_list ns = length bytes)"
  using assms
proof (induction looks bytes s arbitrary: rs rule: device_writes.induct)
  case (1 bytes s)
  then show ?case by (auto intro: exI [of _ "[]"] exI [of _ "0::nat"])
next
  case (2 position now looks bytes s)
  show ?case
  proof (rule writeStream_cases [OF 2(3), of bytes position now], goal_cases)
    case 1
    then have z: "bytes = []" using 2(4) by (auto simp: FRAME_BYTES_def dest: dvd_imp_le)
    obtain rs' where rs': "rs = Wrote 0 # rs'" "rs' = fst (device_writes looks (drop 0 bytes) s)"
      using 2(5) 1 by (auto simp: case_prod_beta Let_def)
    from 2(2) [OF 1(2) [symmetric] refl _ _ rs'(2) [symmetric]] 2(3,4) z
    obtain ns k where "rs' = map Wrote ns @ replicate k (Wrote 0)" "\<forall>n \<in> set ns. FRAME_BYTES \<le> n" "sum_list ns \<le> 0"
      by auto
    moreover have "ns = []" using calculation(2,3) by (cases ns) (auto simp: FRAME_BYTES_def)
    ultimately show ?case using rs' z by (intro exI [of _ "[]"] exI [of _ "Suc k"]) simp
  next
    case (2 s')
    have "stream_ok s'" using writeStream_ok [OF \<open>stream_ok s\<close>, of position now bytes] 2 by simp
    then show ?case using "2.IH"(1) [OF 2(2) [symmetric] refl] "2.prems" 2 by simp
  next
    case (3 n s')
    have ok: "stream_ok s'" using writeStream_ok [OF \<open>stream_ok s\<close>, of position now bytes] 3 by simp
    obtain rs' where rs': "rs = Wrote n # rs'" "rs' = fst (device_writes looks (drop n bytes) s')"
      using "2.prems"(3) 3 by (auto simp: case_prod_beta Let_def)
    have "FRAME_BYTES dvd length (drop n bytes)" using "2.prems"(2) 3 by (simp add: dvd_diff_nat)
    from "2.IH"(2) [OF 3(1) [symmetric] refl ok this rs'(2) [symmetric]]
    obtain ns k where "rs' = map Wrote ns @ replicate k (Wrote 0)" "\<forall>n \<in> set ns. FRAME_BYTES \<le> n"
      "sum_list ns \<le> length bytes - n" "0 < k \<longrightarrow> sum_list ns = length bytes - n" by auto
    then show ?case using rs' 3 by (intro exI [of _ "n # ns"] exI [of _ k]) auto
  qed
qed


lemma sink_write_sums:
  "(\<forall>n \<in> set ns. 0 < n) \<Longrightarrow> done + sum_list ns \<le> len \<Longrightarrow>
    sink_write (map Wrote ns @ rest) len done =
      (if done + sum_list ns = len then Some (int len) else sink_write rest len (done + sum_list ns))"
proof (induction ns arbitrary: "done")
  case Nil
  then show ?case by (auto simp: sink_write.simps)
next
  case (Cons n ns)
  have "done < len" using Cons.prems by auto
  then have "sink_write (map Wrote (n # ns) @ rest) len done = sink_write (map Wrote ns @ rest) len (done + n)"
    by (simp add: sink_write.simps [of _ _ "done"])
  then show ?case using Cons.IH [of "done + n"] Cons.prems by (simp add: add.assoc)
qed

lemma sink_write_pending: "done < len \<Longrightarrow> sink_write (replicate k (Wrote 0)) len done = None"
  by (induction k) (simp_all add: sink_write.simps)

lemma sum_list_ge: "(\<forall>n \<in> set ns. c \<le> n) \<Longrightarrow> c * length ns \<le> sum_list (ns :: nat list)"
  by (induction ns) auto



text \<open>C40: Data that does not end at a frame never finishes: the driver takes whole frames only and
  answers the rest with 0, which \<open>sink_write\<close> does not treat as an end, so its loop spins.\<close>

theorem sink_write_partial_frame_spins:
  assumes "stream_ok s" "\<not> FRAME_BYTES dvd length bytes"
  shows "sink_write (fst (device_writes looks bytes s)) (done + length bytes) done = None"
  using assms
proof (induction looks bytes s arbitrary: "done" rule: device_writes.induct)
  case (1 bytes s)
  then show ?case by (cases bytes) (auto simp: sink_write.simps)
next
  case (2 position now looks bytes s)
  have pos: "0 < length bytes" using "2.prems" by (cases bytes) auto
  show ?case
  proof (rule writeStream_cases [OF "2.prems"(1), of bytes position now], goal_cases)
    case 1
    from "2.IH"(2) [OF 1(2) [symmetric] refl "2.prems"(1), of "done"] "2.prems"(2) 1 pos show ?case
      by (simp add: case_prod_beta Let_def sink_write.simps [of "Wrote 0 # _"])
  next
    case (2 s')
    have "stream_ok s'" using writeStream_ok [OF \<open>stream_ok s\<close>, of position now bytes] 2 by simp
    then show ?case using "2.IH"(1) [OF 2(2) [symmetric] refl] "2.prems" 2 by simp
  next
    case (3 n s')
    have ok: "stream_ok s'" using writeStream_ok [OF \<open>stream_ok s\<close>, of position now bytes] 3 by simp
    have "\<not> FRAME_BYTES dvd length (drop n bytes)"
      using "2.prems"(2) 3(3,4) dvd_diffD [of FRAME_BYTES "length bytes" n] by auto
    from "2.IH"(2) [OF 3(1) [symmetric] refl ok this, of "done + n"] 3 pos show ?case
      by (simp add: case_prod_beta Let_def sink_write.simps [of "Wrote n # _"])
  qed
qed

theorem sink_write_partial_frame_spins_witness:
  "sink_write (fst (device_writes [(0, 0), (4096, 21)] [1, 2, 3, 4, 5] stream_init)) (0 + length [1, 2, 3, 4, 5 :: u8]) 0 = None"
proof -
  have "\<not> FRAME_BYTES dvd length [1, 2, 3, 4, 5 :: u8]" unfolding FRAME_BYTES_def by simp presburger
  then show ?thesis by (rule sink_write_partial_frame_spins [OF stream_init_ok])
qed

text \<open>The delay the sink reports is the number of whole frames the driver has queued, at most
  16384 (a third of a second at 48 kHz), with nothing lost in the conversion to 32 bits; it is
  0 for a sink that is not open or not prepared.\<close>

theorem sink_delay_is_queue:
  assumes "stream_ok s" "0 \<le> sink_fd self" "frame_bytes self = FRAME_BYTES"
  shows "unat (sink_delay (Some (fst (queuedBytes position s))) self) = fst (queuedBytes position s) div FRAME_BYTES \<and>
    fst (queuedBytes position s) div FRAME_BYTES \<le> 16384 \<and>
    sink_delay status (snd (sink_close self)) = 0 \<and> sink_delay status (orange_audio_sink_init\<lparr>sink_fd := f\<rparr>) = 0"
proof -
  let ?q = "fst (queuedBytes position s)"
  have "?q \<le> MAX_QUEUED"
    using advance_ok [OF assms(1), of position] unfolding queuedBytes_def Let_def stream_ok_def by auto
  then have q: "?q div FRAME_BYTES \<le> 16384"
    using div_le_mono [of ?q MAX_QUEUED FRAME_BYTES] by (simp add: MAX_QUEUED_def FRAME_BYTES_def)
  then have "unat (of_nat (?q div FRAME_BYTES) :: u32) = ?q div FRAME_BYTES"
    by (simp add: unsigned_of_nat take_bit_nat_eq_self)
  then show ?thesis
    using assms q by (simp add: sink_delay_def sink_close_def orange_audio_sink_init_def)
qed

theorem sink_delay_is_queue_witness:
  "sink_delay None (snd (sink_close \<lparr>sink_fd = 5, frame_bytes = 4\<rparr>)) = 0"
  using sink_delay_is_queue [OF stream_init_ok, of "\<lparr>sink_fd = 5, frame_bytes = 4\<rparr>" 0 None]
  by (simp add: FRAME_BYTES_def)


section \<open>audio-probe\<close>

definition RATE :: nat where "RATE = 48000"

text \<open>The inner loop of \<open>tone\<close>: the samples of a block and the phase after it.\<close>

definition next_phase :: "real \<Rightarrow> real \<Rightarrow> real" where
  "next_phase hz phase = phase + 2 * pi * hz / of_nat RATE"

definition tone_sample :: "real \<Rightarrow> int" where
  "tone_sample phase = c_trunc (12000 * sin phase)"

fun tone_block :: "real \<Rightarrow> nat \<Rightarrow> real \<Rightarrow> int list \<times> real" where
  "tone_block hz 0 phase = ([], phase)"
| "tone_block hz (Suc frames) phase =
     (let v = tone_sample phase; (vs, phase') = tone_block hz frames (next_phase hz phase)
      in (v # v # vs, phase'))"

text \<open>Writing one block: \<open>Some\<close> of the results left, or \<open>None\<close> for a failed write.\<close>

fun write_block :: "int list \<Rightarrow> nat \<Rightarrow> int list option" where
  "write_block rs left =
     (if left = 0 then Some rs
      else case rs of
        [] \<Rightarrow> None
      | n # rs' \<Rightarrow> if n \<le> 0 then None else write_block rs' (left - nat n))"

declare write_block.simps [simp del]

text \<open>\<open>tone\<close> with the number of 10 ms blocks: the samples it passes to \<open>write\<close>, its result and
  the phase it leaves in its static variable.\<close>

fun tone :: "int list \<Rightarrow> real \<Rightarrow> nat \<Rightarrow> real \<Rightarrow> int \<times> int list \<times> real \<times> int list" where
  "tone rs hz 0 phase = (0, [], phase, rs)"
| "tone rs hz (Suc blocks) phase =
     (let (samples, phase') = tone_block hz (RATE div 100) phase in
      case write_block rs (2 * length samples) of
        None \<Rightarrow> (-1, samples, phase', [])
      | Some rs' \<Rightarrow>
          let (result, more, phase'', rs'') = tone rs' hz blocks phase'
          in (result, samples @ more, phase'', rs''))"

text \<open>Polling the queue until it is empty or the deadline passes, for the sizes and times of
  successive looks: the looks left after the loop. The check after it is one more look.\<close>

fun drain_queue :: "(int \<times> int) list \<Rightarrow> int \<Rightarrow> (int \<times> int) list" where
  "drain_queue [] limit = []"
| "drain_queue ((bytes, elapsed) # looks) limit =
     (if bytes > 0 \<and> elapsed < limit then drain_queue looks limit else looks)"

definition drained :: "(int \<times> int) list \<Rightarrow> bool" where
  "drained looks = (case looks of [] \<Rightarrow> False | (bytes, _) # _ \<Rightarrow> bytes = 0)"

text \<open>What the system answers: the descriptor, the result of each \<open>write\<close>, the queue after the
  first tone, the looks at the queue while it drains, and the time the writes took.\<close>

record audio_host =
  ah_open :: int
  ah_writes :: "int list"
  ah_queued :: int
  ah_looks1 :: "(int \<times> int) list"
  ah_wrote :: int
  ah_looks2 :: "(int \<times> int) list"

definition audio_main :: "audio_host \<Rightarrow> int" where
  "audio_main H =
     (if \<not> ah_open H \<ge> 0 then 1
      else
        let (r1, _, phase1, rs1) = tone (ah_writes H) 660 100 0 in
        if r1 \<noteq> 0 then 1
        else if \<not> ah_queued H > 0 then 1
        else if \<not> drained (drain_queue (ah_looks1 H) 5000) then 1
        else
          let (r2, _, _, _) = tone rs1 880 100 phase1 in
          if r2 \<noteq> 0 then 1
          else if \<not> drained (drain_queue (ah_looks2 H) 10000) then 1
          else if \<not> ah_wrote H \<ge> 1200 then 1
          else 0)"

lemma tone_block_samples:
  "length (fst (tone_block hz frames phase)) = 2 * frames"
  "snd (tone_block hz frames phase) = phase + of_nat frames * (2 * pi * hz / of_nat RATE)"
  "i < frames \<Longrightarrow> fst (tone_block hz frames phase) ! (2 * i) = tone_sample (phase + of_nat i * (2 * pi * hz / of_nat RATE))"
  "i < frames \<Longrightarrow> fst (tone_block hz frames phase) ! (2 * i + 1) = tone_sample (phase + of_nat i * (2 * pi * hz / of_nat RATE))"
proof (induction frames arbitrary: phase i)
  case (Suc frames)
  case 1 show ?case using Suc(1) by (simp add: Let_def case_prod_beta)
  case 2 show ?case using Suc(2) by (simp add: Let_def case_prod_beta next_phase_def algebra_simps add_divide_distrib)
  case 3 then show ?case using Suc(3) by (cases i) (simp_all add: Let_def case_prod_beta next_phase_def algebra_simps add_divide_distrib)
  case 4 then show ?case using Suc(4) by (cases i) (simp_all add: Let_def case_prod_beta next_phase_def algebra_simps add_divide_distrib)
qed simp_all


lemma tone_sample_bounds: "- 12000 \<le> tone_sample phase" "tone_sample phase \<le> 12000"
proof -
  have "\<bar>12000 * sin phase\<bar> \<le> of_int 12000" using abs_sin_le_one [of phase] by (simp add: abs_mult)
  from c_trunc_bounds [OF this] show "- 12000 \<le> tone_sample phase" "tone_sample phase \<le> 12000"
    by (simp_all add: tone_sample_def)
qed

text \<open>The samples of several blocks are those of one long block: the phase is carried over.\<close>

lemma tone_block_append:
  "fst (tone_block hz (m + n) phase) =
     fst (tone_block hz m phase) @ fst (tone_block hz n (snd (tone_block hz m phase)))"
  "snd (tone_block hz (m + n) phase) = snd (tone_block hz n (snd (tone_block hz m phase)))"
  by (induction m arbitrary: phase) (simp_all add: Let_def case_prod_beta)

lemma tone_samples:
  "fst (tone rs hz blocks phase) = 0 \<Longrightarrow>
     fst (snd (tone rs hz blocks phase)) = fst (tone_block hz (blocks * (RATE div 100)) phase) \<and>
     fst (snd (snd (tone rs hz blocks phase))) = snd (tone_block hz (blocks * (RATE div 100)) phase)"
proof (induction blocks arbitrary: rs phase)
  case (Suc blocks)
  let ?b = "tone_block hz (RATE div 100) phase"
  obtain rs' where w: "write_block rs (2 * length (fst ?b)) = Some rs'"
    using Suc.prems by (auto simp: Let_def case_prod_beta split: option.splits)
  have "fst (tone rs' hz blocks (snd ?b)) = 0"
    using Suc.prems w by (simp add: Let_def case_prod_beta)
  from Suc.IH [OF this] w show ?case
    by (simp add: Let_def case_prod_beta tone_block_append)
qed simp

text \<open>A tone the probe has written completely is a sine of constant amplitude: its samples fit
  16 bits, both channels carry the same sample, and a tone of \<open>blocks\<close> blocks continues the
  phase without a jump at block borders.\<close>

theorem tone_is_sine:
  assumes "tone rs hz blocks phase = (0, samples, phase', rs')" "i < blocks * (RATE div 100)"
  shows "length samples = 2 * (blocks * (RATE div 100)) \<and>
    samples ! (2 * i) = tone_sample (phase + of_nat i * (2 * pi * hz / of_nat RATE)) \<and>
    samples ! (2 * i + 1) = samples ! (2 * i) \<and> \<bar>samples ! (2 * i)\<bar> \<le> 12000 \<and>
    phase' = phase + of_nat (blocks * (RATE div 100)) * (2 * pi * hz / of_nat RATE)"
proof -
  have s: "samples = fst (tone_block hz (blocks * (RATE div 100)) phase)"
    "phase' = snd (tone_block hz (blocks * (RATE div 100)) phase)"
    using tone_samples [of rs hz blocks phase] assms(1) by simp_all
  note t = tone_block_samples [where hz = hz and frames = "blocks * (RATE div 100)" and phase = phase]
  show ?thesis
    using t(1,2) t(3,4) [OF assms(2)] tone_sample_bounds [of "phase + of_nat i * (2 * pi * hz / of_nat RATE)"]
    unfolding s by (simp add: abs_le_iff)
qed

theorem tone_is_sine_witness:
  "length (fst (snd (tone [1920] 660 1 0))) = 960"
proof -
  have w: "write_block [1920] 1920 = Some []"
    by (simp add: write_block.simps)
  have "fst (tone [1920] 660 1 0) = 0"
    using tone_block_samples(1) [where hz = 660 and frames = 480 and phase = 0] w by (simp add: Let_def case_prod_beta RATE_def One_nat_def)
  then obtain samples phase' rs' where "tone [1920] 660 1 0 = (0, samples, phase', rs')"
    by (metis prod.collapse)
  with tone_is_sine [OF this, of 0] show ?thesis by (simp add: RATE_def)
qed

end
