(* ===== verification/Render.thy ===== *)
theory Render
  imports Prelude
begin

text \<open>
  The headless render test of WPE WebKit (\<open>userland/bin/wpe-render/render.c\<close>): it loads a
  page, asks the page's script for its state, takes a snapshot, checks what was drawn and sends
  the picture over standard output. WebKit, libpng and GLib are its environment: what they
  deliver are the events of the main loop.
\<close>

definition PAGE :: string where "PAGE = ''file:///share/wpe-tests/hello.html''"
definition OUTPUT :: string where "OUTPUT = ''/tmp/wpe-render.png''"

section \<open>State\<close>

text \<open>What the program asks of the libraries.\<close>

datatype render_call =
    SetEnv string string | MakeDirectories string | Connect | LoadPage string
  | EvaluateScript | TakeSnapshot | SavePng nat nat nat | Say string | Quit

record render =
  result :: int
  quitting :: bool
  script_result :: string
  calls :: "render_call list"

definition render_init :: render where
  "render_init = \<lparr>result = 1, quitting = False, script_result = [], calls = []\<rparr>"

abbreviation ask :: "render_call list \<Rightarrow> render \<Rightarrow> render" where
  "ask cs s \<equiv> s\<lparr>calls := calls s @ cs\<rparr>"

definition finish :: "int \<Rightarrow> render \<Rightarrow> render" where
  "finish code s = ask [Quit] (s\<lparr>result := code, quitting := True\<rparr>)"

section \<open>The picture\<close>

text \<open>A snapshot: BGRA bytes, premultiplied. A pixel is read as four bytes; one outside the data
  has none.\<close>

record image =
  im_width :: nat
  im_height :: nat
  im_stride :: nat
  im_bytes :: "u8 list"

definition pixel :: "image \<Rightarrow> nat \<Rightarrow> nat \<Rightarrow> (int \<times> int \<times> int \<times> int) option" where
  "pixel im x y =
     (let off = y * im_stride im + x * 4 in
      if off + 3 < length (im_bytes im)
      then Some (uint (im_bytes im ! off), uint (im_bytes im ! (off + 1)), uint (im_bytes im ! (off + 2)),
        uint (im_bytes im ! (off + 3)))
      else None)"

definition near_colour :: "int \<times> int \<times> int \<times> int \<Rightarrow> int \<Rightarrow> int \<Rightarrow> int \<Rightarrow> bool" where
  "near_colour p r g b = (case p of (p0, p1, p2, p3) \<Rightarrow>
     \<bar>p2 - r\<bar> < 24 \<and> \<bar>p1 - g\<bar> < 24 \<and> \<bar>p0 - b\<bar> < 24 \<and> p3 > 240)"

definition is_orange :: "int \<times> int \<times> int \<times> int \<Rightarrow> bool" where
  "is_orange p = near_colour p 0xff 0x8c 0x00"

definition is_white :: "int \<times> int \<times> int \<times> int \<Rightarrow> bool" where
  "is_white p = near_colour p 0xff 0xff 0xff"

definition is_dark :: "int \<times> int \<times> int \<times> int \<Rightarrow> bool" where
  "is_dark p = (case p of (p0, p1, p2, p3) \<Rightarrow> p0 < 80 \<and> p1 < 80 \<and> p2 < 80 \<and> p3 > 240)"

definition is_blue :: "int \<times> int \<times> int \<times> int \<Rightarrow> bool" where
  "is_blue p = (case p of (p0, p1, p2, p3) \<Rightarrow> p0 > 120 \<and> p2 < 60)"

text \<open>\<open>for (y ...) for (x ...) count += test(p)\<close>.\<close>

definition count_pixels :: "image \<Rightarrow> (int \<times> int \<times> int \<times> int \<Rightarrow> bool) \<Rightarrow> nat" where
  "count_pixels im test =
     sum_list (map (\<lambda>y. sum_list (map (\<lambda>x. case pixel im x y of Some p \<Rightarrow> of_bool (test p) | None \<Rightarrow> 0)
       [0..<im_width im])) [0..<im_height im])"

text \<open>The checks on a snapshot; \<open>saved\<close> is whether \<open>png_image_write_to_file\<close> succeeded.\<close>

definition write_png :: "bool \<Rightarrow> int" where
  "write_png saved = (if saved then 0 else -1)"

definition snapshot_good :: "image \<Rightarrow> bool \<Rightarrow> bool" where
  "snapshot_good im saved =
     (let total = im_width im * im_height im
      in \<not> (im_width im < 300 \<or> im_height im < 200 \<or> count_pixels im is_orange < total div 10 \<or>
         count_pixels im is_white < total div 10 \<or> count_pixels im is_dark < 200 \<or>
         count_pixels im is_blue < 200 \<or> write_png saved \<noteq> 0))"

section \<open>Sending the picture\<close>

text \<open>The lines of \<open>send_png\<close> for the base64 text of a file of \<open>len\<close> bytes.\<close>

function png_lines :: "string \<Rightarrow> string list" where
  "png_lines encoded =
     (if encoded = [] then [] else (''wpe-render: PNG '' @ take 96 encoded) # png_lines (drop 96 encoded))"
  by auto
termination by (relation "measure length") auto

declare png_lines.simps [simp del]

definition send_png :: "(nat \<times> string) option \<Rightarrow> render \<Rightarrow> render" where
  "send_png contents s =
     (case contents of
        None \<Rightarrow> s
      | Some (len, encoded) \<Rightarrow>
          ask (map Say ([''wpe-render: PNG-BEGIN '' @ decimal len] @ png_lines encoded @ [''wpe-render: PNG-END''])) s)"

section \<open>Callbacks\<close>

definition EXPECTED :: string where "EXPECTED = ''Orange OS 42|14+28+42''"

definition fail_line :: "image \<Rightarrow> bool \<Rightarrow> string" where
  "fail_line im saved =
     ''wpe-render: FAIL snapshot '' @ decimal (im_width im) @ ''x'' @ decimal (im_height im) @
     '': orange '' @ decimal (count_pixels im is_orange) @ '', white '' @ decimal (count_pixels im is_white) @
     '', text '' @ decimal (count_pixels im is_dark) @ '', bar '' @ decimal (count_pixels im is_blue) @
     '', png '' @ (if write_png saved = 0 then ''0'' else ''-1'')"

definition pass_line :: "image \<Rightarrow> string \<Rightarrow> string" where
  "pass_line im script =
     (let total = im_width im * im_height im in
     ''wpe-render: PASS rendered '' @ PAGE @ '' at '' @ decimal (im_width im) @ ''x'' @ decimal (im_height im) @
     '' on the CPU (orange '' @ decimal (count_pixels im is_orange * 100 div total) @ ''%, card '' @
     decimal (count_pixels im is_white * 100 div total) @ ''%, '' @ decimal (count_pixels im is_dark) @
     '' text pixels, gradient '' @ decimal (count_pixels im is_blue) @ '' px); page script: '' @
     [CHR 0x22] @ script @ [CHR 0x22] @ ''; PNG at '' @ OUTPUT)"

definition on_snapshot :: "(string, image \<times> bool \<times> (nat \<times> string) option) sum \<Rightarrow> render \<Rightarrow> render" where
  "on_snapshot outcome s =
     (case outcome of
        Inl message \<Rightarrow> finish 1 (ask [Say (''wpe-render: FAIL snapshot: '' @ message)] s)
      | Inr (im, saved, contents) \<Rightarrow>
          let s1 = ask [SavePng (im_width im) (im_height im) (im_stride im)] s
          in if \<not> snapshot_good im saved then finish 1 (ask [Say (fail_line im saved)] s1)
             else finish 0 (ask [Say (pass_line im (script_result s1))] (send_png contents s1)))"

text \<open>\<open>g_strlcpy\<close> into 128 bytes.\<close>

definition on_script :: "string + string \<Rightarrow> render \<Rightarrow> render" where
  "on_script outcome s =
     (case outcome of
        Inl message \<Rightarrow> finish 1 (ask [Say (''wpe-render: FAIL evaluate JavaScript: '' @ message)] s)
      | Inr txt \<Rightarrow>
          let s1 = s\<lparr>script_result := take 127 txt\<rparr>
          in if script_result s1 \<noteq> EXPECTED
             then finish 1 (ask [Say (''wpe-render: FAIL page state '' @ [CHR 0x22] @ script_result s1 @ [CHR 0x22])] s1)
             else ask [TakeSnapshot] s1)"

definition render_on_load :: "bool \<Rightarrow> render \<Rightarrow> render" where
  "render_on_load finished s = (if \<not> finished then s else ask [EvaluateScript] s)"

definition render_on_failed :: "string \<Rightarrow> string \<Rightarrow> render \<Rightarrow> render" where
  "render_on_failed uri message s = finish 1 (ask [Say (''wpe-render: FAIL loading '' @ uri @ '': '' @ message)] s)"

definition on_timeout :: "render \<Rightarrow> render" where
  "on_timeout s = finish 1 (ask [Say ''wpe-render: FAIL timed out''] s)"

section \<open>The main program\<close>

datatype render_event =
    LoadChanged bool | LoadFailed string string | Timeout
  | ScriptDone "string + string"
  | SnapshotDone "(string, image \<times> bool \<times> (nat \<times> string) option) sum"

fun render_step :: "render_event \<Rightarrow> render \<Rightarrow> render" where
  "render_step (LoadChanged finished) s = render_on_load finished s"
| "render_step (LoadFailed uri message) s = render_on_failed uri message s"
| "render_step Timeout s = on_timeout s"
| "render_step (ScriptDone outcome) s = on_script outcome s"
| "render_step (SnapshotDone outcome) s = on_snapshot outcome s"

fun render_loop :: "render_event list \<Rightarrow> render \<Rightarrow> render" where
  "render_loop [] s = s"
| "render_loop (e # es) s = (if quitting s then s else render_loop es (render_step e s))"

definition render_start :: "render" where
  "render_start = ask
     [SetEnv ''WEBKIT_SKIA_ENABLE_CPU_RENDERING'' ''1'', SetEnv ''HOME'' ''/tmp/wpe-home'',
      SetEnv ''XDG_CACHE_HOME'' ''/tmp/wpe-home/cache'', SetEnv ''XDG_DATA_HOME'' ''/tmp/wpe-home/data'',
      SetEnv ''XDG_RUNTIME_DIR'' ''/tmp/wpe-home/run'', MakeDirectories ''/tmp/wpe-home/run'', Connect] render_init"

text \<open>\<open>Inl\<close>: the display could not be connected.\<close>

definition render_main :: "(string, render_event list) sum \<Rightarrow> int" where
  "render_main outcome =
     (case outcome of
        Inl message \<Rightarrow> 1
      | Inr events \<Rightarrow> result (render_loop events (ask [LoadPage PAGE] render_start)))"


section \<open>Properties\<close>

lemma disjoint_tests:
  assumes "0 \<le> p0" "0 \<le> p1" "0 \<le> p2"
  shows "of_bool (is_orange (p0, p1, p2, p3)) + of_bool (is_white (p0, p1, p2, p3)) +
    of_bool (is_dark (p0, p1, p2, p3)) + of_bool (is_blue (p0, p1, p2, p3)) \<le> (1::nat)"
  using assms by (auto simp: is_orange_def is_white_def is_dark_def is_blue_def near_colour_def)

lemma count_pixels_sum:
  "count_pixels im f + count_pixels im g =
     sum_list (map (\<lambda>y. sum_list (map (\<lambda>x. (case pixel im x y of Some p \<Rightarrow> of_bool (f p) | None \<Rightarrow> 0) +
       (case pixel im x y of Some p \<Rightarrow> of_bool (g p) | None \<Rightarrow> 0)) [0..<im_width im])) [0..<im_height im])"
  by (simp add: count_pixels_def sum_list_addf)

text \<open>The four kinds of pixels the test counts are disjoint, so they are shares of one picture:
  their counts add up to at most its number of pixels.\<close>

theorem pixel_kinds_disjoint:
  "count_pixels im is_orange + count_pixels im is_white + count_pixels im is_dark + count_pixels im is_blue
     \<le> im_width im * im_height im"
proof -
  let ?n = "\<lambda>t x y. (case pixel im x y of Some p \<Rightarrow> of_bool (t p) | None \<Rightarrow> (0::nat))"
  have one: "?n is_orange x y + ?n is_white x y + ?n is_dark x y + ?n is_blue x y \<le> 1" for x y
    using disjoint_tests by (auto simp: pixel_def Let_def split: option.split)
  have "count_pixels im is_orange + count_pixels im is_white + count_pixels im is_dark + count_pixels im is_blue =
      sum_list (map (\<lambda>y. sum_list (map (\<lambda>x. ?n is_orange x y + ?n is_white x y + ?n is_dark x y + ?n is_blue x y)
        [0..<im_width im])) [0..<im_height im])"
    by (simp add: count_pixels_def sum_list_addf)
  also have "\<dots> \<le> sum_list (map (\<lambda>y. sum_list (map (\<lambda>x. 1) [0..<im_width im])) [0..<im_height im])"
    by (intro sum_list_mono one)
  also have "\<dots> = im_width im * im_height im"
    by (simp add: sum_list_triv)
  finally show ?thesis .
qed

text \<open>The picture survives its way over standard output: the lines between the markers, each
  at most 96 characters after their prefix, put together are the base64 text.\<close>

theorem png_lines_roundtrip:
  "concat (map (drop (length ''wpe-render: PNG '')) (png_lines encoded)) = encoded \<and>
   list_all (\<lambda>l. take (length ''wpe-render: PNG '') l = ''wpe-render: PNG '' \<and>
     length l \<le> length ''wpe-render: PNG '' + 96) (png_lines encoded)"
proof (induction encoded rule: png_lines.induct)
  case (1 encoded)
  show ?case
  proof (cases "encoded = []")
    case False
    then have "png_lines encoded = (''wpe-render: PNG '' @ take 96 encoded) # png_lines (drop 96 encoded)"
      by (simp add: png_lines.simps [of encoded])
    then show ?thesis using 1 [OF False] by simp
  qed (simp add: png_lines.simps)
qed

text \<open>The one event that may end the test well.\<close>

fun good_snapshot :: "render_event \<Rightarrow> bool" where
  "good_snapshot (SnapshotDone (Inr (im, saved, contents))) = snapshot_good im saved"
| "good_snapshot _ = False"

lemma render_step_result:
  assumes "\<not> good_snapshot e" "result s = 1"
  shows "result (render_step e s) = 1"
proof (cases e)
  case (SnapshotDone outcome)
  with assms show ?thesis
    by (cases outcome) (auto simp: on_snapshot_def finish_def Let_def)
qed (use assms in \<open>auto simp: render_on_load_def render_on_failed_def on_timeout_def on_script_def finish_def Let_def
    split: sum.split\<close>)

lemma render_loop_result:
  "list_all (\<lambda>e. \<not> good_snapshot e) es \<Longrightarrow> result s = 1 \<Longrightarrow> result (render_loop es s) = 1"
  by (induction es arbitrary: s) (simp_all add: render_step_result)


end
