(* ===== verification/KPipe.thy ===== *)
theory KPipe
  imports Prelude
begin

text \<open>
  Pipes (\<open>kernel/ipc/pipe.zig\<close>): a 64 KiB ring buffer from writers to readers. What \<open>read\<close> and
  \<open>write\<close> do each time they hold the pipe's lock is one step here (\<open>read_attempt\<close>,
  \<open>write_attempt\<close>), so that any interleaving of readers and writers is a sequence of steps; a
  call that would sleep says so.

  The ring is shown to implement a queue of bytes; what holds of every implementation of such a
  queue is proved once, in the locale \<open>byte_queue\<close>.
\<close>

section \<open>State\<close>

definition CAPACITY :: int where "CAPACITY = 64 * 1024"
definition ATOMIC_WRITE :: int where "ATOMIC_WRITE = 4096"

record pipe =
  buffer :: "int \<Rightarrow> u8"
  head :: int
  len :: int
  readers :: nat
  writers :: nat

datatype pipe_error = PWouldBlock | PBrokenPipe | PInterrupted

text \<open>How one turn of a blocking call ends: it returns, fails, goes round again with the count
  written so far, or sleeps.\<close>

datatype 'a attempt = Returns 'a | Fails pipe_error | Continues nat | Sleeps

definition pipe_create :: pipe where
  "pipe_create = \<lparr>buffer = (\<lambda>_. 0), head = 0, len = 0, readers = 1, writers = 1\<rparr>"

section \<open>Operations\<close>

text \<open>\<open>@memcpy\<close> out of and into the buffer.\<close>

definition slice :: "(int \<Rightarrow> u8) \<Rightarrow> int \<Rightarrow> int \<Rightarrow> u8 list" where
  "slice buf from count = map (\<lambda>k. buf (from + int k)) [0..<nat count]"

definition blit :: "int \<Rightarrow> u8 list \<Rightarrow> (int \<Rightarrow> u8) \<Rightarrow> int \<Rightarrow> u8" where
  "blit at0 xs buf = (\<lambda>i. if at0 \<le> i \<and> i < at0 + int (length xs) then xs ! nat (i - at0) else buf i)"

definition read_attempt :: "int \<Rightarrow> bool \<Rightarrow> bool \<Rightarrow> pipe \<Rightarrow> u8 list attempt \<times> pipe" where
  "read_attempt wanted nonblock interrupt p =
     (if wanted = 0 then (Returns [], p)
      else if len p > 0 then
        let count = min wanted (len p); first = min count (CAPACITY - head p)
        in (Returns (slice (buffer p) (head p) first @ slice (buffer p) 0 (count - first)),
            p\<lparr>head := (head p + count) mod CAPACITY, len := len p - count\<rparr>)
      else if writers p = 0 then (Returns [], p)
      else if nonblock then (Fails PWouldBlock, p)
      else if interrupt then (Fails PInterrupted, p)
      else (Sleeps, p))"

definition write_attempt :: "u8 list \<Rightarrow> nat \<Rightarrow> bool \<Rightarrow> bool \<Rightarrow> pipe \<Rightarrow> nat attempt \<times> pipe" where
  "write_attempt bytes done nonblock interrupt p =
     (if bytes = [] then (Returns 0, p)
      else if readers p = 0 then (if done > 0 then Returns done else Fails PBrokenPipe, p)
      else
        let space = CAPACITY - len p;
            remaining = int (length bytes) - int done;
            needed = (if int (length bytes) \<le> ATOMIC_WRITE then remaining else 1)
        in if space \<ge> needed then
             let count = min space remaining;
                 tail = (head p + len p) mod CAPACITY;
                 first = min count (CAPACITY - tail);
                 b1 = blit tail (take (nat first) (drop done bytes)) (buffer p);
                 b2 = blit 0 (take (nat (count - first)) (drop (done + nat first) bytes)) b1;
                 done' = done + nat count
             in (if done' = length bytes then Returns done' else Continues done',
                 p\<lparr>buffer := b2, len := len p + count\<rparr>)
           else if nonblock then (if done > 0 then Returns done else Fails PWouldBlock, p)
           else if interrupt then (if done > 0 then Returns done else Fails PInterrupted, p)
           else (Sleeps, p))"

text \<open>A whole \<open>write\<close> with no other thread in between: \<open>Sleeps\<close> when it blocks.\<close>

function write_loop :: "u8 list \<Rightarrow> nat \<Rightarrow> bool \<Rightarrow> pipe \<Rightarrow> nat attempt \<times> pipe" where
  "write_loop bytes done nonblock p =
     (case write_attempt bytes done nonblock False p of
        (Continues done', p') \<Rightarrow> if done < done' \<and> done' < length bytes then write_loop bytes done' nonblock p' else (Sleeps, p')
      | r \<Rightarrow> r)"
  by pat_completeness auto
termination by (relation "measure (\<lambda>(bytes, done, _). length bytes - done)") auto

record ready =
  readable :: bool
  writable :: bool
  hangup :: bool
  peer_closed :: bool

definition pipe_poll :: "pipe \<Rightarrow> ready" where
  "pipe_poll p = \<lparr>readable = (len p > 0 \<or> writers p = 0),
     writable = (readers p > 0 \<and> CAPACITY - len p \<ge> ATOMIC_WRITE),
     hangup = (writers p = 0), peer_closed = (readers p = 0)\<rparr>"

definition bytesAvailable :: "pipe \<Rightarrow> int" where
  "bytesAvailable p = len p"

text \<open>\<open>None\<close>: both ends are closed and the pipe is freed.\<close>

definition closeEnd :: "bool \<Rightarrow> pipe \<Rightarrow> pipe option" where
  "closeEnd writer p =
     (let p' = (if writer then p\<lparr>writers := writers p - 1\<rparr> else p\<lparr>readers := readers p - 1\<rparr>)
      in if readers p' = 0 \<and> writers p' = 0 then None else Some p')"

section \<open>The ring as a queue\<close>

definition pipe_ok :: "pipe \<Rightarrow> bool" where
  "pipe_ok p \<longleftrightarrow> 0 \<le> head p \<and> head p < CAPACITY \<and> 0 \<le> len p \<and> len p \<le> CAPACITY"

definition contents :: "pipe \<Rightarrow> u8 list" where
  "contents p = map (\<lambda>k. buffer p ((head p + int k) mod CAPACITY)) [0..<nat (len p)]"

lemma CAPACITY_pos [simp]: "0 < CAPACITY" "0 \<le> CAPACITY"
  by (simp_all add: CAPACITY_def)

lemma length_contents: "length (contents p) = nat (len p)"
  by (simp add: contents_def)

lemma contents_create [simp]: "contents pipe_create = []" "pipe_ok pipe_create"
  by (simp_all add: contents_def pipe_create_def pipe_ok_def)

lemma wrapped_read:
  assumes "0 \<le> h" "h < CAPACITY" "0 \<le> n" "n \<le> CAPACITY"
  shows "slice buf h (min n (CAPACITY - h)) @ slice buf 0 (n - min n (CAPACITY - h)) =
    map (\<lambda>k. buf ((h + int k) mod CAPACITY)) [0..<nat n]"
proof (rule nth_equalityI)
  let ?f = "min n (CAPACITY - h)"
  show "length (slice buf h ?f @ slice buf 0 (n - ?f)) = length (map (\<lambda>k. buf ((h + int k) mod CAPACITY)) [0..<nat n])"
    using assms by (simp add: slice_def)
  fix i assume "i < length (slice buf h ?f @ slice buf 0 (n - ?f))"
  then have i: "int i < n" using assms by (simp add: slice_def)
  show "(slice buf h ?f @ slice buf 0 (n - ?f)) ! i = map (\<lambda>k. buf ((h + int k) mod CAPACITY)) [0..<nat n] ! i"
  proof (cases "int i < ?f")
    case True
    then have "(h + int i) mod CAPACITY = h + int i" using assms by (intro mod_pos_pos_trivial) auto
    moreover have "i < nat ?f" "i < nat n" using True i by linarith+
    ultimately show ?thesis using i assms by (simp add: slice_def nth_append)
  next
    case False
    then have f: "?f = CAPACITY - h" using i by (auto simp: min_def split: if_splits)
    have "(h + int i) mod CAPACITY = (h + int i - CAPACITY) mod CAPACITY" by simp
    also have "\<dots> = h + int i - CAPACITY" using False f i assms by (intro mod_pos_pos_trivial) auto
    finally have m: "(h + int i) mod CAPACITY = int i - ?f" using f by simp
    have g: "0 \<le> ?f" using assms by simp
    have "\<not> i < nat ?f" "i - nat ?f < nat (n - ?f)" "int (i - nat ?f) = int i - ?f" "i < nat n"
      using False i g by linarith+
    then show ?thesis unfolding slice_def using assms(2) by (simp add: nth_append m)
  qed
qed

lemma blit_in: "a \<le> i \<Longrightarrow> i < a + int (length xs) \<Longrightarrow> blit a xs buf i = xs ! nat (i - a)"
  by (simp add: blit_def)

lemma blit_out: "i < a \<or> a + int (length xs) \<le> i \<Longrightarrow> blit a xs buf i = buf i"
  by (auto simp: blit_def)

lemma read_attempt_contents:
  assumes ok: "pipe_ok p" and w: "0 < wanted" and l: "0 < len p"
  shows "\<exists>p'. read_attempt wanted nonblock interrupt p = (Returns (take (nat wanted) (contents p)), p') \<and>
    contents p' = drop (nat wanted) (contents p) \<and> pipe_ok p' \<and> readers p' = readers p \<and> writers p' = writers p"
proof -
  let ?n = "min wanted (len p)"
  define p' where "p' = p\<lparr>head := (head p + ?n) mod CAPACITY, len := len p - ?n\<rparr>"
  have b: "0 \<le> head p" "head p < CAPACITY" "0 \<le> ?n" "?n \<le> CAPACITY" using ok w by (auto simp: pipe_ok_def)
  have "map (\<lambda>k. buffer p ((head p + int k) mod CAPACITY)) [0..<nat ?n] = take (nat wanted) (contents p)"
    using w by (auto simp: contents_def take_map min_def)
  then have r: "read_attempt wanted nonblock interrupt p = (Returns (take (nat wanted) (contents p)), p')"
    using wrapped_read [OF b, of "buffer p"] w l by (simp add: read_attempt_def Let_def p'_def)
  have "contents p' = drop (nat wanted) (contents p)"
  proof (rule nth_equalityI)
    show "length (contents p') = length (drop (nat wanted) (contents p))"
      using w l by (auto simp: length_contents p'_def min_def)
    fix i assume i: "i < length (contents p')"
    then have "int i < len p - ?n" by (simp add: length_contents p'_def)
    moreover from this have "wanted \<le> len p" using w by (auto simp: min_def split: if_splits)
    ultimately show "contents p' ! i = drop (nat wanted) (contents p) ! i"
      using w by (simp add: contents_def p'_def mod_simps add.assoc)
  qed
  moreover have "pipe_ok p'" using ok w l by (auto simp: pipe_ok_def p'_def)
  ultimately show ?thesis using r by (auto simp: p'_def)
qed

text \<open>The free part of the ring does not meet the used part.\<close>

lemma ring_disjoint:
  assumes h: "0 \<le> h" "h < CAPACITY" "0 \<le> l" "l \<le> CAPACITY" and f: "f = min m (CAPACITY - (h + l) mod CAPACITY)"
    and m: "m \<le> CAPACITY - l" and i: "int i < l" and j: "j = (h + int i) mod CAPACITY"
    and t: "t = (h + l) mod CAPACITY"
  shows "\<not> (t \<le> j \<and> j < t + f) \<and> \<not> (0 \<le> j \<and> j < m - f)"
proof -
  have split: "x mod CAPACITY = (if x < CAPACITY then x else x - CAPACITY)" if "0 \<le> x" "x < 2 * CAPACITY" for x
  proof (cases "x < CAPACITY")
    case False
    have "x mod CAPACITY = (x - CAPACITY) mod CAPACITY" by simp
    also have "\<dots> = x - CAPACITY" using False that by (intro mod_pos_pos_trivial) auto
    finally show ?thesis using False by simp
  qed (use that in simp)
  have "j = (if h + int i < CAPACITY then h + int i else h + int i - CAPACITY)"
    unfolding j by (rule split) (use h i in auto)
  moreover have "t = (if h + l < CAPACITY then h + l else h + l - CAPACITY)"
    unfolding t by (rule split) (use h in auto)
  ultimately show ?thesis using h m i f t [symmetric] by (auto simp: min_def split: if_splits)
qed

text \<open>Writing a count of bytes that fit, in one or two pieces.\<close>

lemma nth_contents: "int i < len p \<Longrightarrow> contents p ! i = buffer p ((head p + int i) mod CAPACITY)"
proof -
  assume "int i < len p"
  then have "i < nat (len p)" by linarith
  then show ?thesis by (simp add: contents_def)
qed

lemma wrapped_write:
  assumes ok: "pipe_ok p" and n: "int (length xs) \<le> CAPACITY - len p"
  defines "tail \<equiv> (head p + len p) mod CAPACITY"
  defines "first \<equiv> min (int (length xs)) (CAPACITY - tail)"
  defines "buf \<equiv> blit 0 (drop (nat first) xs) (blit tail (take (nat first) xs) (buffer p))"
  shows "contents (p\<lparr>buffer := buf, len := len p + int (length xs)\<rparr>) = contents p @ xs"
proof (rule nth_equalityI)
  let ?p = "p\<lparr>buffer := buf, len := len p + int (length xs)\<rparr>"
  have b: "0 \<le> head p" "head p < CAPACITY" "0 \<le> len p" "len p \<le> CAPACITY" using ok by (auto simp: pipe_ok_def)
  have t: "0 \<le> tail" "tail < CAPACITY" by (simp_all add: tail_def)
  have f: "0 \<le> first" "first \<le> int (length xs)" "first \<le> CAPACITY - tail" using t by (auto simp: first_def)
  have l: "int (length (take (nat first) xs)) = first" "int (length (drop (nat first) xs)) = int (length xs) - first"
    using f by simp_all
  show len: "length (contents ?p) = length (contents p @ xs)"
    using b by (simp add: length_contents nat_add_distrib)
  fix i assume "i < length (contents ?p)"
  then have i: "int i < len p + int (length xs)" using b len by (simp add: length_contents)
  define j where "j = (head p + int i) mod CAPACITY"
  have "contents ?p ! i = buf j"
    using nth_contents [of i ?p] i by (simp add: j_def)
  also have "buf j = (contents p @ xs) ! i"
  proof (cases "int i < len p")
    case True
    have d: "\<not> (tail \<le> j \<and> j < tail + first) \<and> \<not> (0 \<le> j \<and> j < int (length xs) - first)"
      by (rule ring_disjoint [OF b _ n True]) (simp_all add: tail_def first_def j_def)
    have "0 \<le> j" by (simp add: j_def)
    with d have "buf j = buffer p j"
      unfolding buf_def by (subst blit_out; (subst blit_out)?) (auto simp: l)
    moreover have "i < length (contents p)" using True by (simp add: length_contents)
    ultimately show ?thesis using nth_contents [OF True] by (simp add: nth_append j_def)
  next
    case False
    define k where "k = nat (int i - len p)"
    have k: "k < length xs" "int i = len p + int k" "i = nat (len p) + k" using False i b by (auto simp: k_def)
    have j: "j = (tail + int k) mod CAPACITY" by (simp add: j_def k(2) tail_def mod_simps add.assoc)
    have "buf j = xs ! k"
    proof (cases "int k < CAPACITY - tail")
      case True
      then have j': "j = tail + int k" using j t by simp
      have kf: "int k < first" using True k(1) by (simp add: first_def)
      have "first = int (length xs) \<or> first = CAPACITY - tail" by (auto simp: first_def)
      then have "int (length xs) - first \<le> j" using n b t j' by auto
      then have "buf j = blit tail (take (nat first) xs) (buffer p) j"
        unfolding buf_def using l(2) by (intro blit_out disjI2) linarith
      also have "\<dots> = take (nat first) xs ! nat (j - tail)"
        by (rule blit_in) (use j' kf l in auto)
      also have "\<dots> = xs ! k" using j' kf by simp
      finally show ?thesis .
    next
      case c: False
      then have "j = (tail + int k - CAPACITY) mod CAPACITY" using j by simp
      also have "\<dots> = tail + int k - CAPACITY" using c t k(1) n b by (intro mod_pos_pos_trivial) auto
      finally have j': "j = tail + int k - CAPACITY" .
      have fc: "first = CAPACITY - tail" using c k(1) by (simp add: first_def)
      have "buf j = drop (nat first) xs ! nat (j - 0)"
        unfolding buf_def by (rule blit_in) (use j' c k(1) l fc in auto)
      also have "\<dots> = xs ! (nat first + nat j)" using f by (simp add: add.commute)
      also have "nat first + nat j = k" using j' fc c t f by linarith
      finally show ?thesis .
    qed
    moreover have "(contents p @ xs) ! i = xs ! k" using k(3) by (simp add: nth_append length_contents)
    ultimately show ?thesis by simp
  qed
  finally show "contents ?p ! i = (contents p @ xs) ! i" .
qed


text \<open>A write attempt with room appends the bytes that fit; one without leaves the pipe alone.\<close>

definition accepts :: "u8 list \<Rightarrow> nat \<Rightarrow> pipe \<Rightarrow> bool" where
  "accepts bytes done p \<longleftrightarrow> bytes \<noteq> [] \<and> readers p > 0 \<and>
     (if int (length bytes) \<le> ATOMIC_WRITE then int (length bytes) - int done else 1) \<le> CAPACITY - len p"

lemma write_attempt_accepted:
  assumes ok: "pipe_ok p" and d: "done < length bytes" and a: "accepts bytes done p"
  defines "n \<equiv> min (nat (CAPACITY - len p)) (length bytes - done)"
  shows "\<exists>p'. write_attempt bytes done nonblock interrupt p =
      (if done + n = length bytes then Returns (length bytes) else Continues (done + n), p') \<and>
    contents p' = contents p @ take n (drop done bytes) \<and> pipe_ok p' \<and> 0 < n \<and>
    readers p' = readers p \<and> writers p' = writers p"
proof -
  define xs where "xs = take n (drop done bytes)"
  have lp: "len p \<le> CAPACITY" "0 \<le> len p" using ok by (auto simp: pipe_ok_def)
  have n: "int n = min (CAPACITY - len p) (int (length bytes) - int done)" "length xs = n"
    using d lp by (auto simp: n_def xs_def)
  define tail where "tail = (head p + len p) mod CAPACITY"
  define first where "first = min (int n) (CAPACITY - tail)"
  have f: "0 \<le> first" "first \<le> int n" by (auto simp: first_def tail_def less_imp_le)
  have pieces: "take (nat first) (drop done bytes) = take (nat first) xs"
    "take (nat (int n - first)) (drop (done + nat first) bytes) = drop (nat first) xs"
    using f by (auto simp: xs_def min_def nat_diff_distrib drop_take add.commute)
  define buf where "buf = blit 0 (drop (nat first) xs) (blit tail (take (nat first) xs) (buffer p))"
  define p' where "p' = p\<lparr>buffer := buf, len := len p + int n\<rparr>"
  have c: "contents p' = contents p @ xs"
    using wrapped_write [OF ok, of xs] n lp by (simp add: p'_def buf_def tail_def first_def)
  have "bytes \<noteq> []" "readers p \<noteq> 0"
    "(if int (length bytes) \<le> ATOMIC_WRITE then int (length bytes) - int done else 1) \<le> CAPACITY - len p"
    using a by (auto simp: accepts_def)
  then have w: "write_attempt bytes done nonblock interrupt p =
      (if done + n = length bytes then Returns (done + n) else Continues (done + n), p')"
    unfolding write_attempt_def Let_def n(1) [symmetric] tail_def [symmetric] first_def [symmetric] pieces
      buf_def [symmetric] p'_def [symmetric] by simp
  have "0 < n" using a d n(1) by (auto simp: accepts_def split: if_splits)
  moreover have "pipe_ok p'" using ok n lp by (auto simp: pipe_ok_def p'_def)
  ultimately show ?thesis using w c by (auto simp: xs_def p'_def)
qed

lemma write_attempt_refused:
  assumes "done < length bytes" "\<not> accepts bytes done p"
  shows "snd (write_attempt bytes done nonblock interrupt p) = p"
    "fst (write_attempt bytes done nonblock interrupt p) =
      (if readers p = 0 then (if done > 0 then Returns done else Fails PBrokenPipe)
       else if nonblock then (if done > 0 then Returns done else Fails PWouldBlock)
       else if interrupt then (if done > 0 then Returns done else Fails PInterrupted)
       else Sleeps)"
proof -
  let ?fits = "(if int (length bytes) \<le> ATOMIC_WRITE then int (length bytes) - int done else 1) \<le> CAPACITY - len p"
  have b: "bytes \<noteq> []" using assms(1) by auto
  have w: "write_attempt bytes done nonblock interrupt p =
      (if readers p = 0 then (if done > 0 then Returns done else Fails PBrokenPipe, p)
       else if nonblock then (if done > 0 then Returns done else Fails PWouldBlock, p)
       else if interrupt then (if done > 0 then Returns done else Fails PInterrupted, p)
       else (Sleeps, p))"
  proof (cases "readers p = 0")
    case True
    show ?thesis unfolding write_attempt_def if_not_P [OF b] if_P [OF True] by (rule refl)
  next
    case False
    then have "\<not> ?fits" using assms(2) b unfolding accepts_def by blast
    then show ?thesis unfolding write_attempt_def Let_def if_not_P [OF b] if_not_P [OF False] by (simp only: if_False)
  qed
  show "snd (write_attempt bytes done nonblock interrupt p) = p" unfolding w by simp
  show "fst (write_attempt bytes done nonblock interrupt p) =
      (if readers p = 0 then (if done > 0 then Returns done else Fails PBrokenPipe)
       else if nonblock then (if done > 0 then Returns done else Fails PWouldBlock)
       else if interrupt then (if done > 0 then Returns done else Fails PInterrupted)
       else Sleeps)" unfolding w by simp
qed

lemma read_attempt_empty:
  assumes "pipe_ok p" "\<not> 0 < len p" "0 < wanted"
  shows "read_attempt wanted nonblock interrupt p =
    (if writers p = 0 then Returns [] else if nonblock then Fails PWouldBlock
     else if interrupt then Fails PInterrupted else Sleeps, p)"
  using assms by (simp add: read_attempt_def)


section \<open>Queues of bytes\<close>

text \<open>A writer offers the bytes of a buffer from a position on, a reader takes up to a number of
  bytes.\<close>

datatype queue_op = Put "u8 list" nat | Get nat

text \<open>A run of operations: the bytes accepted, the bytes delivered, and the state.\<close>

definition queue_step ::
  "(u8 list \<Rightarrow> nat \<Rightarrow> 's \<Rightarrow> u8 list \<times> 's) \<Rightarrow> (nat \<Rightarrow> 's \<Rightarrow> u8 list \<times> 's) \<Rightarrow> queue_op \<Rightarrow>
    u8 list \<times> u8 list \<times> 's \<Rightarrow> u8 list \<times> u8 list \<times> 's" where
  "queue_step put get op = (\<lambda>(sent, got, s).
     case op of
       Put bytes done \<Rightarrow> let (xs, s') = put bytes done s in (sent @ xs, got, s')
     | Get n \<Rightarrow> let (xs, s') = get n s in (sent, got @ xs, s'))"

locale byte_queue =
  fixes valid :: "'s \<Rightarrow> bool"
    and queue :: "'s \<Rightarrow> u8 list"
    and put :: "u8 list \<Rightarrow> nat \<Rightarrow> 's \<Rightarrow> u8 list \<times> 's"
    and get :: "nat \<Rightarrow> 's \<Rightarrow> u8 list \<times> 's"
  assumes put_valid: "valid s \<Longrightarrow> valid (snd (put bytes done s))"
    and put_queue: "valid s \<Longrightarrow> queue (snd (put bytes done s)) = queue s @ fst (put bytes done s)"
    and get_valid: "valid s \<Longrightarrow> valid (snd (get n s))"
    and get_queue: "valid s \<Longrightarrow> queue s = fst (get n s) @ queue (snd (get n s))"
begin

lemma step_balance:
  assumes "valid s" "queue_step put get op (sent, got, s) = (sent', got', s')" "q @ sent = got @ queue s"
  shows "valid s' \<and> q @ sent' = got' @ queue s'"
proof (cases op)
  case (Put bytes "done")
  then show ?thesis
    using assms put_valid [OF assms(1), of bytes "done"] put_queue [OF assms(1), of bytes "done"]
    by (auto simp: queue_step_def case_prod_beta Let_def)
next
  case (Get n)
  then show ?thesis
    using assms get_valid [OF assms(1), of n] get_queue [OF assms(1), of n]
    by (auto simp: queue_step_def case_prod_beta Let_def)
qed

text \<open>Nothing is lost, duplicated or reordered, however writes and reads interleave.\<close>

lemma run_balance:
  assumes "valid s" "fold (queue_step put get) ops (sent, got, s) = (sent', got', s')" "q @ sent = got @ queue s"
  shows "valid s' \<and> q @ sent' = got' @ queue s'"
  using assms
proof (induction ops arbitrary: sent got s)
  case (Cons op ops)
  obtain sent1 got1 s1 where st: "queue_step put get op (sent, got, s) = (sent1, got1, s1)"
    by (metis prod.exhaust)
  from step_balance [OF Cons.prems(1) st Cons.prems(3)] Cons.IH [of s1 sent1 got1] Cons.prems(2) st
  show ?case by simp
qed simp

lemma stream_intact:
  assumes "valid s" "fold (queue_step put get) ops ([], [], s) = (sent, got, s')"
  shows "valid s' \<and> queue s @ sent = got @ queue s'"
  using run_balance [OF assms, of "queue s"] by simp

end

text \<open>The pipe's attempts as such operations.\<close>

definition pipe_put :: "u8 list \<Rightarrow> nat \<Rightarrow> pipe \<Rightarrow> u8 list \<times> pipe" where
  "pipe_put bytes done p =
     (if \<not> done < length bytes then ([], p)
      else case write_attempt bytes done False False p of
        (Returns n, p') \<Rightarrow> (take (n - done) (drop done bytes), p')
      | (Continues n, p') \<Rightarrow> (take (n - done) (drop done bytes), p')
      | (_, p') \<Rightarrow> ([], p'))"

definition pipe_get :: "nat \<Rightarrow> pipe \<Rightarrow> u8 list \<times> pipe" where
  "pipe_get n p = (case read_attempt (int n) False False p of (Returns xs, p') \<Rightarrow> (xs, p') | (_, p') \<Rightarrow> ([], p'))"

lemma pipe_put_ok:
  assumes "pipe_ok p"
  shows "pipe_ok (snd (pipe_put bytes done p)) \<and>
    contents (snd (pipe_put bytes done p)) = contents p @ fst (pipe_put bytes done p)"
proof (cases "done < length bytes \<and> accepts bytes done p")
  case True
  from write_attempt_accepted [OF assms, of "done" bytes False False] True obtain p' where
    "write_attempt bytes done False False p =
      (if done + min (nat (CAPACITY - len p)) (length bytes - done) = length bytes then Returns (length bytes)
       else Continues (done + min (nat (CAPACITY - len p)) (length bytes - done)), p')"
    "contents p' = contents p @ take (min (nat (CAPACITY - len p)) (length bytes - done)) (drop done bytes)" "pipe_ok p'"
    by auto
  then show ?thesis using True by (auto simp: pipe_put_def min_def split: if_splits)
next
  case False
  show ?thesis
  proof (cases "done < length bytes")
    case d: True
    have n: "\<not> accepts bytes done p" using False d by simp
    show ?thesis
      using write_attempt_refused [OF d n, of False False] assms d
      by (auto simp: pipe_put_def split: prod.split attempt.split if_splits)
  qed (use assms in \<open>simp add: pipe_put_def\<close>)
qed

lemma pipe_get_ok:
  assumes "pipe_ok p"
  shows "pipe_ok (snd (pipe_get n p)) \<and> contents p = fst (pipe_get n p) @ contents (snd (pipe_get n p))"
proof (cases "n = 0 \<or> \<not> 0 < len p")
  case True
  then show ?thesis using assms by (auto simp: pipe_get_def read_attempt_def)
next
  case False
  then show ?thesis
    using read_attempt_contents [OF assms, of "int n" False False] by (auto simp: pipe_get_def)
qed

interpretation pipe_queue: byte_queue pipe_ok contents pipe_put pipe_get
  by unfold_locales (auto simp: pipe_put_ok pipe_get_ok)

text \<open>C3: A pipe is a queue: however its writers and readers interleave, at whatever sizes and
  wherever the ring wraps, the bytes accepted from writers are exactly the bytes delivered to
  readers followed by those still in the pipe, in order.\<close>

theorem pipe_is_fifo:
  assumes "fold (queue_step pipe_put pipe_get) ops ([], [], pipe_create) = (sent, got, p)"
  shows "sent = got @ contents p \<and> int (length (contents p)) \<le> CAPACITY"
  using pipe_queue.stream_intact [OF contents_create(2) assms] by (auto simp: length_contents pipe_ok_def)

theorem pipe_is_fifo_witness:
  "\<exists>sent got p. fold (queue_step pipe_put pipe_get) [Put [1, 2, 3] 0, Get 2, Put [4] 0] ([], [], pipe_create) = (sent, got, p) \<and>
     sent = got @ contents p"
proof -
  obtain sent got p where "fold (queue_step pipe_put pipe_get) [Put [1, 2, 3] 0, Get 2, Put [4] 0] ([], [], pipe_create) =
      (sent, got, p)" by (metis prod.exhaust)
  from pipe_is_fifo [OF this] this show ?thesis by blast
qed

end
