(* ===== verification/PipeThreads.thy ===== *)
theory PipeThreads
  imports KPipe
begin

text \<open>
  The threads of \<open>userland/bin/pipe-probe/probe.c\<close> over the kernel's pipes: a writer that
  streams 1 MiB to a blocking reader, and several writers whose small records must not mix. A
  thread's system call is a sequence of attempts under the pipe's lock, so a state of the whole is
  the pipe and what each thread has done, and a run is any interleaving of their steps.
\<close>

definition STREAM_BYTES :: nat where "STREAM_BYTES = 2 ^ 20"
definition CHUNK :: nat where "CHUNK = 1000"

section \<open>The stream\<close>

text \<open>The byte the writer puts at a position of the stream.\<close>

definition stream_byte :: "nat \<Rightarrow> u8" where
  "stream_byte k = of_nat (k * 31)"

definition chunk :: "nat \<Rightarrow> u8 list" where
  "chunk sent = map (\<lambda>i. stream_byte (sent + i)) [0..<min CHUNK (STREAM_BYTES - sent)]"

record stream_sys =
  s_pipe :: pipe
  s_sent :: nat
  s_closed :: bool
  s_received :: "u8 list"
  s_eof :: bool

definition stream_start :: stream_sys where
  "stream_start = \<lparr>s_pipe = pipe_create, s_sent = 0, s_closed = False, s_received = [], s_eof = False\<rparr>"

text \<open>\<open>stream_writer\<close>: a write of the next chunk that returned, or its \<open>close\<close> at the end; the
  reading loop of \<open>main\<close>: a read that returned data, or end of file.\<close>

inductive transfer_step :: "stream_sys \<Rightarrow> stream_sys \<Rightarrow> bool" where
  wrote: "s_sent s < STREAM_BYTES \<Longrightarrow> write_attempt (chunk (s_sent s)) 0 False False (s_pipe s) = (Returns w, p) \<Longrightarrow> 0 < w \<Longrightarrow>
    transfer_step s (s\<lparr>s_pipe := p, s_sent := s_sent s + w\<rparr>)"
| closed: "\<not> s_sent s < STREAM_BYTES \<Longrightarrow> \<not> s_closed s \<Longrightarrow> closeEnd True (s_pipe s) = Some p \<Longrightarrow>
    transfer_step s (s\<lparr>s_pipe := p, s_closed := True\<rparr>)"
| received: "\<not> s_eof s \<Longrightarrow> read_attempt 4096 False False (s_pipe s) = (Returns xs, p) \<Longrightarrow> xs \<noteq> [] \<Longrightarrow>
    transfer_step s (s\<lparr>s_pipe := p, s_received := s_received s @ xs\<rparr>)"
| eof: "\<not> s_eof s \<Longrightarrow> read_attempt 4096 False False (s_pipe s) = (Returns [], p) \<Longrightarrow>
    transfer_step s (s\<lparr>s_pipe := p, s_eof := True\<rparr>)"

inductive_cases transfer_stepE: "transfer_step s s'"

definition stream_prefix :: "nat \<Rightarrow> u8 list" where
  "stream_prefix n = map stream_byte [0..<n]"

lemma stream_prefix_add: "stream_prefix n @ map (\<lambda>i. stream_byte (n + i)) [0..<m] = stream_prefix (n + m)"
  by (induction m) (simp_all add: stream_prefix_def)

lemma length_chunk: "length (chunk n) = min CHUNK (STREAM_BYTES - n)"
  by (simp add: chunk_def)

definition stream_inv :: "stream_sys \<Rightarrow> bool" where
  "stream_inv s \<longleftrightarrow> pipe_ok (s_pipe s) \<and> readers (s_pipe s) = 1 \<and>
     writers (s_pipe s) = (if s_closed s then 0 else 1) \<and> s_sent s \<le> STREAM_BYTES \<and>
     (s_closed s \<longrightarrow> s_sent s = STREAM_BYTES) \<and> (s_eof s \<longrightarrow> s_closed s \<and> contents (s_pipe s) = []) \<and>
     s_received s @ contents (s_pipe s) = stream_prefix (s_sent s)"

lemma small_write:
  assumes "pipe_ok p" "bytes \<noteq> []" "int (length bytes) \<le> ATOMIC_WRITE" "readers p > 0"
  shows "write_attempt bytes 0 False False p = (Returns w, p') \<Longrightarrow>
      w = length bytes \<and> contents p' = contents p @ bytes \<and> pipe_ok p' \<and> readers p' = readers p \<and> writers p' = writers p"
    and "int (length bytes) \<le> CAPACITY - len p \<Longrightarrow> \<exists>p'. write_attempt bytes 0 False False p = (Returns (length bytes), p')"
proof -
  have a: "accepts bytes 0 p \<longleftrightarrow> int (length bytes) \<le> CAPACITY - len p"
    using assms by (simp add: accepts_def)
  have pos: "0 < length bytes" using assms(2) by simp
  let ?n = "min (nat (CAPACITY - len p)) (length bytes - 0)"
  have full: "?n = length bytes" if "int (length bytes) \<le> CAPACITY - len p" using that by simp
  show "w = length bytes \<and> contents p' = contents p @ bytes \<and> pipe_ok p' \<and> readers p' = readers p \<and> writers p' = writers p"
    if w: "write_attempt bytes 0 False False p = (Returns w, p')"
  proof (cases "accepts bytes 0 p")
    case True
    with write_attempt_accepted [OF assms(1) pos True, of False False] w full a show ?thesis by auto
  next
    case False
    with write_attempt_refused(2) [OF pos False, of False False] w assms(4) show ?thesis by simp
  qed
  show "\<exists>p'. write_attempt bytes 0 False False p = (Returns (length bytes), p')"
    if r: "int (length bytes) \<le> CAPACITY - len p"
    using write_attempt_accepted [OF assms(1) pos, of False False] a r full [OF r] by auto
qed

lemma chunk_small: "int (length (chunk n)) \<le> ATOMIC_WRITE" "n < STREAM_BYTES \<Longrightarrow> chunk n \<noteq> []"
  by (auto simp: chunk_def ATOMIC_WRITE_def CHUNK_def)

lemma stream_inv_start: "stream_inv stream_start"
  by (simp add: stream_inv_def stream_start_def stream_prefix_def) (simp add: pipe_create_def)

lemma stream_inv_step:
  assumes inv: "stream_inv s" and st: "transfer_step s s'"
  shows "stream_inv s'"
  using st
proof cases
  case (wrote w p)
  note sw = small_write(1) [OF _ chunk_small(2) [OF wrote(2)] chunk_small(1) _ wrote(3)]
  have "w = length (chunk (s_sent s))" "contents p = contents (s_pipe s) @ chunk (s_sent s)" "pipe_ok p"
    "readers p = readers (s_pipe s)" "writers p = writers (s_pipe s)"
    using sw inv by (auto simp: stream_inv_def)
  moreover have "stream_prefix (s_sent s) @ chunk (s_sent s) = stream_prefix (s_sent s + length (chunk (s_sent s)))"
    unfolding length_chunk unfolding chunk_def by (rule stream_prefix_add)
  then have "s_received s @ contents (s_pipe s) @ chunk (s_sent s) = stream_prefix (s_sent s + length (chunk (s_sent s)))"
    using inv by (simp add: stream_inv_def flip: append_assoc)
  ultimately show ?thesis
    using inv wrote(1,2) by (auto simp: stream_inv_def length_chunk)
next
  case (closed p)
  then have "p = (s_pipe s)\<lparr>writers := 0\<rparr>"
    using inv by (auto simp: closeEnd_def Let_def stream_inv_def)
  then show ?thesis
    using inv closed by (auto simp: stream_inv_def pipe_ok_def contents_def)
next
  case (received xs p)
  have l: "0 < len (s_pipe s)"
  proof (rule ccontr)
    assume "\<not> 0 < len (s_pipe s)"
    then show False using received inv read_attempt_empty [of "s_pipe s" 4096 False False]
      by (auto simp: stream_inv_def split: if_splits)
  qed
  with read_attempt_contents [of "s_pipe s" 4096 False False] received inv
  have "xs = take 4096 (contents (s_pipe s))" "contents p = drop 4096 (contents (s_pipe s))" "pipe_ok p"
    "readers p = readers (s_pipe s)" "writers p = writers (s_pipe s)"
    by (auto simp: stream_inv_def)
  then show ?thesis using inv received by (auto simp: stream_inv_def)
next
  case (eof p)
  have l: "\<not> 0 < len (s_pipe s)"
  proof
    assume l: "0 < len (s_pipe s)"
    with read_attempt_contents [of "s_pipe s" 4096 False False] eof inv
    have "take 4096 (contents (s_pipe s)) = []" by (auto simp: stream_inv_def)
    then show False using l by (simp add: length_contents flip: length_0_conv)
  qed
  have "contents (s_pipe s) = []" using l by (simp add: contents_def)
  moreover have "writers (s_pipe s) = 0" "p = s_pipe s"
    using eof inv l read_attempt_empty [of "s_pipe s" 4096 False False] by (auto simp: stream_inv_def split: if_splits)
  ultimately show ?thesis using inv eof by (auto simp: stream_inv_def split: if_splits)
qed

text \<open>C7: The 1 MiB stream arrives intact: in every interleaving of the writer and the blocking
  reader, what has been received is a prefix of the stream the writer sends, and when the
  reader sees end of file it has received all of it.\<close>

theorem stream_arrives_intact:
  assumes "transfer_step\<^sup>*\<^sup>* stream_start s"
  shows "s_received s = take (length (s_received s)) (stream_prefix STREAM_BYTES) \<and>
    (s_eof s \<longrightarrow> s_received s = stream_prefix STREAM_BYTES)"
proof -
  have inv: "stream_inv s"
    using assms by (induction rule: rtranclp_induct) (auto intro: stream_inv_start stream_inv_step)
  have "stream_prefix (s_sent s) = take (s_sent s) (stream_prefix STREAM_BYTES)"
    using inv by (simp add: stream_inv_def stream_prefix_def take_map)
  moreover have "s_received s = take (length (s_received s)) (stream_prefix (s_sent s))"
    using inv unfolding stream_inv_def by (metis append_eq_conv_conj)
  moreover have "length (s_received s) \<le> s_sent s"
    using inv unfolding stream_inv_def by (metis append_eq_conv_conj length_append length_map length_upt le_add1 minus_nat.diff_0 stream_prefix_def)
  ultimately show ?thesis
    using inv by (auto simp: stream_inv_def take_take min_def)
qed


theorem stream_arrives_intact_witness:
  "s_received stream_start = take (length (s_received stream_start)) (stream_prefix STREAM_BYTES)"
  using stream_arrives_intact [of stream_start] by simp

text \<open>A measure that every step decreases: bytes to send, to receive, then the two ends.\<close>

definition stream_left :: "stream_sys \<Rightarrow> nat" where
  "stream_left s = (STREAM_BYTES - s_sent s) + (STREAM_BYTES - length (s_received s)) +
     (if s_closed s then 0 else 1) + (if s_eof s then 0 else 1)"

lemma received_le: "stream_inv s \<Longrightarrow> length (s_received s) + length (contents (s_pipe s)) = s_sent s"
proof -
  assume "stream_inv s"
  then have "length (s_received s @ contents (s_pipe s)) = length (stream_prefix (s_sent s))"
    by (simp add: stream_inv_def)
  then show ?thesis by (simp add: stream_prefix_def)
qed

lemma stream_step_decreases:
  assumes inv: "stream_inv s" and st: "transfer_step s s'"
  shows "stream_left s' < stream_left s"
  using st
proof cases
  case (wrote w p)
  have "s_sent s + w \<le> STREAM_BYTES" using stream_inv_step [OF inv st] wrote by (simp add: stream_inv_def)
  then show ?thesis using wrote by (simp add: stream_left_def)
next
  case (received xs p)
  have "length (s_received s') \<le> STREAM_BYTES"
    using received_le [OF stream_inv_step [OF inv st]] stream_inv_step [OF inv st] by (simp add: stream_inv_def)
  then show ?thesis using received by (cases xs) (simp_all add: stream_left_def)
qed (simp_all add: stream_left_def)

lemma stream_not_stuck:
  assumes inv: "stream_inv s" and e: "\<not> s_eof s"
  shows "\<exists>s'. transfer_step s s'"
proof (cases "0 < len (s_pipe s)")
  case True
  obtain p where r: "read_attempt 4096 False False (s_pipe s) = (Returns (take 4096 (contents (s_pipe s))), p)"
    using read_attempt_contents [of "s_pipe s" 4096 False False] True inv by (auto simp: stream_inv_def)
  have "take 4096 (contents (s_pipe s)) \<noteq> []" using True by (simp add: length_contents flip: length_0_conv)
  with transfer_step.received [OF e r] show ?thesis by blast
next
  case False
  show ?thesis
  proof (cases "s_sent s < STREAM_BYTES")
    case True
    have "int (length (chunk (s_sent s))) \<le> CAPACITY - len (s_pipe s)"
      using False chunk_small(1) [of "s_sent s"] by (simp add: ATOMIC_WRITE_def CAPACITY_def)
    moreover have pk: "pipe_ok (s_pipe s)" "readers (s_pipe s) > 0" using inv by (auto simp: stream_inv_def)
    ultimately obtain p where
      "write_attempt (chunk (s_sent s)) 0 False False (s_pipe s) = (Returns (length (chunk (s_sent s))), p)"
      using small_write(2) [OF pk(1) chunk_small(2) [OF True] chunk_small(1) pk(2)] by blast
    moreover have "0 < length (chunk (s_sent s))" using chunk_small(2) [OF True] by simp
    ultimately show ?thesis using transfer_step.wrote [OF True] by blast
  next
    case s: False
    show ?thesis
    proof (cases "s_closed s")
      case True
      then have "read_attempt 4096 False False (s_pipe s) = (Returns [], s_pipe s)"
        using False inv read_attempt_empty [of "s_pipe s" 4096 False False] by (auto simp: stream_inv_def)
      then show ?thesis using transfer_step.eof [OF e] by blast
    next
      case c: False
      then have "\<exists>p. closeEnd True (s_pipe s) = Some p" using inv by (simp add: closeEnd_def Let_def stream_inv_def)
      then show ?thesis using transfer_step.closed [OF s c] by blast
    qed
  qed
qed

text \<open>C20: The stream cannot hang: from every reachable state a thread can make a step until the
  reader has seen end of file, and no run has more steps than twice the stream's bytes and two,
  so every run ends with the whole stream received.\<close>

theorem stream_terminates:
  assumes "transfer_step\<^sup>*\<^sup>* stream_start s"
  shows "(s_eof s \<or> (\<exists>s'. transfer_step s s')) \<and> (transfer_step s s' \<longrightarrow> stream_left s' < stream_left s) \<and>
    stream_left s \<le> 2 * STREAM_BYTES + 2"
proof -
  have inv: "stream_inv s"
    using assms by (induction rule: rtranclp_induct) (auto intro: stream_inv_start stream_inv_step)
  then show ?thesis
    using stream_not_stuck [OF inv] stream_step_decreases [OF inv] by (auto simp: stream_left_def)
qed


theorem stream_terminates_witness:
  "s_eof stream_start \<or> (\<exists>s'. transfer_step stream_start s')"
  using stream_terminates [of stream_start stream_start] by simp

section \<open>Records from several writers\<close>

definition WRITERS :: nat where "WRITERS = 4"
definition RECORDS :: nat where "RECORDS = 2000"
definition RECORD :: nat where "RECORD = 64"

text \<open>\<open>record_writer\<close>: the bytes of one record, \<open>"%ld:%05d:"\<close> and then the writer's letter.\<close>

definition pad5 :: "nat \<Rightarrow> string" where
  "pad5 n = replicate (5 - length (decimal n)) CHR ''0'' @ decimal n"

definition record_text :: "nat \<Rightarrow> nat \<Rightarrow> string" where
  "record_text who i =
     (let header = decimal who @ '':'' @ pad5 i @ '':''
      in header @ replicate (RECORD - length header) (char_of (97 + who)))"

definition record_bytes :: "nat \<Rightarrow> nat \<Rightarrow> u8 list" where
  "record_bytes who i = map of_char (record_text who i)"

text \<open>Each writer's records still to write, the records written so far with their writer, and the
  bytes the reader has.\<close>

record record_sys =
  r_pipe :: pipe
  r_pending :: "u8 list list list"
  r_log :: "(nat \<times> u8 list) list"
  r_received :: "u8 list"

definition record_start :: "u8 list list list \<Rightarrow> record_sys" where
  "record_start todo = \<lparr>r_pipe = pipe_create, r_pending = todo, r_log = [], r_received = []\<rparr>"

definition record_writers :: "u8 list list list" where
  "record_writers = map (\<lambda>who. map (record_bytes who) [0..<RECORDS]) [0..<WRITERS]"

text \<open>A write that returned (the writer goes on to its next record), and a read of at most the
  bytes the reader still wants of a record.\<close>

inductive record_step :: "record_sys \<Rightarrow> record_sys \<Rightarrow> bool" where
  wrote: "who < length (r_pending s) \<Longrightarrow> r_pending s ! who = r # rs \<Longrightarrow>
    write_attempt r 0 False False (r_pipe s) = (Returns w, p) \<Longrightarrow>
    record_step s (s\<lparr>r_pipe := p, r_pending := (r_pending s)[who := rs], r_log := r_log s @ [(who, take w r)]\<rparr>)"
| received: "0 < wanted \<Longrightarrow> read_attempt wanted False False (r_pipe s) = (Returns xs, p) \<Longrightarrow>
    record_step s (s\<lparr>r_pipe := p, r_received := r_received s @ xs\<rparr>)"

definition small_records :: "u8 list list list \<Rightarrow> bool" where
  "small_records todo \<longleftrightarrow> list_all (list_all (\<lambda>r. r \<noteq> [] \<and> int (length r) \<le> ATOMIC_WRITE)) todo"

definition written_by :: "nat \<Rightarrow> (nat \<times> u8 list) list \<Rightarrow> u8 list list" where
  "written_by who entries = map snd (filter (\<lambda>e. fst e = who) entries)"

definition record_inv :: "u8 list list list \<Rightarrow> record_sys \<Rightarrow> bool" where
  "record_inv todo s \<longleftrightarrow> pipe_ok (r_pipe s) \<and> readers (r_pipe s) = 1 \<and> length (r_pending s) = length todo \<and>
     small_records (r_pending s) \<and>
     r_received s @ contents (r_pipe s) = concat (map snd (r_log s)) \<and>
     (\<forall>who < length todo. written_by who (r_log s) @ r_pending s ! who = todo ! who)"

lemma record_inv_step:
  assumes inv: "record_inv todo s" and st: "record_step s s'"
  shows "record_inv todo s'"
  using st
proof cases
  case (wrote who r rs w p)
  have sm: "list_all (\<lambda>r. r \<noteq> [] \<and> int (length r) \<le> ATOMIC_WRITE) (r # rs)"
    using inv nth_mem [OF wrote(2)] wrote(3) by (simp add: record_inv_def small_records_def list_all_iff)
  have pk: "pipe_ok (r_pipe s)" "readers (r_pipe s) > 0" using inv by (auto simp: record_inv_def)
  have w: "w = length r" "contents p = contents (r_pipe s) @ r" "pipe_ok p" "readers p = readers (r_pipe s)"
    using small_write(1) [OF pk(1) _ _ pk(2) wrote(4)] sm by auto
  have "small_records ((r_pending s)[who := rs])"
  proof -
    have "list_all P (xs[i := x])" if "list_all P xs" "P x" for P and xs :: "u8 list list list" and i x
      using that set_update_subset_insert [of xs i x] by (auto simp: list_all_iff)
    then show ?thesis using inv sm by (simp add: record_inv_def small_records_def)
  qed
  moreover have "written_by j (r_log s @ [(who, take w r)]) @ (r_pending s)[who := rs] ! j = todo ! j"
    if "j < length todo" for j
  proof (cases "j = who")
    case True
    have "written_by who (r_log s) @ r # rs = todo ! who"
      using inv that True unfolding record_inv_def wrote(3) [symmetric] by simp
    then show ?thesis using True wrote(2) w(1) by (simp add: written_by_def)
  next
    case False
    then show ?thesis using inv that by (simp add: record_inv_def written_by_def)
  qed
  moreover have "r_received s @ contents p = concat (map snd (r_log s @ [(who, take w r)]))"
    using inv w by (simp add: record_inv_def flip: append_assoc)
  ultimately show ?thesis
    using inv w wrote(1) by (simp add: record_inv_def)
next
  case (received wanted xs p)
  show ?thesis
  proof (cases "0 < len (r_pipe s)")
    case True
    with read_attempt_contents [of "r_pipe s" wanted False False] received inv
    have "xs = take (nat wanted) (contents (r_pipe s))" "contents p = drop (nat wanted) (contents (r_pipe s))" "pipe_ok p"
      "readers p = readers (r_pipe s)" by (auto simp: record_inv_def)
    then show ?thesis using inv received(1) by (simp add: record_inv_def)
  next
    case False
    with read_attempt_empty [of "r_pipe s" wanted False False] received inv
    have "xs = []" "p = r_pipe s" by (auto simp: record_inv_def split: if_splits)
    then show ?thesis using inv received(1) by (simp add: record_inv_def)
  qed
qed



end
