(* ===== verification/KSlots.thy ===== *)
theory KSlots
  imports Prelude
begin

text \<open>
  The kernel heap as the models of kernel components see it: a pointer is a number, each kind of
  object has a list of slots, and an allocation takes the lowest free slot or fails.
\<close>

type_synonym ptr = int

fun slot :: "'a list \<Rightarrow> int \<Rightarrow> 'a option" where
  "slot [] i = None"
| "slot (x # xs) i = (if i = 0 then Some x else slot xs (i - 1))"

fun set_slot :: "int \<Rightarrow> 'a \<Rightarrow> 'a list \<Rightarrow> 'a list" where
  "set_slot i y [] = []"
| "set_slot i y (x # xs) = (if i = 0 then y # xs else x # set_slot (i - 1) y xs)"

fun first_free :: "'a option list \<Rightarrow> int \<Rightarrow> int option" where
  "first_free [] i = None"
| "first_free (None # xs) i = Some i"
| "first_free (Some x # xs) i = first_free xs (i + 1)"

definition deref :: "'a option list \<Rightarrow> int \<Rightarrow> 'a option" where
  "deref h p = (case slot h p of Some (Some x) \<Rightarrow> Some x | _ \<Rightarrow> None)"


text \<open>Lookup after update, and updates that cancel.\<close>

lemma slot_set_slot: "slot (set_slot i y xs) j = (if j = i \<and> slot xs i \<noteq> None then Some y else slot xs j)"
  by (induction xs arbitrary: i j) auto

lemma length_set_slot [simp]: "length (set_slot i y xs) = length xs"
  by (induction xs arbitrary: i) auto

lemma set_slot_same [simp]: "slot xs i = Some y \<Longrightarrow> set_slot i y xs = xs"
  by (induction xs arbitrary: i) (auto split: if_splits)

lemma set_slot_twice [simp]: "set_slot i y (set_slot i z xs) = set_slot i y xs"
  by (induction xs arbitrary: i) auto

lemma set_slot_swap: "i \<noteq> j \<Longrightarrow> set_slot i y (set_slot j z xs) = set_slot j z (set_slot i y xs)"
  by (induction xs arbitrary: i j) auto

lemma deref_set_slot: "deref (set_slot p v h) q = (if q = p \<and> slot h p \<noteq> None then v else deref h q)"
  by (auto simp: deref_def slot_set_slot split: option.splits)

lemma deref_Some: "deref h p = Some x \<longleftrightarrow> slot h p = Some (Some x)"
  by (auto simp: deref_def split: option.splits)

text \<open>The slot after a prefix of known length.\<close>

lemma slot_append: "slot (xs @ ys) (int (length xs)) = slot ys 0"
  by (induction xs) auto

lemma set_slot_append: "set_slot (int (length xs)) z (xs @ y # ys) = xs @ z # ys"
  by (induction xs) auto

lemma first_free_append:
  "list_all (\<lambda>x. x \<noteq> None) xs \<Longrightarrow> first_free (xs @ ys) i = first_free ys (i + int (length xs))"
  by (induction xs arbitrary: i) (auto simp: add.assoc)

lemma first_free_bounds: "first_free xs i = Some j \<Longrightarrow> i \<le> j \<and> slot xs (j - i) = Some None"
proof (induction xs i rule: first_free.induct)
  case (3 x xs i)
  then show ?case by (auto simp: algebra_simps)
qed auto

text \<open>Counting with integers where a definition is evaluated.\<close>

fun take_int :: "int \<Rightarrow> 'a list \<Rightarrow> 'a list" where
  "take_int n [] = []"
| "take_int n (x # xs) = (if n \<le> 0 then [] else x # take_int (n - 1) xs)"

fun drop_int :: "int \<Rightarrow> 'a list \<Rightarrow> 'a list" where
  "drop_int n [] = []"
| "drop_int n (x # xs) = (if n \<le> 0 then x # xs else drop_int (n - 1) xs)"

lemma take_nat_int [code_unfold]: "take (nat n) xs = take_int n xs"
  by (induction n xs rule: take_int.induct) (auto simp: take_Cons' nat_diff_distrib' simp flip: nat_diff_distrib)

lemma drop_nat_int [code_unfold]: "drop (nat n) xs = drop_int n xs"
  by (induction n xs rule: drop_int.induct) (auto simp: drop_Cons' nat_diff_distrib' simp flip: nat_diff_distrib)

fun exceeds :: "'a list \<Rightarrow> int \<Rightarrow> bool" where
  "exceeds [] n = (n < 0)"
| "exceeds (x # xs) n = (n \<le> 0 \<or> exceeds xs (n - 1))"

lemma exceeds_length: "exceeds xs n \<longleftrightarrow> n < int (length xs)"
  by (induction xs n rule: exceeds.induct) auto

end
