(* ===== verification/KSocket.thy ===== *)
theory KSocket
  imports KPipe KSlots
begin

text \<open>
  Connected local sockets (\<open>kernel/ipc/unix_socket.zig\<close>): a queue of segments in each direction, each
  the data of one send with the open file descriptions sent along. A send and a receive are one step
  each time they hold the lock, as for pipes; descriptions are the slots that point to them.

  A stream socket implements a sequence of bytes of which some carry descriptions; without them it is
  the same queue of bytes that a pipe is.
\<close>

section \<open>State\<close>

definition SOCKET_CAPACITY :: int where "SOCKET_CAPACITY = 256 * 1024"
definition MAX_RIGHTS :: int where "MAX_RIGHTS = 64"

datatype sock_kind = Stream | Datagram | Seqpacket

datatype sock_error = SWouldBlock | SBrokenPipe | SInterrupted | SOutOfMemory | SMessageTooLong | SInvalidArgument

record segment =
  sg_data :: "u8 list"
  sg_consumed :: int
  sg_rights :: "ptr list"

record sock_queue =
  q_segments :: "segment list"
  q_bytes :: int

text \<open>An end of a pair, with the queue of what was sent to it.\<close>

record sock_end =
  se_queue :: sock_queue
  se_open :: bool
  se_read_shut :: bool
  se_write_shut :: bool

record socket_pair =
  sk_kind :: sock_kind
  sk_first :: sock_end
  sk_second :: sock_end

definition sk_end :: "bool \<Rightarrow> socket_pair \<Rightarrow> sock_end" where
  "sk_end e p = (if e then sk_second p else sk_first p)"

definition upd_end :: "bool \<Rightarrow> (sock_end \<Rightarrow> sock_end) \<Rightarrow> socket_pair \<Rightarrow> socket_pair" where
  "upd_end e f p = (if e then p\<lparr>sk_second := f (sk_second p)\<rparr> else p\<lparr>sk_first := f (sk_first p)\<rparr>)"

lemma sk_end_upd [simp]: "sk_end e (upd_end e' f p) = (if e = e' then f (sk_end e p) else sk_end e p)"
  by (simp add: sk_end_def upd_end_def)

lemma sk_kind_upd [simp]: "sk_kind (upd_end e f p) = sk_kind p"
  by (simp add: upd_end_def)

definition no_segments :: sock_queue where "no_segments = \<lparr>q_segments = [], q_bytes = 0\<rparr>"

definition fresh_end :: sock_end where
  "fresh_end = \<lparr>se_queue = no_segments, se_open = True, se_read_shut = False, se_write_shut = False\<rparr>"

definition pair_create :: "sock_kind \<Rightarrow> socket_pair" where
  "pair_create kind = \<lparr>sk_kind = kind, sk_first = fresh_end, sk_second = fresh_end\<rparr>"

definition sg_remaining :: "segment \<Rightarrow> int" where
  "sg_remaining s = int (length (sg_data s)) - sg_consumed s"

definition push_segment :: "segment \<Rightarrow> sock_queue \<Rightarrow> sock_queue" where
  "push_segment s q = q\<lparr>q_segments := q_segments q @ [s], q_bytes := q_bytes q + int (length (sg_data s))\<rparr>"

section \<open>Operations\<close>

text \<open>How one turn ends: it returns, fails, goes round again, or sleeps.\<close>

datatype 'a sock_turn = SReturns 'a | SFails sock_error | SRetries | SSleeps

definition can_send :: "bool \<Rightarrow> socket_pair \<Rightarrow> bool" where
  "can_send from p \<longleftrightarrow> se_open (sk_end (\<not> from) p) \<and> \<not> se_read_shut (sk_end (\<not> from) p) \<and> \<not> se_write_shut (sk_end from p)"

definition send_space :: "bool \<Rightarrow> socket_pair \<Rightarrow> int" where
  "send_space from p = SOCKET_CAPACITY - q_bytes (se_queue (sk_end (\<not> from) p))"

text \<open>The segment is built without the lock, so whether it fits is asked again before it is queued.\<close>

definition send_commit :: "u8 list \<Rightarrow> ptr list \<Rightarrow> int \<Rightarrow> bool \<Rightarrow> socket_pair \<Rightarrow> int sock_turn \<times> socket_pair" where
  "send_commit bytes rights count from p =
     (if can_send from p \<and> (send_space from p \<ge> count \<or> count = 0) then
        (SReturns count,
         upd_end (\<not> from) (\<lambda>e. e\<lparr>se_queue := push_segment
           \<lparr>sg_data = take (nat count) bytes, sg_consumed = 0, sg_rights = rights\<rparr> (se_queue e)\<rparr>) p)
      else if can_send from p then (SRetries, p)
      else (SFails SBrokenPipe, p))"

definition sock_send ::
  "u8 list \<Rightarrow> ptr list \<Rightarrow> bool \<Rightarrow> bool \<Rightarrow> bool \<Rightarrow> socket_pair \<Rightarrow> int sock_turn \<times> socket_pair" where
  "sock_send bytes rights nonblock interrupt from p =
     (let whole = (sk_kind p \<noteq> Stream); size' = int (length bytes); space = send_space from p
      in if int (length rights) > MAX_RIGHTS then (SFails SInvalidArgument, p)
         else if whole \<and> size' > SOCKET_CAPACITY then (SFails SMessageTooLong, p)
         else if bytes = [] \<and> rights = [] \<and> sk_kind p = Stream then (SReturns 0, p)
         else if \<not> can_send from p then (SFails SBrokenPipe, p)
         else if (if whole then space \<ge> size' else space > 0 \<or> bytes = [])
           then send_commit bytes rights (if whole then size' else min size' space) from p
         else if nonblock then (SFails SWouldBlock, p)
         else if interrupt then (SFails SInterrupted, p)
         else (SSleeps, p))"

record received =
  rc_bytes :: "u8 list"
  rc_rights :: "ptr list"
  rc_truncated :: bool

text \<open>The loop of a stream receive: the bytes and descriptions so far, and the segments that stay. The
  descriptions of a segment replace those of the one before.\<close>

fun take_stream :: "int \<Rightarrow> u8 list \<Rightarrow> ptr list \<Rightarrow> segment list \<Rightarrow> u8 list \<times> ptr list \<times> segment list" where
  "take_stream room bytes rights [] = (bytes, rights, [])"
| "take_stream room bytes rights (s # ss) =
     (if bytes \<noteq> [] \<and> sg_rights s \<noteq> [] \<and> sg_consumed s = 0 then (bytes, rights, s # ss)
      else
        let rights' = (if sg_rights s \<noteq> [] then sg_rights s else rights);
            count = min (room - int (length bytes)) (sg_remaining s);
            bytes' = bytes @ take (nat count) (drop (nat (sg_consumed s)) (sg_data s));
            s' = s\<lparr>sg_consumed := sg_consumed s + count, sg_rights := []\<rparr>;
            rest' = (if sg_remaining s' = 0 then ss else s' # ss)
        in if int (length bytes') = room \<or> sg_remaining s' \<noteq> 0 then (bytes', rights', rest')
           else take_stream room bytes' rights' ss)"

definition sock_receive ::
  "int \<Rightarrow> bool \<Rightarrow> bool \<Rightarrow> bool \<Rightarrow> socket_pair \<Rightarrow> received sock_turn \<times> socket_pair" where
  "sock_receive room nonblock interrupt at' p =
     (let me = sk_end at' p; peer = sk_end (\<not> at') p; q = se_queue me;
          set_queue = (\<lambda>q. upd_end at' (\<lambda>e. e\<lparr>se_queue := q\<rparr>) p)
      in case q_segments q of
           s # ss \<Rightarrow>
             if se_read_shut me then (SReturns \<lparr>rc_bytes = [], rc_rights = [], rc_truncated = False\<rparr>, p)
             else if sk_kind p = Stream then
               (case take_stream room [] [] (s # ss) of
                  (bytes, rights, segs) \<Rightarrow>
                    (SReturns \<lparr>rc_bytes = bytes, rc_rights = rights, rc_truncated = False\<rparr>,
                     set_queue \<lparr>q_segments = segs, q_bytes = q_bytes q - int (length bytes)\<rparr>))
             else
               let count = min room (int (length (sg_data s)))
               in (SReturns \<lparr>rc_bytes = take (nat count) (sg_data s), rc_rights = sg_rights s,
                       rc_truncated = (count < int (length (sg_data s)))\<rparr>,
                   set_queue \<lparr>q_segments = ss, q_bytes = q_bytes q - int (length (sg_data s))\<rparr>)
         | [] \<Rightarrow>
             if \<not> se_open peer \<or> se_write_shut peer \<or> se_read_shut me
               then (SReturns \<lparr>rc_bytes = [], rc_rights = [], rc_truncated = False\<rparr>, p)
             else if nonblock then (SFails SWouldBlock, p)
             else if interrupt then (SFails SInterrupted, p)
             else (SSleeps, p))"

text \<open>\<open>shutdown\<close>: 0 stops reading, 1 writing, 2 both.\<close>

definition sock_shutdown :: "int \<Rightarrow> bool \<Rightarrow> socket_pair \<Rightarrow> socket_pair" where
  "sock_shutdown how e = upd_end e (\<lambda>x.
     x\<lparr>se_read_shut := se_read_shut x \<or> how = 0 \<or> how = 2, se_write_shut := se_write_shut x \<or> how = 1 \<or> how = 2\<rparr>)"

record sock_ready =
  sr_readable :: bool
  sr_writable :: bool
  sr_hangup :: bool
  sr_read_hangup :: bool

definition sock_poll :: "bool \<Rightarrow> socket_pair \<Rightarrow> sock_ready" where
  "sock_poll e p =
     (let me = sk_end e p; peer = sk_end (\<not> e) p; peer_gone = (\<not> se_open peer); peer_done = (peer_gone \<or> se_write_shut peer)
      in \<lparr>sr_readable = (q_segments (se_queue me) \<noteq> [] \<or> peer_done \<or> se_read_shut me),
          sr_writable = (\<not> peer_gone \<and> \<not> se_read_shut peer \<and> \<not> se_write_shut me \<and> send_space e p \<ge> 4096),
          sr_hangup = (peer_gone \<or> (se_write_shut me \<and> peer_done)),
          sr_read_hangup = peer_done\<rparr>)"

definition sock_pending :: "bool \<Rightarrow> socket_pair \<Rightarrow> int" where
  "sock_pending e p = q_bytes (se_queue (sk_end e p))"

text \<open>Closing an end: what was sent to it is discarded, and the descriptions in it are to be released;
  the pair goes when both ends are closed.\<close>

definition sock_close :: "bool \<Rightarrow> socket_pair \<Rightarrow> ptr list \<times> socket_pair option" where
  "sock_close e p =
     (let p1 = upd_end e (\<lambda>x. x\<lparr>se_open := False, se_queue := no_segments\<rparr>) p
      in (concat (map sg_rights (q_segments (se_queue (sk_end e p)))),
          if \<not> se_open (sk_first p1) \<and> \<not> se_open (sk_second p1) then None else Some p1))"

section \<open>A stream is a sequence of bytes, some with descriptions\<close>

type_synonym flow = "(u8 \<times> ptr list) list"

definition carry :: "u8 list \<Rightarrow> ptr list \<Rightarrow> flow" where
  "carry bytes rights = (case bytes of [] \<Rightarrow> [] | b # bs \<Rightarrow> (b, rights) # map (\<lambda>x. (x, [])) bs)"

definition seg_flow :: "segment \<Rightarrow> flow" where
  "seg_flow s = carry (drop (nat (sg_consumed s)) (sg_data s)) (sg_rights s)"

definition flow_of :: "segment list \<Rightarrow> flow" where
  "flow_of ss = concat (map seg_flow ss)"

definition seg_ok :: "segment \<Rightarrow> bool" where
  "seg_ok s \<longleftrightarrow> 0 \<le> sg_consumed s \<and> sg_consumed s < int (length (sg_data s)) \<and> (0 < sg_consumed s \<longrightarrow> sg_rights s = [])"

definition plain :: "u8 \<times> ptr list \<Rightarrow> bool" where "plain x \<longleftrightarrow> snd x = []"

text \<open>What one receive may deliver after \<open>bytes\<close>: the first byte with its descriptions, and plain ones.\<close>

definition deliverable :: "bool \<Rightarrow> flow \<Rightarrow> flow" where
  "deliverable started fl =
     (if started then takeWhile plain fl else case fl of [] \<Rightarrow> [] | x # xs \<Rightarrow> x # takeWhile plain xs)"

lemma length_carry [simp]: "length (carry bytes rights) = length bytes"
  by (simp add: carry_def split: list.split)

lemma map_fst_carry [simp]: "map fst (carry bytes rights) = bytes"
  by (simp add: carry_def comp_def split: list.split)

lemma carry_nil: "carry bytes [] = map (\<lambda>x. (x, [])) bytes"
  by (cases bytes) (simp_all add: carry_def)

lemma carry_plain: "list_all plain (carry bytes [])"
  by (simp add: carry_nil plain_def list_all_iff)

lemma take_carry: "take n (carry bytes rights) = carry (take n bytes) rights"
  by (cases n; cases bytes) (simp_all add: carry_def take_map)

lemma drop_carry: "0 < n \<Longrightarrow> drop n (carry bytes rights) = carry (drop n bytes) []"
  by (cases bytes; cases n) (simp_all add: carry_nil drop_map, simp_all add: carry_def drop_map)

lemma takeWhile_plain: "list_all plain xs \<Longrightarrow> takeWhile plain (xs @ ys) = xs @ takeWhile plain ys"
  by (induction xs) auto

lemma deliverable_segment:
  assumes "bytes \<noteq> []" "started \<Longrightarrow> rights = []"
  shows "deliverable started (carry bytes rights @ fl) = carry bytes rights @ takeWhile plain fl"
proof -
  obtain b bs where b: "bytes = b # bs" using assms(1) by (cases bytes) auto
  have "list_all plain (map (\<lambda>x. (x, [])) bs)" by (simp add: list_all_iff plain_def)
  then show ?thesis
    using assms(2) by (auto simp: b deliverable_def carry_def takeWhile_plain plain_def)
qed

lemma deliverable_blocked:
  "rights \<noteq> [] \<Longrightarrow> bytes \<noteq> [] \<Longrightarrow> deliverable True (carry bytes rights @ fl) = []"
  by (cases bytes) (auto simp: deliverable_def carry_def plain_def)

lemma seg_flow_length: "seg_ok s \<Longrightarrow> int (length (seg_flow s)) = sg_remaining s \<and> 0 < sg_remaining s"
  by (auto simp: seg_flow_def seg_ok_def sg_remaining_def)

lemma take_stream_flow:
  assumes "list_all seg_ok ss" "int (length bytes) < room"
    "take_stream room bytes rights ss = (bytes', rights', ss')"
    "d = take (nat (room - int (length bytes))) (deliverable (bytes \<noteq> []) (flow_of ss))"
  shows "bytes' = bytes @ map fst d \<and> rights' = (if d \<noteq> [] \<and> snd (hd d) \<noteq> [] then snd (hd d) else rights) \<and>
    list_all seg_ok ss' \<and> flow_of ss' = drop (length d) (flow_of ss)"
  using assms
proof (induction room bytes rights ss arbitrary: d rule: take_stream.induct)
  case (1 room bytes rights)
  then show ?case by (auto simp: flow_of_def deliverable_def)
next
  case (2 room bytes rights s ss)
  have ok: "seg_ok s" "list_all seg_ok ss" using "2.prems"(1) by simp_all
  let ?data = "drop (nat (sg_consumed s)) (sg_data s)"
  have data: "?data \<noteq> []" "int (length ?data) = sg_remaining s" "0 < sg_remaining s" using ok(1) by (auto simp: seg_ok_def sg_remaining_def)
  have fl: "flow_of (s # ss) = carry ?data (sg_rights s) @ flow_of ss" by (simp add: flow_of_def seg_flow_def)
  show ?case
  proof (cases "bytes \<noteq> [] \<and> sg_rights s \<noteq> [] \<and> sg_consumed s = 0")
    case True
    then have "d = []" using "2.prems"(4) deliverable_blocked [OF _ data(1)] by (simp add: fl)
    then show ?thesis using True "2.prems"(1,3) by auto
  next
    case False
    have free: "bytes \<noteq> [] \<Longrightarrow> sg_rights s = []" using False ok(1) by (auto simp: seg_ok_def)
    define r1 where "r1 = (if sg_rights s \<noteq> [] then sg_rights s else rights)"
    define count where "count = min (room - int (length bytes)) (sg_remaining s)"
    define bytes1 where "bytes1 = bytes @ take (nat count) ?data"
    define s1 where "s1 = s\<lparr>sg_consumed := sg_consumed s + count, sg_rights := []\<rparr>"
    define rest1 where "rest1 = (if sg_remaining s1 = 0 then ss else s1 # ss)"
    have count: "0 < count" "count \<le> sg_remaining s" "count \<le> room - int (length bytes)"
      using "2.prems"(2) data by (auto simp: count_def)
    have step: "take_stream room bytes rights (s # ss) =
        (if int (length bytes1) = room \<or> sg_remaining s1 \<noteq> 0 then (bytes1, r1, rest1) else take_stream room bytes1 r1 ss)"
      unfolding take_stream.simps(2) Let_def r1_def count_def bytes1_def s1_def rest1_def by (simp only: if_not_P [OF False])
    have dl: "length ?data = nat (sg_remaining s)" using data(2) by linarith
    have lt: "length (take (nat count) ?data) = nat count" unfolding length_take dl using count by simp
    have l1: "int (length bytes1) = int (length bytes) + count"
      unfolding bytes1_def length_append lt using count(1) by simp
    have rem1: "sg_remaining s1 = sg_remaining s - count" by (simp add: s1_def sg_remaining_def)
    have d: "d = take (nat (room - int (length bytes))) (carry ?data (sg_rights s) @ takeWhile plain (flow_of ss))"
      using "2.prems"(4) deliverable_segment [OF data(1), of "bytes \<noteq> []" "sg_rights s" "flow_of ss"] free by (simp add: fl)
    have hd: "snd (hd (carry xs (sg_rights s) @ ys)) = sg_rights s \<and> carry xs (sg_rights s) @ ys \<noteq> []" if "xs \<noteq> []" for xs ys
      using that by (cases xs) (auto simp: carry_def)
    show ?thesis
    proof (cases "int (length bytes1) = room \<or> sg_remaining s1 \<noteq> 0")
      case True
      then have full: "count = room - int (length bytes)" using l1 rem1 by (auto simp: count_def)
      then have "nat (room - int (length bytes)) \<le> length (carry ?data (sg_rights s))"
        unfolding length_carry dl using count by simp
      then have d1: "d = carry (take (nat count) ?data) (sg_rights s)" using d full by (simp add: take_carry)
      have r: "bytes' = bytes1" "rights' = r1" "ss' = rest1" using "2.prems"(3) step True by auto
      have ld: "length d = nat count" unfolding d1 length_carry lt ..
      have "take (nat count) ?data \<noteq> []" using lt count(1) by (metis list.size(3) zero_less_nat_eq less_numeral_extra(3))
      then have "rights' = (if d \<noteq> [] \<and> snd (hd d) \<noteq> [] then snd (hd d) else rights)"
        using hd [of "take (nat count) ?data" "[]"] r(2) by (auto simp: d1 r1_def)
      moreover have "list_all seg_ok ss'"
        using ok count rem1 by (auto simp: r rest1_def seg_ok_def s1_def sg_remaining_def)
      moreover have "flow_of ss' = drop (length d) (flow_of (s # ss))"
      proof -
        have "flow_of rest1 = carry (drop (nat count) ?data) [] @ flow_of ss"
        proof (cases "sg_remaining s1 = 0")
          case True
          then have "drop (nat count) ?data = []" using rem1 dl by (simp only: drop_eq_Nil)
          then show ?thesis using True by (simp add: rest1_def carry_def del: drop_drop)
        next
          case False
          have "nat (sg_consumed s + count) = nat count + nat (sg_consumed s)" 
            using count ok(1) unfolding seg_ok_def by linarith
          then show ?thesis using False by (simp add: rest1_def flow_of_def seg_flow_def s1_def)
        qed
        moreover have "nat count - length (carry ?data (sg_rights s)) = 0" unfolding length_carry dl using count by simp
        moreover have "drop (nat count) (carry ?data (sg_rights s)) = carry (drop (nat count) ?data) []"
          using count(1) by (intro drop_carry) simp
        ultimately show ?thesis unfolding r fl ld drop_append by (simp only: drop_0)
      qed
      ultimately show ?thesis using r(1) by (simp add: d1 bytes1_def)
    next
      case more: False
      then have all: "count = sg_remaining s" using rem1 by simp
      then have b1: "bytes1 = bytes @ ?data" unfolding bytes1_def using dl by (simp only: take_all)
      have lr: "int (length bytes1) < room" using more l1 count(3) by simp
      define d2 where "d2 = take (nat (room - int (length bytes1))) (deliverable (bytes1 \<noteq> []) (flow_of ss))"
      have t: "take_stream room bytes1 r1 ss = (bytes', rights', ss')"
        using "2.prems"(3) unfolding step by (simp only: if_not_P [OF more])
      note ih = "2.IH" [OF False r1_def count_def bytes1_def s1_def rest1_def more ok(2) lr t d2_def]
      have d2: "d2 = take (nat (room - int (length bytes1))) (takeWhile plain (flow_of ss))"
        using b1 data(1) by (simp add: d2_def deliverable_def)
      have ld: "nat (room - int (length bytes)) - length ?data = nat (room - int (length bytes1))"
        using l1 all data(2) by linarith
      have "length ?data \<le> nat (room - int (length bytes))" using all data count by linarith
      then have dd: "d = carry ?data (sg_rights s) @ d2" using d ld by (simp add: d2 del: drop_drop length_drop)
      have "plain x" if "x \<in> set d2" for x using that by (auto simp: d2 dest: in_set_takeD set_takeWhileD)
      then have "d2 \<noteq> [] \<Longrightarrow> snd (hd d2) = []" by (simp add: plain_def)
      then have "rights' = (if d \<noteq> [] \<and> snd (hd d) \<noteq> [] then snd (hd d) else rights)"
        using ih hd [OF data(1), of d2] by (auto simp: dd r1_def)
      then show ?thesis using ih by (simp add: dd b1 fl del: drop_drop)
    qed
  qed
qed

declare take_stream.simps [simp del]

section \<open>Calls on a pair\<close>

definition queue_ok :: "sock_queue \<Rightarrow> bool" where
  "queue_ok q \<longleftrightarrow> list_all seg_ok (q_segments q) \<and> q_bytes q = int (length (flow_of (q_segments q))) \<and> q_bytes q \<le> SOCKET_CAPACITY"

definition stream_ok :: "socket_pair \<Rightarrow> bool" where
  "stream_ok p \<longleftrightarrow> sk_kind p = Stream \<and> (\<forall>e. queue_ok (se_queue (sk_end e p)))"

text \<open>What was sent to an end and not yet received.\<close>

definition pending_flow :: "bool \<Rightarrow> socket_pair \<Rightarrow> flow" where
  "pending_flow e p = flow_of (q_segments (se_queue (sk_end e p)))"

lemma stream_ok_create: "stream_ok (pair_create Stream)" "pending_flow e (pair_create kind) = []"
  by (simp_all add: stream_ok_def queue_ok_def pair_create_def sk_end_def fresh_end_def no_segments_def flow_of_def
      SOCKET_CAPACITY_def pending_flow_def)

lemma queue_ok_push:
  assumes "queue_ok q" "bytes \<noteq> []" "int (length bytes) \<le> SOCKET_CAPACITY - q_bytes q"
  shows "queue_ok (push_segment \<lparr>sg_data = bytes, sg_consumed = 0, sg_rights = rights\<rparr> q) \<and>
    flow_of (q_segments (push_segment \<lparr>sg_data = bytes, sg_consumed = 0, sg_rights = rights\<rparr> q)) =
      flow_of (q_segments q) @ carry bytes rights"
  using assms by (auto simp: queue_ok_def push_segment_def flow_of_def seg_flow_def seg_ok_def)

lemma stream_send:
  assumes ok: "stream_ok p" and bytes: "bytes \<noteq> []" and send: "sock_send bytes rights nonblock interrupt from p = (r, p')"
  shows "stream_ok p' \<and> pending_flow from p' = pending_flow from p \<and>
    (case r of
       SReturns n \<Rightarrow> 0 < n \<and> n \<le> int (length bytes) \<and>
         pending_flow (\<not> from) p' = pending_flow (\<not> from) p @ carry (take (nat n) bytes) rights
     | _ \<Rightarrow> p' = p)"
proof -
  let ?q = "se_queue (sk_end (\<not> from) p)" and ?count = "min (int (length bytes)) (send_space from p)"
  have q: "queue_ok ?q" and kind: "sk_kind p = Stream" using ok by (simp_all add: stream_ok_def)
  show ?thesis
  proof (cases "int (length rights) \<le> MAX_RIGHTS \<and> can_send from p \<and> 0 < send_space from p")
    case True
    then have count: "0 < ?count" "?count \<le> int (length bytes)" "?count \<le> send_space from p" using bytes by auto
    define s where "s = \<lparr>sg_data = take (nat ?count) bytes, sg_consumed = 0, sg_rights = rights\<rparr>"
    have "(r, p') = send_commit bytes rights ?count from p"
      using True bytes kind send by (simp add: sock_send_def Let_def)
    then have r: "r = SReturns ?count" and p': "p' = upd_end (\<not> from) (\<lambda>e. e\<lparr>se_queue := push_segment s (se_queue e)\<rparr>) p"
      using True count(3) by (simp_all add: send_commit_def s_def)
    have "0 < nat ?count" using count(1) by (simp only: zero_less_nat_eq)
    then have n: "take (nat ?count) bytes \<noteq> []" using bytes by (metis take_eq_Nil less_irrefl)
    have "int (length (take (nat ?count) bytes)) \<le> SOCKET_CAPACITY - q_bytes ?q"
      using count by (simp add: send_space_def)
    from queue_ok_push [OF q n this, of rights]
    have "queue_ok (push_segment s ?q)" "flow_of (q_segments (push_segment s ?q)) = flow_of (q_segments ?q) @ carry (take (nat ?count) bytes) rights"
      by (simp_all add: s_def)
    then show ?thesis using ok count(1,2) by (auto simp: r p' stream_ok_def pending_flow_def)
  next
    case False
    then have "p' = p \<and> (\<forall>n. r \<noteq> SReturns n)"
      using bytes kind send by (auto simp: sock_send_def Let_def split: if_splits)
    then show ?thesis using ok by (auto split: sock_turn.split)
  qed
qed

lemma carry_delivered:
  "d = take n (deliverable False fl) \<Longrightarrow> carry (map fst d) (if d \<noteq> [] \<and> snd (hd d) \<noteq> [] then snd (hd d) else []) = d"
proof (cases d)
  case (Cons x xs)
  moreover assume "d = take n (deliverable False fl)"
  ultimately obtain ys m where y: "fl = x # ys" "xs = take m (takeWhile plain ys)"
    by (cases fl; cases n) (auto simp: deliverable_def)
  have "\<forall>z \<in> set xs. plain z" using y(2) by (auto dest: in_set_takeD set_takeWhileD)
  then have "map (\<lambda>x. (x, [])) (map fst xs) = xs" by (auto simp: plain_def intro!: map_idI)
  then show ?thesis using Cons by (cases x) (simp add: carry_def)
qed (simp add: carry_def)

lemma deliverable_prefix: "\<exists>m. deliverable started fl = take m fl"
proof (cases "started \<or> fl = []")
  case True
  then have "deliverable started fl = takeWhile plain fl" by (auto simp: deliverable_def)
  then show ?thesis by (metis takeWhile_eq_take)
next
  case False
  then obtain x xs where fl: "fl = x # xs" "\<not> started" by (cases fl) auto
  then have "deliverable started fl = take (Suc (length (takeWhile plain xs))) fl"
    by (simp only: deliverable_def if_False list.case take_Suc_Cons takeWhile_eq_take [symmetric])
  then show ?thesis by blast
qed

lemma prefix_split: "take k fl @ drop (length (take k fl)) fl = fl"
  by (cases "k \<le> length fl") simp_all

lemma stream_receive:
  assumes ok: "stream_ok p" and room: "0 < room" and get: "sock_receive room nonblock interrupt e p = (r, p')"
  shows "stream_ok p' \<and> pending_flow (\<not> e) p' = pending_flow (\<not> e) p \<and>
    (case r of
       SReturns x \<Rightarrow> carry (rc_bytes x) (rc_rights x) @ pending_flow e p' = pending_flow e p \<and>
         int (length (rc_bytes x)) \<le> room \<and> (rc_bytes x = [] \<longrightarrow> rc_rights x = [])
     | _ \<Rightarrow> p' = p)"
proof -
  let ?q = "se_queue (sk_end e p)"
  have q: "queue_ok ?q" and kind: "sk_kind p = Stream" using ok by (simp_all add: stream_ok_def)
  show ?thesis
  proof (cases "q_segments ?q \<noteq> [] \<and> \<not> se_read_shut (sk_end e p)")
    case True
    obtain bytes rights segs where t: "take_stream room [] [] (q_segments ?q) = (bytes, rights, segs)"
      by (metis prod_cases3)
    define d where "d = take (nat room) (deliverable False (flow_of (q_segments ?q)))"
    have f: "bytes = map fst d" "rights = (if d \<noteq> [] \<and> snd (hd d) \<noteq> [] then snd (hd d) else [])" "list_all seg_ok segs"
      "flow_of segs = drop (length d) (flow_of (q_segments ?q))"
    proof -
      have a: "list_all seg_ok (q_segments ?q)" using q by (simp add: queue_ok_def)
      have "d = take (nat (room - int (length ([] :: u8 list)))) (deliverable (([] :: u8 list) \<noteq> []) (flow_of (q_segments ?q)))"
        by (simp add: d_def)
      from take_stream_flow [OF a _ t this] room
      show "bytes = map fst d" "rights = (if d \<noteq> [] \<and> snd (hd d) \<noteq> [] then snd (hd d) else [])" "list_all seg_ok segs"
        "flow_of segs = drop (length d) (flow_of (q_segments ?q))" by simp_all
    qed
    have d: "d @ drop (length d) (flow_of (q_segments ?q)) = flow_of (q_segments ?q)"
    proof -
      obtain m where "deliverable False (flow_of (q_segments ?q)) = take m (flow_of (q_segments ?q))"
        using deliverable_prefix by blast
      then have "d = take (min (nat room) m) (flow_of (q_segments ?q))" by (simp add: d_def take_take)
      then show ?thesis by (simp only: prefix_split)
    qed
    define q' where "q' = \<lparr>q_segments = segs, q_bytes = q_bytes ?q - int (length bytes)\<rparr>"
    have r: "r = SReturns \<lparr>rc_bytes = bytes, rc_rights = rights, rc_truncated = False\<rparr>"
      and p': "p' = upd_end e (\<lambda>x. x\<lparr>se_queue := q'\<rparr>) p"
    proof -
      obtain x xs where x: "q_segments ?q = x # xs" using True by (cases "q_segments ?q") auto
      then show "r = SReturns \<lparr>rc_bytes = bytes, rc_rights = rights, rc_truncated = False\<rparr>"
        "p' = upd_end e (\<lambda>x. x\<lparr>se_queue := q'\<rparr>) p"
        using True kind get t by (simp_all add: sock_receive_def Let_def q'_def)
    qed
    have "length (flow_of (q_segments ?q)) = length d + length (flow_of segs)"
      unfolding f(4) by (subst d [symmetric]) (simp only: length_append)
    then have "queue_ok q'" using q f(1,3) by (simp add: queue_ok_def q'_def)
    then have "stream_ok p'" using ok by (auto simp: p' stream_ok_def)
    moreover have "carry bytes rights = d" unfolding f(1,2) by (rule carry_delivered [OF d_def])
    moreover have "pending_flow e p' = flow_of segs" by (simp add: p' pending_flow_def q'_def)
    moreover have "int (length bytes) \<le> room" using room by (simp add: f(1) d_def)
    moreover have "bytes = [] \<longrightarrow> rights = []" using f(1,2) by simp
    moreover have "pending_flow (\<not> e) p' = pending_flow (\<not> e) p" by (simp add: p' pending_flow_def)
    moreover have "pending_flow e p = d @ flow_of segs" unfolding f(4) d pending_flow_def by (rule refl)
    ultimately show ?thesis by (simp add: r)
  next
    case False
    then have "p' = p \<and> (case r of SReturns x \<Rightarrow> rc_bytes x = [] \<and> rc_rights x = [] | _ \<Rightarrow> True)"
      using get by (auto simp: sock_receive_def Let_def split: list.splits if_splits)
    then show ?thesis using ok room by (auto simp: carry_def split: sock_turn.splits)
  qed
qed

text \<open>Without descriptions a stream is a queue of bytes, like a pipe.\<close>

definition sock_put :: "u8 list \<Rightarrow> nat \<Rightarrow> socket_pair \<Rightarrow> u8 list \<times> socket_pair" where
  "sock_put bytes done' p =
     (if drop done' bytes = [] then ([], p)
      else case sock_send (drop done' bytes) [] True False False p of
        (SReturns n, p1) \<Rightarrow> (take (nat n) (drop done' bytes), p1)
      | (_, p1) \<Rightarrow> ([], p1))"

definition sock_get :: "nat \<Rightarrow> socket_pair \<Rightarrow> u8 list \<times> socket_pair" where
  "sock_get n p =
     (if n = 0 then ([], p)
      else case sock_receive (int n) True False True p of
        (SReturns x, p1) \<Rightarrow> (rc_bytes x, p1)
      | (_, p1) \<Rightarrow> ([], p1))"

definition pending_bytes :: "socket_pair \<Rightarrow> u8 list" where
  "pending_bytes p = map fst (pending_flow True p)"

lemma sock_put_ok:
  assumes "stream_ok p"
  shows "stream_ok (snd (sock_put bytes done' p)) \<and>
    pending_bytes (snd (sock_put bytes done' p)) = pending_bytes p @ fst (sock_put bytes done' p)"
proof (cases "drop done' bytes = []")
  case False
  obtain r p1 where s: "sock_send (drop done' bytes) [] True False False p = (r, p1)" by (metis prod.exhaust)
  from stream_send [OF assms False s] show ?thesis
    using False s by (cases r) (auto simp: sock_put_def pending_bytes_def)
qed (use assms in \<open>simp add: sock_put_def\<close>)

lemma sock_get_ok:
  assumes "stream_ok p"
  shows "stream_ok (snd (sock_get n p)) \<and> pending_bytes p = fst (sock_get n p) @ pending_bytes (snd (sock_get n p))"
proof (cases "n = 0")
  case False
  obtain r p1 where s: "sock_receive (int n) True False True p = (r, p1)" by (metis prod.exhaust)
  from stream_receive [OF assms _ s] False have "stream_ok p1" and r: "case r of
       SReturns x \<Rightarrow> carry (rc_bytes x) (rc_rights x) @ pending_flow True p1 = pending_flow True p
     | _ \<Rightarrow> p1 = p" by (auto split: sock_turn.splits)
  moreover have "pending_bytes p = rc_bytes x @ pending_bytes p1"
    if "carry (rc_bytes x) (rc_rights x) @ pending_flow True p1 = pending_flow True p" for x
    using arg_cong [OF that, of "map fst"] by (simp add: pending_bytes_def)
  ultimately show ?thesis using False s by (cases r) (auto simp: sock_get_def)
qed (use assms in \<open>simp add: sock_get_def\<close>)

interpretation socket_queue: byte_queue stream_ok pending_bytes sock_put sock_get
  by unfold_locales (auto simp: sock_put_ok sock_get_ok)

section \<open>What the two ends exchange\<close>

datatype sock_op = OpSend bool "u8 list" "ptr list" | OpReceive bool int

text \<open>The record of a run: for each end, what was accepted for it and what it was given.\<close>

definition sock_step ::
  "sock_op \<Rightarrow> (bool \<Rightarrow> (u8 list \<times> ptr list) list) \<times> (bool \<Rightarrow> (int \<times> received) list) \<times> socket_pair \<Rightarrow>
    (bool \<Rightarrow> (u8 list \<times> ptr list) list) \<times> (bool \<Rightarrow> (int \<times> received) list) \<times> socket_pair" where
  "sock_step oper = (\<lambda>(sent, got, p).
     case oper of
       OpSend from bytes rights \<Rightarrow>
         (case sock_send bytes rights False False from p of
            (SReturns n, p1) \<Rightarrow> (sent(\<not> from := sent (\<not> from) @ [(take (nat n) bytes, rights)]), got, p1)
          | (_, p1) \<Rightarrow> (sent, got, p1))
     | OpReceive e room \<Rightarrow>
         (case sock_receive room False False e p of
            (SReturns x, p1) \<Rightarrow> (sent, got(e := got e @ [(room, x)]), p1)
          | (_, p1) \<Rightarrow> (sent, got, p1)))"

fun op_ok :: "sock_op \<Rightarrow> bool" where
  "op_ok (OpSend from bytes rights) = (bytes \<noteq> [])"
| "op_ok (OpReceive e room) = (0 < room)"

definition flow_sent :: "(u8 list \<times> ptr list) list \<Rightarrow> flow" where
  "flow_sent ms = concat (map (\<lambda>(bytes, rights). carry bytes rights) ms)"

definition flow_got :: "(int \<times> received) list \<Rightarrow> flow" where
  "flow_got rs = concat (map (\<lambda>(room, x). carry (rc_bytes x) (rc_rights x)) rs)"

lemma stream_step_balance:
  assumes "sock_step oper (sent, got, p) = (sent', got', p')" "op_ok oper" "stream_ok p"
    "\<And>e. flow_sent (sent e) = flow_got (got e) @ pending_flow e p"
  shows "stream_ok p' \<and> (\<forall>e. flow_sent (sent' e) = flow_got (got' e) @ pending_flow e p')"
proof (cases oper)
  case (OpSend e bytes rights)
  obtain r p1 where s: "sock_send bytes rights False False e p = (r, p1)" by (metis prod.exhaust)
  have n: "bytes \<noteq> []" using assms(2) OpSend by simp
  from stream_send [OF assms(3) n s] show ?thesis
    using assms(1,4) OpSend s by (cases r) (auto simp: sock_step_def flow_sent_def)
next
  case (OpReceive e room)
  obtain r p1 where s: "sock_receive room False False e p = (r, p1)" by (metis prod.exhaust)
  have n: "0 < room" using assms(2) OpReceive by simp
  have other: "e' = e \<or> e' = (\<not> e)" for e' by blast
  from stream_receive [OF assms(3) n s] show ?thesis
    using assms(1,4) OpReceive s by (cases r) (auto simp: sock_step_def flow_got_def)
qed

lemma stream_run_balance:
  assumes "fold sock_step ops (sent, got, p) = (sent', got', p')" "list_all op_ok ops" "stream_ok p"
    "\<And>e. flow_sent (sent e) = flow_got (got e) @ pending_flow e p"
  shows "stream_ok p' \<and> (\<forall>e. flow_sent (sent' e) = flow_got (got' e) @ pending_flow e p')"
  using assms
proof (induction ops arbitrary: sent got p)
  case (Cons oper ops)
  obtain sent1 got1 p1 where s: "sock_step oper (sent, got, p) = (sent1, got1, p1)" by (metis prod_cases3)
  from stream_step_balance [OF s _ Cons.prems(3,4)] Cons.prems(1,2) s Cons.IH [of sent1 got1 p1] show ?case by auto
qed auto



text \<open>C38: Sends without data are the exception: a stream receive goes on past a segment of no bytes, and the
  descriptions of the next segment replace those it has. The first are in no queue and in no table any
  more, but nobody released them.\<close>

theorem empty_sends_lose_descriptors:
  assumes "0 < room" "rights \<noteq> []" "rights' \<noteq> []" "int (length rights) \<le> MAX_RIGHTS" "int (length rights') \<le> MAX_RIGHTS"
    "sock_send [] rights False False False (pair_create Stream) = (r1, p1)"
    "sock_send [] rights' False False False p1 = (r2, p2)" "sock_receive room False False True p2 = (r3, p3)"
  shows "r1 = SReturns 0 \<and> r2 = SReturns 0 \<and> r3 = SReturns \<lparr>rc_bytes = [], rc_rights = rights', rc_truncated = False\<rparr> \<and>
    q_segments (se_queue (sk_end True p3)) = []"
proof -
  let ?s = "\<lambda>rs. \<lparr>sg_data = [], sg_consumed = 0, sg_rights = rs\<rparr>"
  let ?p = "\<lambda>ss. upd_end True (\<lambda>e. e\<lparr>se_queue := \<lparr>q_segments = ss, q_bytes = 0\<rparr>\<rparr>) (pair_create Stream)"
  have start: "can_send False (pair_create Stream)" "send_space False (pair_create Stream) = SOCKET_CAPACITY"
    "sk_kind (pair_create Stream) = Stream" "se_queue (sk_end True (pair_create Stream)) = no_segments"
    by (simp_all add: can_send_def pair_create_def sk_end_def fresh_end_def send_space_def no_segments_def)
  have 1: "r1 = SReturns 0" "p1 = ?p [?s rights]"
    using assms(2,4,6) start
    by (simp_all add: sock_send_def send_commit_def Let_def push_segment_def SOCKET_CAPACITY_def upd_end_def sk_end_def
        no_segments_def pair_create_def fresh_end_def)
  have 2: "r2 = SReturns 0" "p2 = ?p [?s rights, ?s rights']"
    using assms(3,5,7) start unfolding 1(2)
    by (simp_all add: sock_send_def send_commit_def Let_def push_segment_def SOCKET_CAPACITY_def upd_end_def sk_end_def
        can_send_def send_space_def pair_create_def fresh_end_def)
  have "take_stream room [] [] [?s rights, ?s rights'] = ([], rights', [])"
    using assms(1-3) by (simp add: take_stream.simps Let_def sg_remaining_def)
  then have "r3 = SReturns \<lparr>rc_bytes = [], rc_rights = rights', rc_truncated = False\<rparr>" "p3 = ?p []"
    using assms(8) unfolding 2(2)
    by (simp_all add: sock_receive_def Let_def upd_end_def sk_end_def pair_create_def fresh_end_def)
  with 1(1) 2(1) show ?thesis by simp
qed

text \<open>Descriptor 5 is sent, then descriptor 6.\<close>

theorem empty_sends_lose_descriptors_witness:
  "\<exists>r1 p1 r2 p2 r3 p3. sock_send [] [5] False False False (pair_create Stream) = (r1, p1) \<and>
     sock_send [] [6] False False False p1 = (r2, p2) \<and> sock_receive 16 False False True p2 = (r3, p3) \<and>
     r3 = SReturns \<lparr>rc_bytes = [], rc_rights = [6], rc_truncated = False\<rparr> \<and> q_segments (se_queue (sk_end True p3)) = []"
proof -
  obtain r1 p1 where s1: "sock_send [] [5] False False False (pair_create Stream) = (r1, p1)" by (metis prod.exhaust)
  obtain r2 p2 where s2: "sock_send [] [6] False False False p1 = (r2, p2)" by (metis prod.exhaust)
  obtain r3 p3 where s3: "sock_receive 16 False False True p2 = (r3, p3)" by (metis prod.exhaust)
  from empty_sends_lose_descriptors [OF _ _ _ _ _ s1 s2 s3] s1 s2 s3 show ?thesis by (simp add: MAX_RIGHTS_def)
qed

section \<open>Messages\<close>

definition queued_messages :: "bool \<Rightarrow> socket_pair \<Rightarrow> (u8 list \<times> ptr list) list" where
  "queued_messages e p = map (\<lambda>s. (sg_data s, sg_rights s)) (q_segments (se_queue (sk_end e p)))"

definition message_end_ok :: "sock_end \<Rightarrow> bool" where
  "message_end_ok x \<longleftrightarrow> se_open x \<and> \<not> se_read_shut x \<and> \<not> se_write_shut x \<and>
     q_bytes (se_queue x) = sum_list (map (\<lambda>s. int (length (sg_data s))) (q_segments (se_queue x))) \<and>
     sum_list (map (\<lambda>s. int (length (sg_data s))) (q_segments (se_queue x))) \<le> SOCKET_CAPACITY"

definition messages_ok :: "socket_pair \<Rightarrow> bool" where
  "messages_ok p \<longleftrightarrow> sk_kind p \<noteq> Stream \<and> (\<forall>e. message_end_ok (sk_end e p))"

text \<open>What a receive with a buffer of \<open>room\<close> bytes shows of a message.\<close>

definition shows_message :: "int \<times> received \<Rightarrow> u8 list \<times> ptr list \<Rightarrow> bool" where
  "shows_message = (\<lambda>(room, x) (m, rights).
     rc_bytes x = take (nat room) m \<and> rc_rights x = rights \<and> rc_truncated x = (room < int (length m)))"

definition exchanged ::
  "(bool \<Rightarrow> (u8 list \<times> ptr list) list) \<Rightarrow> (bool \<Rightarrow> (int \<times> received) list) \<Rightarrow> socket_pair \<Rightarrow> bool" where
  "exchanged sent got p \<longleftrightarrow>
     messages_ok p \<and> (\<forall>e. \<exists>ms. sent e = ms @ queued_messages e p \<and> list_all2 shows_message (got e) ms)"

lemma message_send:
  assumes ok: "messages_ok p" and send: "sock_send bytes rights False False from p = (r, p')"
  shows "messages_ok p' \<and> queued_messages from p' = queued_messages from p \<and>
    (case r of SReturns n \<Rightarrow> n = int (length bytes) \<and> queued_messages (\<not> from) p' = queued_messages (\<not> from) p @ [(bytes, rights)]
     | _ \<Rightarrow> p' = p)"
proof -
  let ?q = "se_queue (sk_end (\<not> from) p)"
  define s where "s = \<lparr>sg_data = bytes, sg_consumed = 0, sg_rights = rights\<rparr>"
  have to: "message_end_ok (sk_end (\<not> from) p)" and kind: "sk_kind p \<noteq> Stream" using ok by (simp_all add: messages_ok_def)
  have "(\<forall>n. r \<noteq> SReturns n) \<and> p' = p \<or>
      int (length bytes) \<le> send_space from p \<and> r = SReturns (int (length bytes)) \<and>
      p' = upd_end (\<not> from) (\<lambda>e. e\<lparr>se_queue := push_segment s (se_queue e)\<rparr>) p"
    using send kind by (auto simp: sock_send_def send_commit_def Let_def s_def split: if_splits)
  then show ?thesis
  proof
    assume a: "int (length bytes) \<le> send_space from p \<and> r = SReturns (int (length bytes)) \<and>
      p' = upd_end (\<not> from) (\<lambda>e. e\<lparr>se_queue := push_segment s (se_queue e)\<rparr>) p"
    then have "message_end_ok ((sk_end (\<not> from) p)\<lparr>se_queue := push_segment s ?q\<rparr>)"
      using to by (simp add: message_end_ok_def push_segment_def s_def send_space_def)
    then show ?thesis using a ok by (auto simp: messages_ok_def queued_messages_def push_segment_def s_def)
  qed (use ok in \<open>auto split: sock_turn.split\<close>)
qed

lemma message_receive:
  assumes ok: "messages_ok p" and get: "sock_receive room False False e p = (r, p')" and room: "0 \<le> room"
  shows "messages_ok p' \<and> queued_messages (\<not> e) p' = queued_messages (\<not> e) p \<and>
    (case r of SReturns x \<Rightarrow> \<exists>m. queued_messages e p = m # queued_messages e p' \<and> shows_message (room, x) m | _ \<Rightarrow> p' = p)"
proof -
  let ?me = "sk_end e p"
  have me: "message_end_ok ?me" "message_end_ok (sk_end (\<not> e) p)" and kind: "sk_kind p \<noteq> Stream"
    using ok by (simp_all add: messages_ok_def)
  show ?thesis
  proof (cases "q_segments (se_queue ?me)")
    case Nil
    then have "r = SSleeps \<and> p' = p"
      using get me by (simp add: sock_receive_def Let_def message_end_ok_def)
    then show ?thesis using ok by simp
  next
    case (Cons s ss)
    define q where "q = \<lparr>q_segments = ss, q_bytes = q_bytes (se_queue ?me) - int (length (sg_data s))\<rparr>"
    have r: "r = SReturns \<lparr>rc_bytes = take (nat (min room (int (length (sg_data s))))) (sg_data s), rc_rights = sg_rights s,
        rc_truncated = (min room (int (length (sg_data s))) < int (length (sg_data s)))\<rparr>"
      and p': "p' = upd_end e (\<lambda>x. x\<lparr>se_queue := q\<rparr>) p"
      using get me kind Cons by (simp_all add: sock_receive_def Let_def message_end_ok_def q_def)
    have "message_end_ok (?me\<lparr>se_queue := q\<rparr>)" using me(1) Cons by (auto simp: message_end_ok_def q_def)
    then have "messages_ok p'" using ok by (auto simp: messages_ok_def p')
    moreover have "take (nat (min room (int (length m)))) m = take (nat room) m" for m :: "u8 list"
      using room by (simp add: min_def)
    ultimately show ?thesis using Cons
      by (auto simp: r p' queued_messages_def q_def shows_message_def min_def)
  qed
qed

lemma message_step:
  assumes "sock_step oper (sent, got, p) = (sent', got', p')" "exchanged sent got p"
    "case oper of OpReceive _ room \<Rightarrow> 0 \<le> room | _ \<Rightarrow> True"
  shows "exchanged sent' got' p'"
proof (cases oper)
  case (OpSend e bytes rights)
  obtain r p1 where s: "sock_send bytes rights False False e p = (r, p1)" by (metis prod.exhaust)
  have other: "e' = e \<or> e' = (\<not> e)" for e' by blast
  show ?thesis
    using message_send [OF _ s] assms(1,2) OpSend s by (cases r) (auto simp: sock_step_def exchanged_def)
next
  case (OpReceive e room)
  obtain r p1 where s: "sock_receive room False False e p = (r, p1)" by (metis prod.exhaust)
  have "messages_ok p" "0 \<le> room" using assms(2,3) OpReceive by (simp_all add: exchanged_def)
  note m = message_receive [OF this(1) s this(2)]
  show ?thesis
  proof (cases r)
    case (SReturns x)
    then obtain m1 where m1: "queued_messages e p = m1 # queued_messages e p1" "shows_message (room, x) m1" using m by auto
    have "sent' = sent" "got' = got(e := got e @ [(room, x)])" "p' = p1" using assms(1) OpReceive s SReturns by (auto simp: sock_step_def)
    moreover have "\<exists>ms. sent e = ms @ queued_messages e p1 \<and> list_all2 shows_message (got e @ [(room, x)]) ms"
    proof -
      obtain ms where "sent e = ms @ queued_messages e p" "list_all2 shows_message (got e) ms"
        using assms(2) by (auto simp: exchanged_def)
      then show ?thesis using m1 by (intro exI [of _ "ms @ [m1]"]) (simp add: list_all2_appendI)
    qed
    moreover have "\<exists>ms. sent (\<not> e) = ms @ queued_messages (\<not> e) p1 \<and> list_all2 shows_message (got (\<not> e)) ms"
      using assms(2) m by (auto simp: exchanged_def)
    ultimately show ?thesis using m by (auto simp: exchanged_def)
  qed (use assms(1,2) OpReceive s m in \<open>auto simp: sock_step_def\<close>)
qed

text \<open>C33: Through a datagram or seqpacket socket every receive gives one whole message: the messages
  accepted for an end are, in order, those its receives showed, followed by those still queued. A
  receive shows as much of its message as fits its buffer, with all its descriptions, and says
  whether it was cut.\<close>

theorem messages_keep_boundaries:
  assumes "fold sock_step ops (\<lambda>_. [], \<lambda>_. [], pair_create kind) = (sent, got, p)" "kind \<noteq> Stream"
    "list_all (\<lambda>oper. case oper of OpReceive _ room \<Rightarrow> 0 \<le> room | _ \<Rightarrow> True) ops"
  shows "\<exists>ms. sent e = ms @ queued_messages e p \<and> list_all2 shows_message (got e) ms"
proof -
  have run: "exchanged sent' got' p'"
    if "fold sock_step ops (sent0, got0, p0) = (sent', got', p')" "exchanged sent0 got0 p0"
      "list_all (\<lambda>oper. case oper of OpReceive _ room \<Rightarrow> 0 \<le> room | _ \<Rightarrow> True) ops" for ops sent0 got0 p0 sent' got' p'
    using that
  proof (induction ops arbitrary: sent0 got0 p0)
    case (Cons oper ops)
    obtain sent1 got1 p1 where s: "sock_step oper (sent0, got0, p0) = (sent1, got1, p1)" by (metis prod_cases3)
    from message_step [OF s Cons.prems(2)] Cons.prems(1,3) s Cons.IH [of sent1 got1 p1] show ?case by simp
  qed simp
  have "exchanged (\<lambda>_. []) (\<lambda>_. []) (pair_create kind)"
    using assms(2) by (simp add: exchanged_def messages_ok_def message_end_ok_def pair_create_def sk_end_def fresh_end_def
        no_segments_def queued_messages_def SOCKET_CAPACITY_def)
  from run [OF assms(1) this assms(3)] show ?thesis by (simp add: exchanged_def)
qed

theorem messages_keep_boundaries_witness:
  "\<exists>sent got p. fold sock_step [OpSend False [1, 2, 3] [9], OpSend False [4] [], OpReceive True 2, OpReceive True 2]
      (\<lambda>_. [], \<lambda>_. [], pair_create Seqpacket) = (sent, got, p) \<and>
    (\<exists>ms. sent True = ms @ queued_messages True p \<and> list_all2 shows_message (got True) ms)"
proof -
  obtain sent got p where run: "fold sock_step [OpSend False [1, 2, 3] [9], OpSend False [4] [], OpReceive True 2, OpReceive True 2]
      (\<lambda>_. [], \<lambda>_. [], pair_create Seqpacket) = (sent, got, p)" by (metis prod_cases3)
  from messages_keep_boundaries [OF run, of True] run show ?thesis by auto
qed

end
