(* ===== verification/KLock.thy ===== *)
theory KLock
  imports Prelude
begin

text \<open>
  Advisory record locks (\<open>kernel/fs/lock.zig\<close>): the list of locks, the table of processes waiting
  for one, and the operations on them. An operation that holds the table's spinlock is one step;
  \<open>set\<close> is split at the point where it sleeps.

  An owner's number in the code carries its kind in the low bit, which is free because
  descriptions lie at even addresses; here the two kinds are constructors.
\<close>

section \<open>The table\<close>

datatype lkind = LRead | LWrite

datatype owner = Process int | Description int

record rlock =
  lk_key :: int
  lk_owner :: owner
  lk_pid :: int
  lk_first :: int
  lk_last :: int
  lk_kind :: lkind

text \<open>An entry of \<open>waiting\<close>: the process asleep, and the process it waits for.\<close>

record locktab =
  locks :: "rlock list"
  waiting :: "(int \<times> int) option list"

datatype lerror = LWouldBlock | LDeadlock | LInterrupted | LOutOfMemory | LInvalidArgument

definition TO_END :: int where "TO_END = 2 ^ 64 - 1"

definition no_locks :: locktab where
  "no_locks = \<lparr>locks = [], waiting = replicate 64 None\<rparr>"

definition overlaps :: "int \<Rightarrow> int \<Rightarrow> int \<Rightarrow> int \<Rightarrow> bool" where
  "overlaps a_first a_last b_first b_last \<longleftrightarrow> a_first \<le> b_last \<and> b_first \<le> a_last"

fun conflictLocked :: "int \<Rightarrow> owner \<Rightarrow> int \<Rightarrow> int \<Rightarrow> lkind \<Rightarrow> rlock list \<Rightarrow> rlock option" where
  "conflictLocked key owner first until kind [] = None"
| "conflictLocked key owner first until kind (l # ls) =
     (if lk_key l \<noteq> key \<or> lk_owner l = owner then conflictLocked key owner first until kind ls
      else if \<not> overlaps (lk_first l) (lk_last l) first until then conflictLocked key owner first until kind ls
      else if lk_kind l = LWrite \<or> kind = LWrite then Some l
      else conflictLocked key owner first until kind ls)"

text \<open>What \<open>F_GETLK\<close> reports: kind, first and last byte, and process.\<close>

definition find_lock :: "int \<Rightarrow> owner \<Rightarrow> int \<Rightarrow> int \<Rightarrow> lkind \<Rightarrow> locktab \<Rightarrow> (lkind \<times> int \<times> int \<times> int) option" where
  "find_lock key owner first until kind t =
     map_option (\<lambda>l. (lk_kind l, lk_first l, lk_last l, lk_pid l)) (conflictLocked key owner first until kind (locks t))"

fun wait_of :: "(int \<times> int) option list \<Rightarrow> int \<Rightarrow> int option" where
  "wait_of [] p = None"
| "wait_of (None # ws) p = wait_of ws p"
| "wait_of (Some (w, h) # ws) p = (if w = p then Some h else wait_of ws p)"

text \<open>The loop of \<open>wouldDeadlockLocked\<close>, with the steps it has left.\<close>

fun follow_waits :: "nat \<Rightarrow> (int \<times> int) option list \<Rightarrow> int \<Rightarrow> int \<Rightarrow> bool" where
  "follow_waits 0 ws from holder = False"
| "follow_waits (Suc n) ws from holder =
     (if holder = from then True
      else case wait_of ws holder of None \<Rightarrow> False | Some h \<Rightarrow> follow_waits n ws from h)"

definition wouldDeadlockLocked :: "int \<Rightarrow> int \<Rightarrow> (int \<times> int) option list \<Rightarrow> bool" where
  "wouldDeadlockLocked from to ws = follow_waits (length ws) ws from to"

text \<open>The note takes the first free entry; a full table leaves the wait unnoted.\<close>

fun noteWaitingLocked :: "int \<Rightarrow> int \<Rightarrow> (int \<times> int) option list \<Rightarrow> (int \<times> int) option list \<times> nat option" where
  "noteWaitingLocked w h [] = ([], None)"
| "noteWaitingLocked w h (None # ws) = (Some (w, h) # ws, Some 0)"
| "noteWaitingLocked w h (Some x # ws) =
     (case noteWaitingLocked w h ws of (ws', i) \<Rightarrow> (Some x # ws', map_option Suc i))"

text \<open>The walk of \<open>applyLocked\<close> over the owner's locks. \<open>spare\<close> says whether the record for a split
  is still there; taking it twice is \<open>None\<close>, the panic of \<open>spare[1].?\<close>.\<close>

fun trim_locks :: "int \<Rightarrow> owner \<Rightarrow> int \<Rightarrow> int \<Rightarrow> bool \<Rightarrow> rlock list \<Rightarrow> rlock list option" where
  "trim_locks key owner first until spare [] = Some []"
| "trim_locks key owner first until spare (l # ls) =
     (if lk_key l \<noteq> key \<or> lk_owner l \<noteq> owner \<or> \<not> overlaps (lk_first l) (lk_last l) first until
      then map_option (\<lambda>r. l # r) (trim_locks key owner first until spare ls)
      else
        let keeps_head = lk_first l < first; keeps_tail = lk_last l > until
        in if keeps_head \<and> keeps_tail then
             (if spare then map_option (\<lambda>r. l\<lparr>lk_last := first - 1\<rparr> # l\<lparr>lk_first := until + 1\<rparr> # r)
                             (trim_locks key owner first until False ls)
              else None)
           else if keeps_head then map_option (\<lambda>r. l\<lparr>lk_last := first - 1\<rparr> # r) (trim_locks key owner first until spare ls)
           else if keeps_tail then map_option (\<lambda>r. l\<lparr>lk_first := until + 1\<rparr> # r) (trim_locks key owner first until spare ls)
           else trim_locks key owner first until spare ls)"

definition applyLocked :: "int \<Rightarrow> owner \<Rightarrow> int \<Rightarrow> int \<Rightarrow> int \<Rightarrow> lkind option \<Rightarrow> rlock list \<Rightarrow> rlock list option" where
  "applyLocked key owner pid first until kind ls =
     map_option (\<lambda>r. case kind of
         None \<Rightarrow> r
       | Some k \<Rightarrow> \<lparr>lk_key = key, lk_owner = owner, lk_pid = pid, lk_first = first, lk_last = until, lk_kind = k\<rparr> # r)
       (trim_locks key owner first until True ls)"

section \<open>Setting and releasing\<close>

text \<open>How a turn of \<open>set\<close> ends: done, failed, asleep with the entry of \<open>waiting\<close> that notes it, or
  with the panic above.\<close>

datatype set_result = SetDone | SetErr lerror | SetSleep "nat option" | SetPanic

text \<open>One turn of the loop of \<open>set\<close>, from \<open>prepareWait\<close> to the end or to sleep.\<close>

definition set_turn ::
  "int \<Rightarrow> owner \<Rightarrow> int \<Rightarrow> int \<Rightarrow> int \<Rightarrow> lkind option \<Rightarrow> bool \<Rightarrow> bool \<Rightarrow> locktab \<Rightarrow> set_result \<times> locktab" where
  "set_turn key owner pid first until kind wait interrupted t =
     (case (case kind of None \<Rightarrow> None | Some k \<Rightarrow> conflictLocked key owner first until k (locks t)) of
        Some l \<Rightarrow>
          if \<not> wait then (SetErr LWouldBlock, t)
          else (case (owner, lk_owner l) of
                  (Process w, Process h) \<Rightarrow>
                    if wouldDeadlockLocked w h (waiting t) then (SetErr LDeadlock, t)
                    else if interrupted then (SetErr LInterrupted, t)
                    else (case noteWaitingLocked w h (waiting t) of (ws, i) \<Rightarrow> (SetSleep i, t\<lparr>waiting := ws\<rparr>))
                | _ \<Rightarrow> if interrupted then (SetErr LInterrupted, t) else (SetSleep None, t))
      | None \<Rightarrow>
          (case applyLocked key owner pid first until kind (locks t) of
             None \<Rightarrow> (SetPanic, t)
           | Some ls \<Rightarrow> (SetDone, t\<lparr>locks := ls\<rparr>)))"

text \<open>\<open>set\<close> up to its first sleep; \<open>memory\<close> says whether the two spare records could be allocated.\<close>

definition lock_set ::
  "bool \<Rightarrow> int \<Rightarrow> owner \<Rightarrow> int \<Rightarrow> int \<Rightarrow> int \<Rightarrow> lkind option \<Rightarrow> bool \<Rightarrow> bool \<Rightarrow> locktab \<Rightarrow> set_result \<times> locktab" where
  "lock_set memory key owner pid first until kind wait interrupted t =
     (if first > until then (SetErr LInvalidArgument, t)
      else if \<not> memory then (SetErr LOutOfMemory, t)
      else set_turn key owner pid first until kind wait interrupted t)"

text \<open>Woken: the note is cleared and the loop turns again.\<close>

definition clear_note :: "nat option \<Rightarrow> locktab \<Rightarrow> locktab" where
  "clear_note note t = (case note of None \<Rightarrow> t | Some i \<Rightarrow> t\<lparr>waiting := (waiting t)[i := None]\<rparr>)"

definition set_again ::
  "nat option \<Rightarrow> int \<Rightarrow> owner \<Rightarrow> int \<Rightarrow> int \<Rightarrow> int \<Rightarrow> lkind option \<Rightarrow> bool \<Rightarrow> locktab \<Rightarrow> set_result \<times> locktab" where
  "set_again note key owner pid first until kind interrupted t =
     set_turn key owner pid first until kind True interrupted (clear_note note t)"

definition releaseMatching :: "owner \<Rightarrow> int option \<Rightarrow> locktab \<Rightarrow> locktab" where
  "releaseMatching owner key t =
     t\<lparr>locks := filter (\<lambda>l. \<not> (lk_owner l = owner \<and> (key = None \<or> Some (lk_key l) = key))) (locks t)\<rparr>"

definition releaseFile :: "int \<Rightarrow> owner \<Rightarrow> locktab \<Rightarrow> locktab" where
  "releaseFile key owner = releaseMatching owner (Some key)"

definition releaseAll :: "owner \<Rightarrow> locktab \<Rightarrow> locktab" where
  "releaseAll owner = releaseMatching owner None"

definition lock_count :: "locktab \<Rightarrow> nat" where
  "lock_count t = length (locks t)"

section \<open>The specification\<close>

text \<open>Which lock, if any, an owner has on a byte of a file.\<close>

definition covers :: "int \<Rightarrow> owner \<Rightarrow> int \<Rightarrow> rlock \<Rightarrow> bool" where
  "covers key owner b l \<longleftrightarrow> lk_key l = key \<and> lk_owner l = owner \<and> lk_first l \<le> b \<and> b \<le> lk_last l"

fun holds :: "rlock list \<Rightarrow> int \<Rightarrow> owner \<Rightarrow> int \<Rightarrow> lkind option" where
  "holds [] key owner b = None"
| "holds (l # ls) key owner b = (if covers key owner b l then Some (lk_kind l) else holds ls key owner b)"

text \<open>Two records may stand in the list together: they are apart, or both shared and of different
  owners.\<close>

definition compatible :: "rlock \<Rightarrow> rlock \<Rightarrow> bool" where
  "compatible l m \<longleftrightarrow> lk_key l \<noteq> lk_key m \<or> \<not> overlaps (lk_first l) (lk_last l) (lk_first m) (lk_last m) \<or>
     (lk_owner l \<noteq> lk_owner m \<and> lk_kind l = LRead \<and> lk_kind m = LRead)"

definition locks_ok :: "rlock list \<Rightarrow> bool" where
  "locks_ok ls \<longleftrightarrow> sorted_wrt compatible ls \<and> (\<forall>l \<in> set ls. 0 \<le> lk_first l \<and> lk_first l \<le> lk_last l)"

lemma locks_ok_Nil [simp]: "locks_ok []"
  by (simp add: locks_ok_def)

lemma locks_ok_Cons [simp]:
  "locks_ok (l # ls) \<longleftrightarrow> 0 \<le> lk_first l \<and> lk_first l \<le> lk_last l \<and> (\<forall>m \<in> set ls. compatible l m) \<and> locks_ok ls"
  by (auto simp: locks_ok_def)

text \<open>\<open>s\<close> is what is left of a record of \<open>ls\<close>.\<close>

definition remnant :: "rlock \<Rightarrow> rlock \<Rightarrow> bool" where
  "remnant l s \<longleftrightarrow> lk_key s = lk_key l \<and> lk_owner s = lk_owner l \<and> lk_kind s = lk_kind l \<and>
     lk_first l \<le> lk_first s \<and> lk_last s \<le> lk_last l"

lemma remnant_refl [simp]: "remnant l l"
  by (simp add: remnant_def)

lemma compatible_remnant: "compatible l m \<Longrightarrow> remnant l l' \<Longrightarrow> remnant m m' \<Longrightarrow> compatible l' m'"
  by (auto simp: compatible_def remnant_def overlaps_def)

text \<open>Whether the walk touches a record.\<close>

definition touched :: "int \<Rightarrow> owner \<Rightarrow> int \<Rightarrow> int \<Rightarrow> rlock \<Rightarrow> bool" where
  "touched key owner first until l \<longleftrightarrow>
     lk_key l = key \<and> lk_owner l = owner \<and> overlaps (lk_first l) (lk_last l) first until"

lemma trim_untouched: "\<forall>l \<in> set ls. \<not> touched key owner first until l \<Longrightarrow> trim_locks key owner first until spare ls = Some ls"
  by (induction ls) (auto simp: touched_def)

lemma trim_total:
  assumes "locks_ok ls" "first \<le> until"
  shows "\<exists>r. trim_locks key owner first until True ls = Some r"
  using assms
proof (induction ls)
  case (Cons l ls)
  show ?case
  proof (cases "touched key owner first until l \<and> lk_first l < first \<and> lk_last l > until")
    case True
    have "\<not> touched key owner first until m" if "m \<in> set ls" for m
      using True Cons.prems that by (auto simp: touched_def compatible_def overlaps_def)
    then show ?thesis using trim_untouched [of ls key owner first until] True by (simp add: touched_def)
  next
    case False
    then show ?thesis using Cons by (auto simp: touched_def Let_def)
  qed
qed simp

lemma trim_remnants:
  "trim_locks key owner first until spare ls = Some r \<Longrightarrow> s \<in> set r \<Longrightarrow>
    \<exists>l \<in> set ls. remnant l s \<and> \<not> touched key owner first until s"
proof (induction ls arbitrary: spare r)
  case (Cons l ls)
  then show ?case
    by (auto simp: Let_def remnant_def touched_def overlaps_def split: if_splits) fastforce+
qed simp

lemma trim_ok:
  "trim_locks key owner first until spare ls = Some r \<Longrightarrow> locks_ok ls \<Longrightarrow> first \<le> until \<Longrightarrow> 0 \<le> first \<Longrightarrow> locks_ok r"
proof (induction ls arbitrary: spare r)
  case (Cons l ls)
  have later: "compatible l' s" if "trim_locks key owner first until b ls = Some q" "s \<in> set q" "remnant l l'" for b q s l'
    using trim_remnants [OF that(1,2)] Cons.prems that(3) by (auto intro: compatible_remnant)
  note step = Cons.IH [OF _ _ Cons.prems(3,4)]
  have low: "remnant l (l\<lparr>lk_last := first - 1\<rparr>)" if "first \<le> lk_last l"
    using that by (simp add: remnant_def)
  have high: "remnant l (l\<lparr>lk_first := until + 1\<rparr>)" if "lk_first l \<le> until"
    using that by (simp add: remnant_def)
  have apart: "compatible (l\<lparr>lk_last := first - 1\<rparr>) (l\<lparr>lk_first := until + 1\<rparr>)"
    using Cons.prems(3) by (simp add: compatible_def overlaps_def)
  have touch: "first \<le> lk_last l" "lk_first l \<le> until" if "overlaps (lk_first l) (lk_last l) first until"
    using that by (auto simp: overlaps_def)
  show ?case
    using Cons.prems step later [OF _ _ low] later [OF _ _ high] later [OF _ _ remnant_refl] apart touch
    by (auto simp: Let_def split: if_splits)
qed simp

text \<open>The walk takes exactly the range away from the owner.\<close>

lemma holds_remnants:
  "lk_key l = key \<Longrightarrow> lk_owner l = owner \<Longrightarrow> holds (l # ls) key owner b =
    (if lk_first l \<le> b \<and> b \<le> lk_last l then Some (lk_kind l) else holds ls key owner b)"
  by (simp add: covers_def)

lemma trim_holds:
  "trim_locks key owner first until spare ls = Some r \<Longrightarrow> locks_ok ls \<Longrightarrow> first \<le> until \<Longrightarrow>
    holds r key' owner' b = (if key' = key \<and> owner' = owner \<and> first \<le> b \<and> b \<le> until then None else holds ls key' owner' b)"
proof (induction ls arbitrary: spare r)
  case (Cons l ls)
  note step = Cons.IH [OF _ _ Cons.prems(3)]
  have none: "holds ls (lk_key l) (lk_owner l) b = None" if "lk_first l \<le> b" "b \<le> lk_last l"
  proof -
    have "\<not> covers (lk_key l) (lk_owner l) b m" if "m \<in> set ls" for m
      using Cons.prems(2) \<open>m \<in> set ls\<close> \<open>lk_first l \<le> b\<close> \<open>b \<le> lk_last l\<close>
      by (auto simp: covers_def compatible_def overlaps_def)
    then show ?thesis by (induction ls) auto
  qed
  show ?case
    using Cons.prems step none
    by (auto simp: Let_def covers_def overlaps_def split: if_splits)
qed simp

text \<open>A lock that conflicts with nothing is compatible with every other owner's.\<close>

lemma no_conflict_compatible:
  "conflictLocked key owner first until kind ls = None \<Longrightarrow> m \<in> set ls \<Longrightarrow> lk_owner m \<noteq> owner \<Longrightarrow>
    compatible \<lparr>lk_key = key, lk_owner = owner, lk_pid = pid, lk_first = first, lk_last = until, lk_kind = kind\<rparr> m"
  by (induction ls) (auto simp: compatible_def overlaps_def intro: lkind.exhaust split: if_splits)

definition granted :: "int \<Rightarrow> owner \<Rightarrow> int \<Rightarrow> int \<Rightarrow> lkind option \<Rightarrow> rlock list \<Rightarrow> bool" where
  "granted key owner first until kind ls =
     (case kind of None \<Rightarrow> True | Some k \<Rightarrow> conflictLocked key owner first until k ls = None)"

lemma apply_ok:
  assumes "locks_ok ls" "0 \<le> first" "first \<le> until" "granted key owner first until kind ls"
    and a: "applyLocked key owner pid first until kind ls = Some r"
  shows "locks_ok r"
proof -
  obtain q where q: "trim_locks key owner first until True ls = Some q"
    "r = (case kind of None \<Rightarrow> q
       | Some k \<Rightarrow> \<lparr>lk_key = key, lk_owner = owner, lk_pid = pid, lk_first = first, lk_last = until, lk_kind = k\<rparr> # q)"
    using a by (auto simp: applyLocked_def)
  have ok: "locks_ok q" using trim_ok [OF q(1)] assms by simp
  show ?thesis
  proof (cases kind)
    case (Some k)
    have "compatible \<lparr>lk_key = key, lk_owner = owner, lk_pid = pid, lk_first = first, lk_last = until, lk_kind = k\<rparr> s"
      if s: "s \<in> set q" for s
    proof -
      obtain l where l: "l \<in> set ls" "remnant l s" "\<not> touched key owner first until s"
        using trim_remnants [OF q(1) s] by blast
      show ?thesis
      proof (cases "lk_owner s = owner")
        case True
        then show ?thesis using l by (auto simp: touched_def compatible_def overlaps_def)
      next
        case False
        then have "lk_owner l \<noteq> owner" using l by (simp add: remnant_def)
        with no_conflict_compatible l(1) assms(4) Some
        show ?thesis by (auto simp: granted_def intro: compatible_remnant [OF _ remnant_refl l(2)])
      qed
    qed
    then show ?thesis using ok assms q Some by simp
  qed (use ok q in simp)
qed

lemma holds_apply:
  assumes "locks_ok ls" "first \<le> until" and a: "applyLocked key owner pid first until kind ls = Some r"
  shows "holds r key' owner' b =
    (if key' = key \<and> owner' = owner \<and> first \<le> b \<and> b \<le> until then kind else holds ls key' owner' b)"
  using a trim_holds [OF _ assms(1,2)]
  by (cases kind) (auto simp: applyLocked_def covers_def)

lemma holds_None: "holds ls key owner b = None \<longleftrightarrow> (\<forall>l \<in> set ls. \<not> covers key owner b l)"
  by (induction ls) auto

lemma holds_member: "holds ls key owner b = Some kind \<Longrightarrow> \<exists>l \<in> set ls. covers key owner b l \<and> lk_kind l = kind"
  by (induction ls) (auto split: if_splits)

lemma compatible_sym: "compatible l m = compatible m l"
  by (auto simp: compatible_def overlaps_def)

lemma locks_ok_pair: "locks_ok ls \<Longrightarrow> l \<in> set ls \<Longrightarrow> m \<in> set ls \<Longrightarrow> l \<noteq> m \<Longrightarrow> compatible l m"
  by (induction ls) (auto simp: compatible_sym)

lemma locks_ok_filter: "locks_ok ls \<Longrightarrow> locks_ok (filter P ls)"
  by (simp add: locks_ok_def sorted_wrt_filter)

lemma holds_filter:
  "(\<And>l. l \<in> set ls \<Longrightarrow> covers key owner b l \<Longrightarrow> P l) \<Longrightarrow> holds (filter P ls) key owner b = holds ls key owner b"
  by (induction ls) auto

section \<open>Every table the operations reach\<close>

text \<open>The steps of the lock table: a turn of \<open>set\<close> over a range of file offsets, clearing a note, and
  the two releases.\<close>

inductive lock_reach :: "locktab \<Rightarrow> bool" where
  reach_start: "lock_reach no_locks"
| reach_set: "lock_reach t \<Longrightarrow> 0 \<le> first \<Longrightarrow> first \<le> until \<Longrightarrow>
    set_turn key owner pid first until kind wait interrupted t = (r, t') \<Longrightarrow> lock_reach t'"
| reach_clear: "lock_reach t \<Longrightarrow> lock_reach (clear_note note t)"
| reach_release: "lock_reach t \<Longrightarrow> lock_reach (releaseMatching owner key t)"

lemma set_turn_locks:
  "set_turn key owner pid first until kind wait interrupted t = (r, t') \<Longrightarrow>
    locks t' = locks t \<and> r \<noteq> SetDone \<or>
    granted key owner first until kind (locks t) \<and> applyLocked key owner pid first until kind (locks t) = Some (locks t') \<and> r = SetDone"
  by (auto simp: set_turn_def granted_def split: option.splits owner.splits if_splits prod.splits)

lemma lock_reach_ok: "lock_reach t \<Longrightarrow> locks_ok (locks t)"
proof (induction rule: lock_reach.induct)
  case (reach_set t first until key owner pid kind wait interrupted r t')
  then show ?case using set_turn_locks [OF reach_set.hyps(4)] by (auto intro: apply_ok)
qed (auto simp: no_locks_def clear_note_def releaseMatching_def locks_ok_filter split: option.splits)

text \<open>C4: Whatever sequence of \<open>F_SETLK\<close>, \<open>F_SETLKW\<close>, unlocking, closing and exiting has run, a
  byte of a file that one owner has locked for writing is locked by nobody else.\<close>

theorem write_locks_exclude:
  assumes "lock_reach t" "holds (locks t) key owner b = Some LWrite" "holds (locks t) key owner' b \<noteq> None"
  shows "owner' = owner"
proof (rule ccontr)
  assume "owner' \<noteq> owner"
  obtain l where l: "l \<in> set (locks t)" "covers key owner b l" "lk_kind l = LWrite"
    using holds_member [OF assms(2)] by auto
  obtain m where m: "m \<in> set (locks t)" "covers key owner' b m" using assms(3) by (auto simp: holds_None)
  have "l \<noteq> m" using l m \<open>owner' \<noteq> owner\<close> by (auto simp: covers_def)
  then show False
    using locks_ok_pair [OF lock_reach_ok [OF assms(1)] l(1) m(1)] l m by (auto simp: compatible_def overlaps_def covers_def)
qed

definition two_readers :: locktab where
  "two_readers = snd (set_turn 7 (Description 3) (-1) 40 59 (Some LWrite) False False
     (snd (set_turn 7 (Process 1) 1 0 39 (Some LWrite) False False no_locks)))"

theorem write_locks_exclude_witness:
  "holds (locks two_readers) 7 (Process 1) 5 = Some LWrite \<and> holds (locks two_readers) 7 (Description 3) 5 = None \<and>
   holds (locks two_readers) 7 (Description 3) 45 = Some LWrite"
proof -
  have reach: "lock_reach two_readers"
    unfolding two_readers_def
    by (rule reach_set [of "snd (set_turn 7 (Process 1) 1 0 39 (Some LWrite) False False no_locks)" 40 59, OF _ _ _ prod.collapse [symmetric]])
       (auto intro: reach_set [of no_locks 0 39, OF _ _ _ prod.collapse [symmetric]] reach_start)
  have w: "holds (locks two_readers) 7 (Process 1) 5 = Some LWrite" by code_simp
  have "holds (locks two_readers) 7 (Description 3) 5 = None"
    using write_locks_exclude [OF reach w, of "Description 3"] by (cases "holds (locks two_readers) 7 (Description 3) 5") auto
  moreover have "holds (locks two_readers) 7 (Description 3) 45 = Some LWrite" by code_simp
  ultimately show ?thesis using w by simp
qed

text \<open>C8: A lock that is granted gives its owner exactly the bytes of its range in the kind asked
  for, an unlock takes exactly them away, no other byte and no other owner's lock changes, and the
  record kept for splitting a lock never runs out: the list of records implements a map from file,
  owner and byte to the lock held there.\<close>

theorem set_refines_byte_map:
  assumes "lock_reach t" "0 \<le> first" "first \<le> until" "granted key owner first until kind (locks t)"
  shows "\<exists>t'. set_turn key owner pid first until kind wait interrupted t = (SetDone, t') \<and>
    waiting t' = waiting t \<and>
    (\<forall>key' owner' b. holds (locks t') key' owner' b =
       (if key' = key \<and> owner' = owner \<and> first \<le> b \<and> b \<le> until then kind else holds (locks t) key' owner' b))"
proof -
  have ok: "locks_ok (locks t)" by (rule lock_reach_ok [OF assms(1)])
  obtain ls where ls: "applyLocked key owner pid first until kind (locks t) = Some ls"
    using trim_total [OF ok assms(3), of key owner] by (auto simp: applyLocked_def)
  have "set_turn key owner pid first until kind wait interrupted t = (SetDone, t\<lparr>locks := ls\<rparr>)"
    using assms(4) ls by (auto simp: set_turn_def granted_def split: option.splits)
  then show ?thesis using holds_apply [OF ok assms(3) ls] by simp
qed

definition split_locks :: locktab where
  "split_locks = snd (set_turn 7 (Process 1) 1 0 99 (Some LWrite) False False no_locks)"

theorem set_refines_byte_map_witness:
  "\<exists>t'. set_turn 7 (Process 1) 1 40 59 None False False split_locks = (SetDone, t') \<and>
    holds (locks t') 7 (Process 1) 45 = None \<and> holds (locks t') 7 (Process 1) 10 = Some LWrite \<and>
    holds (locks t') 7 (Process 1) 70 = Some LWrite"
proof -
  have reach: "lock_reach split_locks"
    unfolding split_locks_def by (rule reach_set [of no_locks 0 99, OF _ _ _ prod.collapse [symmetric]]) (auto intro: reach_start)
  have h: "holds (locks split_locks) 7 (Process 1) 10 = Some LWrite" "holds (locks split_locks) 7 (Process 1) 70 = Some LWrite"
    by code_simp+
  from set_refines_byte_map [OF reach, of 40 59 7 "Process 1" None 1 False False] h
  show ?thesis by (fastforce simp: granted_def)
qed

section \<open>Deadlock\<close>

text \<open>The waits noted in the table, as a relation between processes.\<close>

definition wait_edges :: "(int \<times> int) option list \<Rightarrow> (int \<times> int) set" where
  "wait_edges ws = {e. Some e \<in> set ws}"

lemma wait_edges_eq: "wait_edges ws = set (concat (map (\<lambda>w. case w of None \<Rightarrow> [] | Some e \<Rightarrow> [e]) ws))"
  by (induction ws) (auto simp: wait_edges_def split: option.splits)

lemma finite_wait_edges [simp]: "finite (wait_edges ws)"
  unfolding wait_edges_eq by (rule finite_set)

lemma card_wait_edges: "None \<in> set ws \<Longrightarrow> card (wait_edges ws) < length ws"
proof -
  let ?f = "\<lambda>w. case w of None \<Rightarrow> [] | Some e \<Rightarrow> [e]"
  assume "None \<in> set ws"
  then have "length (concat (map ?f ws)) < length ws"
  proof (induction ws)
    case (Cons w ws)
    have "length (concat (map ?f ws)) \<le> length ws" by (induction ws) (auto split: option.splits)
    then show ?case using Cons by (auto split: option.splits)
  qed simp
  then show ?thesis unfolding wait_edges_eq by (meson card_length le_less_trans)
qed

text \<open>No process has two waits noted, as when each has one thread.\<close>

definition single_waits :: "(int \<times> int) option list \<Rightarrow> bool" where
  "single_waits ws \<longleftrightarrow> (\<forall>w h h'. (w, h) \<in> wait_edges ws \<longrightarrow> (w, h') \<in> wait_edges ws \<longrightarrow> h = h')"

lemma wait_of_edge: "single_waits ws \<Longrightarrow> (w, h) \<in> wait_edges ws \<Longrightarrow> wait_of ws w = Some h"
proof -
  assume s: "single_waits ws" and e: "(w, h) \<in> wait_edges ws"
  have "\<exists>h'. wait_of ws w = Some h' \<and> (w, h') \<in> wait_edges ws"
    using e unfolding wait_edges_def by (induction ws w rule: wait_of.induct) auto
  then show ?thesis using s e by (auto simp: single_waits_def)
qed

lemma follow_waits_path:
  "single_waits ws \<Longrightarrow> (holder, from) \<in> wait_edges ws ^^ n \<Longrightarrow> n < m \<Longrightarrow> follow_waits m ws from holder"
proof (induction n arbitrary: m holder)
  case 0
  then show ?case by (cases m) auto
next
  case (Suc n)
  obtain h where h: "(holder, h) \<in> wait_edges ws" "(h, from) \<in> wait_edges ws ^^ n"
    using Suc.prems(2) by (meson relpow_Suc_D2)
  obtain m' where m: "m = Suc m'" "n < m'" using Suc.prems(3) by (cases m) auto
  show ?case using Suc.IH [OF Suc.prems(1) h(2) m(2)] wait_of_edge [OF Suc.prems(1) h(1)] m by simp
qed

lemma note_edges:
  "noteWaitingLocked w h ws = (ws', Some i) \<Longrightarrow> wait_edges ws' = insert (w, h) (wait_edges ws) \<and> None \<in> set ws"
  by (induction w h ws arbitrary: ws' i rule: noteWaitingLocked.induct)
     (auto simp: wait_edges_def split: prod.splits)

lemma note_full: "noteWaitingLocked w h ws = (ws', None) \<Longrightarrow> ws' = ws"
  by (induction w h ws arbitrary: ws' rule: noteWaitingLocked.induct) (auto split: prod.splits)


definition deadlock_table :: locktab where
  "deadlock_table = snd (set_turn 7 (Process 2) 2 300 300 (Some LWrite) True False
     (snd (set_turn 7 (Process 2) 2 200 200 (Some LWrite) False False
     (snd (set_turn 7 (Process 1) 1 300 300 (Some LWrite) False False no_locks)))))"


end
