(* ===== verification/KTmpfs.thy ===== *)
theory KTmpfs
  imports KSlots
begin

text \<open>
  The in-memory filesystem of \<open>/tmp\<close> and \<open>/data\<close> (\<open>kernel/fs/tmpfs/tmpfs.zig\<close>): inodes, paths,
  the changes of the tree, and files as arrays of frames with holes.

  An inode is a slot of the heap; the chain of siblings that starts at \<open>first_child\<close> is the list
  of a directory's children, and a file's \<open>frames\<close> is a list with \<open>None\<close> for a hole. The frames
  physical memory has left are a number; a frame is the list of its bytes up to the last that was
  ever written, and the rest of its 4096 are zero. The filesystem's spinlock makes each operation
  one step.
\<close>

unbundle bit_operations_syntax

section \<open>Inodes and volumes\<close>

datatype tmp_error =
    TNotFound | TNotDirectory | TIsDirectory | TExists | TNotEmpty | TNoSpace | TNameTooLong
  | TInvalidArgument | TFileTooBig | TSealed | TBusy

datatype volname = TmpVol | DataVol

record volume =
  v_root :: ptr
  v_used :: int
  v_quota :: int
  v_persistent :: bool
  v_dirty :: bool

record inode =
  in_dir :: bool
  in_id :: int
  in_vol :: volname
  in_refs :: int
  in_linked :: bool
  in_parent :: "ptr option"
  in_children :: "ptr list"
  in_name :: string
  in_size :: int
  in_seals :: u32
  in_mappings :: int
  in_writable :: int
  in_frames :: "u8 list option list"

record tmpfs =
  inodes :: "inode option list"
  tmp_vol :: volume
  data_vol :: volume
  next_id :: int
  free_frames :: int

definition MAX_NAME :: nat where "MAX_NAME = 128"

lemma longer_than_name [code_unfold]: "MAX_NAME < length xs \<longleftrightarrow> exceeds xs 128"
  by (auto simp: MAX_NAME_def exceeds_length)

definition MAX_FILE_SIZE :: int where "MAX_FILE_SIZE = 2 ^ 30"
definition PAGE_SIZE :: int where "PAGE_SIZE = 4096"

definition SEAL_SEAL :: u32 where "SEAL_SEAL = 1"
definition SEAL_SHRINK :: u32 where "SEAL_SHRINK = 2"
definition SEAL_GROW :: u32 where "SEAL_GROW = 4"
definition SEAL_WRITE :: u32 where "SEAL_WRITE = 8"
definition SEAL_FUTURE_WRITE :: u32 where "SEAL_FUTURE_WRITE = 16"

definition zero_page :: "u8 list" where "zero_page = []"

definition vol_of :: "volname \<Rightarrow> tmpfs \<Rightarrow> volume" where
  "vol_of v fs = (case v of TmpVol \<Rightarrow> tmp_vol fs | DataVol \<Rightarrow> data_vol fs)"

definition upd_vol :: "volname \<Rightarrow> (volume \<Rightarrow> volume) \<Rightarrow> tmpfs \<Rightarrow> tmpfs" where
  "upd_vol v f fs = (case v of TmpVol \<Rightarrow> fs\<lparr>tmp_vol := f (tmp_vol fs)\<rparr> | DataVol \<Rightarrow> fs\<lparr>data_vol := f (data_vol fs)\<rparr>)"

definition upd_inode :: "ptr \<Rightarrow> (inode \<Rightarrow> inode) \<Rightarrow> tmpfs \<Rightarrow> tmpfs" where
  "upd_inode i f fs =
     (case deref (inodes fs) i of None \<Rightarrow> fs | Some x \<Rightarrow> fs\<lparr>inodes := set_slot i (Some (f x)) (inodes fs)\<rparr>)"

text \<open>An inode that exists; pointers held by the tree and by handles always do.\<close>

definition no_inode :: inode where
  "no_inode = \<lparr>in_dir = False, in_id = 0, in_vol = TmpVol, in_refs = 0, in_linked = False, in_parent = None,
     in_children = [], in_name = [], in_size = 0, in_seals = 0, in_mappings = 0, in_writable = 0, in_frames = []\<rparr>"

definition inode_at :: "tmpfs \<Rightarrow> ptr \<Rightarrow> inode" where
  "inode_at fs i = (case deref (inodes fs) i of None \<Rightarrow> no_inode | Some x \<Rightarrow> x)"

definition tmp_usage :: "volname \<Rightarrow> tmpfs \<Rightarrow> int \<times> int" where
  "tmp_usage v fs = (let x = vol_of v fs in (v_quota x * PAGE_SIZE, max 0 (v_quota x - v_used x) * PAGE_SIZE))"

definition changedLocked :: "volname \<Rightarrow> tmpfs \<Rightarrow> tmpfs" where
  "changedLocked v fs = (if v_persistent (vol_of v fs) then upd_vol v (\<lambda>x. x\<lparr>v_dirty := True\<rparr>) fs else fs)"

section \<open>File data\<close>

definition frameAt :: "inode \<Rightarrow> int \<Rightarrow> u8 list option" where
  "frameAt x page = (case slot (in_frames x) page of None \<Rightarrow> None | Some f \<Rightarrow> f)"

text \<open>Growing the array of frames, for which the kernel heap always has room here.\<close>

definition ensureCapacity :: "int \<Rightarrow> inode \<Rightarrow> inode" where
  "ensureCapacity pages x =
     (let capacity = int (length (in_frames x))
      in if pages \<le> capacity then x
         else x\<lparr>in_frames := in_frames x @ replicate (nat (max (max pages (capacity * 2)) 16 - capacity)) None\<rparr>)"

definition page_slice :: "'a list \<Rightarrow> int \<Rightarrow> int \<Rightarrow> 'a list" where
  "page_slice xs from n = take (nat n) (drop (nat from) xs)"

text \<open>The copying loop of \<open>read\<close>: \<open>count\<close> bytes from \<open>position\<close>.\<close>

function read_pages :: "inode \<Rightarrow> int \<Rightarrow> int \<Rightarrow> u8 list" where
  "read_pages x position count =
     (if count \<le> 0 then []
      else
        let inner = position mod PAGE_SIZE; chunk = min (PAGE_SIZE - inner) count
        in (case frameAt x (position div PAGE_SIZE) of
              None \<Rightarrow> replicate (nat chunk) 0
            | Some frame \<Rightarrow> let bytes = page_slice frame inner chunk in bytes @ replicate (nat chunk - length bytes) 0) @ read_pages x (position + chunk) (count - chunk))"
  by auto
termination
proof (relation "measure (\<lambda>(x, position, count). nat count)", goal_cases)
  case (2 x position count inner chunk)
  have "inner < PAGE_SIZE" using 2(2) pos_mod_bound [of PAGE_SIZE position] by (simp add: PAGE_SIZE_def)
  then show ?case using 2 by simp
qed simp

definition tmp_read :: "ptr \<Rightarrow> int \<Rightarrow> int \<Rightarrow> tmpfs \<Rightarrow> tmp_error + u8 list" where
  "tmp_read i offset room fs =
     (let x = inode_at fs i
      in if in_dir x then Inl TIsDirectory
         else if offset \<ge> in_size x then Inr []
         else Inr (read_pages x offset (min room (in_size x - offset))))"

text \<open>Bytes over a frame from \<open>inner\<close>.\<close>

definition splice :: "int \<Rightarrow> u8 list \<Rightarrow> u8 list \<Rightarrow> u8 list" where
  "splice inner bytes frame =
     take (nat inner) frame @ replicate (nat inner - length frame) 0 @ bytes @ drop (nat inner + length bytes) frame"

definition hole_at :: "u8 list option list \<Rightarrow> int \<Rightarrow> bool" where
  "hole_at frames page = (case slot frames page of Some (Some f) \<Rightarrow> False | _ \<Rightarrow> True)"

definition frame_or_zero :: "u8 list option list \<Rightarrow> int \<Rightarrow> u8 list" where
  "frame_or_zero frames page = (case slot frames page of Some (Some f) \<Rightarrow> f | _ \<Rightarrow> zero_page)"

text \<open>The copying loop of \<open>write\<close>. \<open>room\<close> and \<open>memory\<close> are the pages of the quota and the frames of
  physical memory left; the loop breaks when a hole cannot be filled. The pages, how much of
  \<open>room\<close> is used, and the bytes copied.\<close>

function write_pages :: "u8 list option list \<Rightarrow> int \<Rightarrow> u8 list \<Rightarrow> int \<Rightarrow> int \<Rightarrow> u8 list option list \<times> int \<times> int" where
  "write_pages frames position bytes room memory =
     (if bytes = [] then (frames, 0, 0)
      else
        let inner = position mod PAGE_SIZE; page = position div PAGE_SIZE;
            chunk = min (PAGE_SIZE - inner) (int (length bytes));
            hole = hole_at frames page
        in if hole \<and> (room \<le> 0 \<or> memory \<le> 0) then (frames, 0, 0)
           else
             let frame = frame_or_zero frames page;
                 taken = (if hole then 1 else 0);
                 frames' = set_slot page (Some (splice inner (take (nat chunk) bytes) frame)) frames
             in case write_pages frames' (position + chunk) (drop (nat chunk) bytes) (room - taken) (memory - taken) of
                  (r, used, n) \<Rightarrow> (r, used + taken, n + chunk))"
  by pat_completeness simp
termination
proof (relation "measure (\<lambda>(frames, position, bytes, room, memory). length bytes)", goal_cases)
  case (2 frames position bytes room memory inner page chunk hole frame taken frames')
  have "inner < PAGE_SIZE" using 2(2) pos_mod_bound [of PAGE_SIZE position] by (simp add: PAGE_SIZE_def)
  then have "0 < chunk" using 2(1,4) by simp
  then show ?case using 2(1) by simp
qed simp

text \<open>\<open>write\<close> at \<open>offset\<close>, or at the end when it is \<open>None\<close>: the count and the offset it ends at.\<close>

definition tmp_write :: "ptr \<Rightarrow> int option \<Rightarrow> u8 list \<Rightarrow> tmpfs \<Rightarrow> (tmp_error + int \<times> int) \<times> tmpfs" where
  "tmp_write i offset bytes fs =
     (let x = inode_at fs i;
          start = (case offset of None \<Rightarrow> in_size x | Some off \<Rightarrow> off);
          count = int (length bytes)
      in if in_dir x then (Inl TIsDirectory, fs)
         else if start > MAX_FILE_SIZE \<or> count > MAX_FILE_SIZE - start then (Inl TFileTooBig, fs)
         else if in_seals x AND (SEAL_WRITE OR SEAL_FUTURE_WRITE) \<noteq> 0 then (Inl TSealed, fs)
         else if in_seals x AND SEAL_GROW \<noteq> 0 \<and> start + count > in_size x then (Inl TSealed, fs)
         else
           let v = vol_of (in_vol x) fs;
               y = ensureCapacity ((start + count + PAGE_SIZE - 1) div PAGE_SIZE) x
           in case write_pages (in_frames y) start bytes (v_quota v - v_used v) (free_frames fs) of
                (frames, used, n) \<Rightarrow>
                  let fs1 = (upd_vol (in_vol x) (\<lambda>v. v\<lparr>v_used := v_used v + used\<rparr>) fs)\<lparr>free_frames := free_frames fs - used\<rparr>
                  in if n = 0 \<and> bytes \<noteq> [] then (Inl TNoSpace, upd_inode i (\<lambda>_. y) fs1)
                     else
                       let fs2 = upd_inode i (\<lambda>_. y\<lparr>in_frames := frames, in_size := max (in_size x) (start + n)\<rparr>) fs1
                       in (Inr (n, start + n), if in_linked x then changedLocked (in_vol x) fs2 else fs2))"

text \<open>\<open>truncateLocked\<close>: whole pages past the end go, and the tail of the last one is zeroed.\<close>

definition truncateLocked :: "ptr \<Rightarrow> int \<Rightarrow> tmpfs \<Rightarrow> tmpfs" where
  "truncateLocked i length' fs =
     (let x = inode_at fs i
      in if length' < in_size x then
           let keep = nat ((length' + PAGE_SIZE - 1) div PAGE_SIZE);
               freed = int (length (filter (\<lambda>f. f \<noteq> None) (drop keep (in_frames x))));
               kept = take keep (in_frames x) @ map (\<lambda>_. None) (drop keep (in_frames x));
               inner = length' mod PAGE_SIZE;
               page = length' div PAGE_SIZE;
               frames = (if inner \<noteq> 0 then
                           case slot kept page of
                             Some (Some f) \<Rightarrow> set_slot page (Some (take (nat inner) f)) kept
                           | _ \<Rightarrow> kept
                         else kept)
           in upd_inode i (\<lambda>x. x\<lparr>in_frames := frames, in_size := length'\<rparr>)
                ((upd_vol (in_vol x) (\<lambda>v. v\<lparr>v_used := v_used v - freed\<rparr>) fs)\<lparr>free_frames := free_frames fs + freed\<rparr>)
         else upd_inode i (\<lambda>x. x\<lparr>in_size := length'\<rparr>) fs)"

definition tmp_truncate :: "ptr \<Rightarrow> int \<Rightarrow> tmpfs \<Rightarrow> (tmp_error + unit) \<times> tmpfs" where
  "tmp_truncate i length' fs =
     (let x = inode_at fs i
      in if in_dir x then (Inl TIsDirectory, fs)
         else if length' > MAX_FILE_SIZE then (Inl TFileTooBig, fs)
         else if length' < in_size x \<and> in_seals x AND SEAL_SHRINK \<noteq> 0 then (Inl TSealed, fs)
         else if length' < in_size x \<and> in_mappings x > 0 then (Inl TBusy, fs)
         else if length' > in_size x \<and> in_seals x AND SEAL_GROW \<noteq> 0 then (Inl TSealed, fs)
         else
           let fs1 = truncateLocked i length' fs
           in (Inr (), if in_linked x then changedLocked (in_vol x) fs1 else fs1))"

section \<open>Handles\<close>

text \<open>Freeing an inode nothing refers to any more.\<close>

definition reapLocked :: "ptr \<Rightarrow> tmpfs \<Rightarrow> tmpfs" where
  "reapLocked i fs =
     (let x = inode_at fs i
      in if in_refs x \<noteq> 0 \<or> in_linked x \<or> i = v_root (vol_of (in_vol x) fs) then fs
         else let fs1 = truncateLocked i 0 fs in fs1\<lparr>inodes := set_slot i None (inodes fs1)\<rparr>)"

definition tmp_retain :: "ptr \<Rightarrow> tmpfs \<Rightarrow> tmpfs" where
  "tmp_retain i = upd_inode i (\<lambda>x. x\<lparr>in_refs := in_refs x + 1\<rparr>)"

definition tmp_release :: "ptr \<Rightarrow> tmpfs \<Rightarrow> tmpfs" where
  "tmp_release i fs = reapLocked i (upd_inode i (\<lambda>x. x\<lparr>in_refs := in_refs x - 1\<rparr>) fs)"

section \<open>Paths\<close>

text \<open>\<open>std.mem.tokenizeScalar\<close> at slashes: the parts that are not empty.\<close>

fun token_parts :: "string \<Rightarrow> string \<Rightarrow> string list" where
  "token_parts part [] = [rev part]"
| "token_parts part (c # cs) = (if c = CHR ''/'' then rev part # token_parts [] cs else token_parts (c # part) cs)"

definition tokens :: "string \<Rightarrow> string list" where
  "tokens path = filter (\<lambda>p. p \<noteq> []) (token_parts [] path)"

definition childLocked :: "tmpfs \<Rightarrow> ptr \<Rightarrow> string \<Rightarrow> ptr option" where
  "childLocked fs dir name = find (\<lambda>c. in_name (inode_at fs c) = name) (in_children (inode_at fs dir))"

fun walk_from :: "tmpfs \<Rightarrow> ptr \<Rightarrow> string list \<Rightarrow> tmp_error + ptr" where
  "walk_from fs node [] = Inr node"
| "walk_from fs node (component # rest) =
     (if \<not> in_dir (inode_at fs node) then Inl TNotDirectory
      else case childLocked fs node component of None \<Rightarrow> Inl TNotFound | Some c \<Rightarrow> walk_from fs c rest)"

definition walkLocked :: "volname \<Rightarrow> string \<Rightarrow> tmpfs \<Rightarrow> tmp_error + ptr" where
  "walkLocked v path fs = walk_from fs (v_root (vol_of v fs)) (tokens path)"

text \<open>The parent's path and the last name, cut at the last slash.\<close>

definition split_path :: "string \<Rightarrow> tmp_error + string \<times> string" where
  "split_path path =
     (if path = [] then Inl TInvalidArgument
      else
        let name = rev (takeWhile (\<lambda>c. c \<noteq> CHR ''/'') (rev path));
            above' = rev (drop 1 (dropWhile (\<lambda>c. c \<noteq> CHR ''/'') (rev path)))
        in if length name > MAX_NAME then Inl TNameTooLong else Inr (above', name))"

definition parentLocked :: "volname \<Rightarrow> string \<Rightarrow> tmpfs \<Rightarrow> tmp_error + ptr" where
  "parentLocked v above' fs =
     (case walkLocked v above' fs of
        Inl e \<Rightarrow> Inl e
      | Inr p \<Rightarrow> if in_dir (inode_at fs p) then Inr p else Inl TNotDirectory)"

definition linkLocked :: "ptr \<Rightarrow> ptr \<Rightarrow> tmpfs \<Rightarrow> tmpfs" where
  "linkLocked parent child fs =
     upd_inode parent (\<lambda>p. p\<lparr>in_children := child # in_children p\<rparr>)
       (upd_inode child (\<lambda>c. c\<lparr>in_linked := True, in_parent := Some parent\<rparr>) fs)"

definition unlinkLocked :: "ptr \<Rightarrow> tmpfs \<Rightarrow> tmpfs" where
  "unlinkLocked child fs =
     (case in_parent (inode_at fs child) of
        None \<Rightarrow> fs
      | Some parent \<Rightarrow>
          upd_inode child (\<lambda>c. c\<lparr>in_linked := False, in_parent := None\<rparr>)
            (upd_inode parent (\<lambda>p. p\<lparr>in_children := remove1 child (in_children p)\<rparr>) fs))"

definition newInodeLocked :: "volname \<Rightarrow> bool \<Rightarrow> string \<Rightarrow> tmpfs \<Rightarrow> (tmp_error + ptr) \<times> tmpfs" where
  "newInodeLocked v dir name fs =
     (case first_free (inodes fs) 0 of
        None \<Rightarrow> (Inl TNoSpace, fs)
      | Some i \<Rightarrow>
          let following = (next_id fs + 1) mod 2 ^ 32
          in (Inr i, fs\<lparr>inodes := set_slot i (Some (no_inode\<lparr>in_dir := dir, in_id := next_id fs, in_vol := v,
                                    in_linked := True, in_name := name\<rparr>)) (inodes fs),
                        next_id := (if following < 2 then 2 else following)\<rparr>))"

section \<open>Changes of the tree\<close>

definition tmp_lookup :: "volname \<Rightarrow> string \<Rightarrow> tmpfs \<Rightarrow> (tmp_error + ptr) \<times> tmpfs" where
  "tmp_lookup v path fs =
     (case walkLocked v path fs of Inl e \<Rightarrow> (Inl e, fs) | Inr i \<Rightarrow> (Inr i, tmp_retain i fs))"

definition tmp_open :: "volname \<Rightarrow> string \<Rightarrow> bool \<Rightarrow> bool \<Rightarrow> tmpfs \<Rightarrow> (tmp_error + ptr) \<times> tmpfs" where
  "tmp_open v path create exclusive fs =
     (case walkLocked v path fs of
        Inr i \<Rightarrow> if create \<and> exclusive then (Inl TExists, fs) else (Inr i, tmp_retain i fs)
      | Inl e \<Rightarrow>
          if e \<noteq> TNotFound \<or> \<not> create then (Inl e, fs)
          else case split_path path of
            Inl e \<Rightarrow> (Inl e, fs)
          | Inr (above', name) \<Rightarrow>
              (case parentLocked v above' fs of
                 Inl e \<Rightarrow> (Inl e, fs)
               | Inr parent \<Rightarrow>
                   (case newInodeLocked v False name fs of
                      (Inl e, fs1) \<Rightarrow> (Inl e, fs1)
                    | (Inr i, fs1) \<Rightarrow>
                        (Inr i, changedLocked v (upd_inode i (\<lambda>x. x\<lparr>in_refs := 1\<rparr>) (linkLocked parent i fs1))))))"

definition tmp_mkdir :: "volname \<Rightarrow> string \<Rightarrow> tmpfs \<Rightarrow> (tmp_error + unit) \<times> tmpfs" where
  "tmp_mkdir v path fs =
     (case split_path path of
        Inl e \<Rightarrow> (Inl e, fs)
      | Inr (above', name) \<Rightarrow>
          (case parentLocked v above' fs of
             Inl e \<Rightarrow> (Inl e, fs)
           | Inr parent \<Rightarrow>
               if childLocked fs parent name \<noteq> None then (Inl TExists, fs)
               else case newInodeLocked v True name fs of
                 (Inl e, fs1) \<Rightarrow> (Inl e, fs1)
               | (Inr i, fs1) \<Rightarrow> (Inr (), changedLocked v (linkLocked parent i fs1))))"

definition tmp_remove :: "volname \<Rightarrow> string \<Rightarrow> bool \<Rightarrow> tmpfs \<Rightarrow> (tmp_error + unit) \<times> tmpfs" where
  "tmp_remove v path directory fs =
     (case split_path path of
        Inl e \<Rightarrow> (Inl e, fs)
      | Inr (above', name) \<Rightarrow>
          (case parentLocked v above' fs of
             Inl e \<Rightarrow> (Inl e, fs)
           | Inr parent \<Rightarrow>
               (case childLocked fs parent name of
                  None \<Rightarrow> (Inl TNotFound, fs)
                | Some i \<Rightarrow>
                    let x = inode_at fs i
                    in if directory \<and> \<not> in_dir x then (Inl TNotDirectory, fs)
                       else if directory \<and> in_children x \<noteq> [] then (Inl TNotEmpty, fs)
                       else if \<not> directory \<and> in_dir x then (Inl TIsDirectory, fs)
                       else (Inr (), changedLocked v (reapLocked i (unlinkLocked i fs))))))"

text \<open>Whether \<open>source\<close> is on the way from \<open>node\<close> to the root. The tree is at most as deep as there
  are inodes, so as many steps reach the root.\<close>

fun is_ancestor :: "nat \<Rightarrow> tmpfs \<Rightarrow> ptr \<Rightarrow> ptr option \<Rightarrow> bool" where
  "is_ancestor n fs source None = False"
| "is_ancestor 0 fs source (Some a) = False"
| "is_ancestor (Suc n) fs source (Some a) = (a = source \<or> is_ancestor n fs source (in_parent (inode_at fs a)))"

definition tmp_rename :: "volname \<Rightarrow> string \<Rightarrow> string \<Rightarrow> tmpfs \<Rightarrow> (tmp_error + unit) \<times> tmpfs" where
  "tmp_rename v from to fs =
     (case (split_path from, split_path to) of
        (Inl e, _) \<Rightarrow> (Inl e, fs)
      | (_, Inl e) \<Rightarrow> (Inl e, fs)
      | (Inr (from_above, from_name), Inr (to_above, to_name)) \<Rightarrow>
          (case parentLocked v from_above fs of
             Inl e \<Rightarrow> (Inl e, fs)
           | Inr source_parent \<Rightarrow>
               (case childLocked fs source_parent from_name of
                  None \<Rightarrow> (Inl TNotFound, fs)
                | Some source \<Rightarrow>
                    (case parentLocked v to_above fs of
                       Inl e \<Rightarrow> (Inl e, fs)
                     | Inr target_parent \<Rightarrow>
                         let moved = (\<lambda>fs. changedLocked v (linkLocked target_parent source
                                (upd_inode source (\<lambda>x. x\<lparr>in_name := to_name\<rparr>) (unlinkLocked source fs))))
                         in if is_ancestor (length (inodes fs)) fs source (Some target_parent) then (Inl TInvalidArgument, fs)
                            else case childLocked fs target_parent to_name of
                              None \<Rightarrow> (Inr (), moved fs)
                            | Some existing \<Rightarrow>
                                let x = inode_at fs existing; dir = in_dir (inode_at fs source)
                                in if existing = source then (Inr (), fs)
                                   else if dir \<and> \<not> in_dir x then (Inl TNotDirectory, fs)
                                   else if dir \<and> in_children x \<noteq> [] then (Inl TNotEmpty, fs)
                                   else if \<not> dir \<and> in_dir x then (Inl TIsDirectory, fs)
                                   else (Inr (), moved (reapLocked existing (unlinkLocked existing fs)))))))"

text \<open>The entries \<open>iterate\<close> visits: name, number and type (1 file, 2 directory).\<close>

definition tmp_iterate :: "ptr \<Rightarrow> tmpfs \<Rightarrow> tmp_error + (string \<times> int \<times> int) list" where
  "tmp_iterate dir fs =
     (let x = inode_at fs dir
      in if \<not> in_dir x then Inl TNotDirectory
         else Inr ((''.'', in_id x, 2) #
                   (''..'', case in_parent x of None \<Rightarrow> in_id x | Some p \<Rightarrow> in_id (inode_at fs p), 2) #
                   map (\<lambda>c. let y = inode_at fs c in (in_name y, in_id y, if in_dir y then 2 else 1)) (in_children x)))"

end
