(* ===== verification/KVfs.thy ===== *)
theory KVfs
  imports KTmpfs
begin

text \<open>
  The virtual filesystem layer (\<open>kernel/fs/vfs/vfs.zig\<close>): one namespace over the read-only root
  and the volumes \<open>/tmp\<close> and \<open>/data\<close>. The root filesystem, read from CitrusFS in the kernel, is a
  list of canonical paths and their nodes, with \<open>''''\<close> for the root directory. It is always mounted.
  The device files under \<open>/dev\<close> are not part of the model.
\<close>

section \<open>Nodes\<close>

datatype kerror =
    NotMounted | NotFound | NotDirectory | NotFile | IsDirectory | NameTooLong | TooManyOpen | BadFd
  | IoError | ReadOnly | Exists | NotEmpty | NoSpace | CrossDevice | InvalidArgument | FileTooBig | Busy
  | WouldBlock | BrokenPipe | Interrupted | NotSeekable | OutOfMemory | MessageTooLong | NotPermitted | NoDevice

record node =
  nd_ino :: int
  nd_data :: "u8 list"
  nd_dir :: bool

datatype vnode = Citrus node | TmpNode ptr

record fsys =
  disk :: "(string \<times> node) list"
  tmp :: tmpfs

fun isDir :: "vnode \<Rightarrow> fsys \<Rightarrow> bool" where
  "isDir (Citrus n) fs = nd_dir n"
| "isDir (TmpNode i) fs = in_dir (inode_at (tmp fs) i)"

fun node_size :: "vnode \<Rightarrow> fsys \<Rightarrow> int" where
  "node_size (Citrus n) fs = int (length (nd_data n))"
| "node_size (TmpNode i) fs = in_size (inode_at (tmp fs) i)"

fun node_writable :: "vnode \<Rightarrow> bool" where
  "node_writable (Citrus n) = False"
| "node_writable (TmpNode i) = True"

text \<open>What record locks are keyed by: an inode's address, which has its top bits set, or the number
  of an inode on the disk.\<close>

fun keyOf :: "vnode \<Rightarrow> int" where
  "keyOf (TmpNode i) = 2 ^ 63 + i"
| "keyOf (Citrus n) = 2 ^ 40 + nd_ino n"

fun tmpError :: "tmp_error \<Rightarrow> kerror" where
  "tmpError TNotFound = NotFound"
| "tmpError TNotDirectory = NotDirectory"
| "tmpError TIsDirectory = IsDirectory"
| "tmpError TExists = Exists"
| "tmpError TNotEmpty = NotEmpty"
| "tmpError TNoSpace = NoSpace"
| "tmpError TNameTooLong = NameTooLong"
| "tmpError TInvalidArgument = InvalidArgument"
| "tmpError TFileTooBig = FileTooBig"
| "tmpError TSealed = NotPermitted"
| "tmpError TBusy = Busy"

text \<open>A result of the tmpfs as a result of the VFS.\<close>

definition lift_tmp :: "('a \<Rightarrow> 'b) \<Rightarrow> fsys \<Rightarrow> (tmp_error + 'a) \<times> tmpfs \<Rightarrow> (kerror + 'b) \<times> fsys" where
  "lift_tmp f fs r = (case r of (Inl e, t) \<Rightarrow> (Inl (tmpError e), fs\<lparr>tmp := t\<rparr>) | (Inr x, t) \<Rightarrow> (Inr (f x), fs\<lparr>tmp := t\<rparr>))"

section \<open>Paths\<close>

definition MAX_PATH :: nat where "MAX_PATH = 256"

lemma longer_than_path [code_unfold]:
  "MAX_PATH < length xs \<longleftrightarrow> exceeds xs 256"
  "MAX_PATH < length xs + 1 + length ys \<longleftrightarrow> exceeds (xs @ ys) 255"
  by (auto simp: MAX_PATH_def exceeds_length)

text \<open>The loop of \<open>normalize\<close> over the components, with what is in \<open>out\<close>.\<close>

fun normal_parts :: "string list \<Rightarrow> string \<Rightarrow> kerror + string" where
  "normal_parts [] out = Inr out"
| "normal_parts (component # rest) out =
     (if component = ''.'' then normal_parts rest out
      else if component = ''..'' then normal_parts rest (rev (drop 1 (dropWhile (\<lambda>c. c \<noteq> CHR ''/'') (rev out))))
      else if length out + 1 + length component > MAX_PATH then Inl NameTooLong
      else normal_parts rest (out @ CHR ''/'' # component))"

definition normalize :: "string \<Rightarrow> kerror + string" where
  "normalize path =
     (if path = [] \<or> hd path \<noteq> CHR ''/'' then Inl NotFound
      else case normal_parts (tokens path) [] of
        Inl e \<Rightarrow> Inl e
      | Inr out \<Rightarrow> Inr (if out = [] then ''/'' else out))"

text \<open>The part of a path below a mount point.\<close>

definition under_mount :: "string \<Rightarrow> string \<Rightarrow> string option" where
  "under_mount path mount =
     (let rest = drop (length mount) path
      in if take (length mount) path \<noteq> mount then None
         else if rest = [] then Some []
         else if hd rest \<noteq> CHR ''/'' then None
         else Some (tl rest))"

definition tmpRelative :: "string \<Rightarrow> fsys \<Rightarrow> (volname \<times> string) option" where
  "tmpRelative path fs =
     (case under_mount path ''/tmp'' of
        Some rel \<Rightarrow> Some (TmpVol, rel)
      | None \<Rightarrow> if v_persistent (data_vol (tmp fs)) then map_option (\<lambda>rel. (DataVol, rel)) (under_mount path ''/data'') else None)"

fun citrus_walk :: "(string \<times> node) list \<Rightarrow> string \<Rightarrow> node \<Rightarrow> string list \<Rightarrow> kerror + node" where
  "citrus_walk files prefix n [] = Inr n"
| "citrus_walk files prefix n (component # rest) =
     (if \<not> nd_dir n then Inl NotDirectory
      else let child = prefix @ CHR ''/'' # component
           in case map_of files child of None \<Rightarrow> Inl NotFound | Some m \<Rightarrow> citrus_walk files child m rest)"

definition resolveCitrus :: "string \<Rightarrow> fsys \<Rightarrow> kerror + node" where
  "resolveCitrus path fs =
     (case map_of (disk fs) [] of
        None \<Rightarrow> Inl IoError
      | Some start \<Rightarrow> citrus_walk (disk fs) [] start (tokens path))"

definition resolve :: "string \<Rightarrow> fsys \<Rightarrow> (kerror + vnode) \<times> fsys" where
  "resolve path fs =
     (case normalize path of
        Inl e \<Rightarrow> (Inl e, fs)
      | Inr canonical \<Rightarrow>
          (case tmpRelative canonical fs of
             Some (v, rel) \<Rightarrow> lift_tmp TmpNode fs (tmp_lookup v rel (tmp fs))
           | None \<Rightarrow> (case resolveCitrus canonical fs of Inl e \<Rightarrow> (Inl e, fs) | Inr n \<Rightarrow> (Inr (Citrus n), fs))))"

fun vfs_release :: "vnode \<Rightarrow> fsys \<Rightarrow> fsys" where
  "vfs_release (Citrus n) fs = fs"
| "vfs_release (TmpNode i) fs = fs\<lparr>tmp := tmp_release i (tmp fs)\<rparr>"

section \<open>Reading and writing\<close>

definition readAt :: "vnode \<Rightarrow> int \<Rightarrow> int \<Rightarrow> fsys \<Rightarrow> kerror + u8 list" where
  "readAt n off room fs =
     (if isDir n fs then Inl NotFile
      else case n of
        Citrus c \<Rightarrow> Inr (take (nat room) (drop (nat off) (nd_data c)))
      | TmpNode i \<Rightarrow> (case tmp_read i off room (tmp fs) of Inl e \<Rightarrow> Inl (tmpError e) | Inr bytes \<Rightarrow> Inr bytes))"

definition writeNode :: "vnode \<Rightarrow> int option \<Rightarrow> u8 list \<Rightarrow> fsys \<Rightarrow> (kerror + int \<times> int) \<times> fsys" where
  "writeNode n off bytes fs =
     (case n of
        Citrus c \<Rightarrow> (Inl ReadOnly, fs)
      | TmpNode i \<Rightarrow> lift_tmp (\<lambda>w. w) fs (tmp_write i off bytes (tmp fs)))"

definition truncateNode :: "vnode \<Rightarrow> int \<Rightarrow> fsys \<Rightarrow> (kerror + unit) \<times> fsys" where
  "truncateNode n length' fs =
     (case n of
        Citrus c \<Rightarrow> (Inl ReadOnly, fs)
      | TmpNode i \<Rightarrow> lift_tmp (\<lambda>u. u) fs (tmp_truncate i length' (tmp fs)))"

section \<open>Changes of the namespace\<close>

definition readOnlyChange :: "string \<Rightarrow> bool \<Rightarrow> fsys \<Rightarrow> kerror" where
  "readOnlyChange canonical exists_is_error fs =
     (case resolveCitrus canonical fs of
        Inl e \<Rightarrow> if e = NotFound then ReadOnly else e
      | Inr n \<Rightarrow> if exists_is_error then Exists else ReadOnly)"

definition vfs_mkdir :: "string \<Rightarrow> fsys \<Rightarrow> (kerror + unit) \<times> fsys" where
  "vfs_mkdir path fs =
     (case normalize path of
        Inl e \<Rightarrow> (Inl e, fs)
      | Inr canonical \<Rightarrow>
          (case tmpRelative canonical fs of
             None \<Rightarrow> (Inl (readOnlyChange canonical True fs), fs)
           | Some (v, rel) \<Rightarrow> if rel = [] then (Inl Exists, fs) else lift_tmp (\<lambda>u. u) fs (tmp_mkdir v rel (tmp fs))))"

definition vfs_remove :: "string \<Rightarrow> bool \<Rightarrow> fsys \<Rightarrow> (kerror + unit) \<times> fsys" where
  "vfs_remove path directory fs =
     (case normalize path of
        Inl e \<Rightarrow> (Inl e, fs)
      | Inr canonical \<Rightarrow>
          (case tmpRelative canonical fs of
             None \<Rightarrow> (Inl (readOnlyChange canonical False fs), fs)
           | Some (v, rel) \<Rightarrow>
               if rel = [] then (Inl Busy, fs) else lift_tmp (\<lambda>u. u) fs (tmp_remove v rel directory (tmp fs))))"

definition vfs_rename :: "string \<Rightarrow> string \<Rightarrow> fsys \<Rightarrow> (kerror + unit) \<times> fsys" where
  "vfs_rename from to fs =
     (case (normalize from, normalize to) of
        (Inl e, _) \<Rightarrow> (Inl e, fs)
      | (_, Inl e) \<Rightarrow> (Inl e, fs)
      | (Inr source, Inr target) \<Rightarrow>
          (case (tmpRelative source fs, tmpRelative target fs) of
             (None, None) \<Rightarrow> (Inl (readOnlyChange source False fs), fs)
           | (Some (v, rel), Some (v', rel')) \<Rightarrow>
               if v \<noteq> v' then (Inl CrossDevice, fs)
               else if rel = [] \<or> rel' = [] then (Inl Busy, fs)
               else lift_tmp (\<lambda>u. u) fs (tmp_rename v rel rel' (tmp fs))
           | _ \<Rightarrow> (Inl CrossDevice, fs)))"

section \<open>Opening\<close>

text \<open>The flags of \<open>open\<close>, one field for each bit of \<open>OPEN_KNOWN\<close>.\<close>

record open_flags =
  o_read :: bool
  o_write :: bool
  o_create :: bool
  o_exclusive :: bool
  o_truncate :: bool
  o_append :: bool
  o_directory :: bool
  o_nonblock :: bool
  o_cloexec :: bool

definition O_RDONLY :: open_flags where
  "O_RDONLY = \<lparr>o_read = True, o_write = False, o_create = False, o_exclusive = False, o_truncate = False,
     o_append = False, o_directory = False, o_nonblock = False, o_cloexec = False\<rparr>"

text \<open>The checks of \<open>openNode\<close> on a node found or created, dropping it again when one fails.\<close>

definition check_open :: "vnode \<Rightarrow> open_flags \<Rightarrow> fsys \<Rightarrow> (kerror + vnode) \<times> fsys" where
  "check_open n fl fs =
     (let changes = o_write fl \<or> o_truncate fl \<or> o_append fl
      in if isDir n fs \<and> changes then (Inl IsDirectory, vfs_release n fs)
         else if \<not> isDir n fs \<and> o_directory fl then (Inl NotDirectory, vfs_release n fs)
         else if changes \<and> \<not> node_writable n then (Inl ReadOnly, vfs_release n fs)
         else case n of
           TmpNode i \<Rightarrow>
             if o_truncate fl \<and> o_write fl then
               (case lift_tmp (\<lambda>_. n) fs (tmp_truncate i 0 (tmp fs)) of
                  (Inl e, fs1) \<Rightarrow> (Inl e, vfs_release n fs1)
                | (Inr m, fs1) \<Rightarrow> (Inr m, fs1))
             else (Inr n, fs)
         | Citrus c \<Rightarrow> (Inr n, fs))"

definition openNode :: "string \<Rightarrow> open_flags \<Rightarrow> fsys \<Rightarrow> (kerror + vnode) \<times> fsys" where
  "openNode path fl fs =
     (case normalize path of
        Inl e \<Rightarrow> (Inl e, fs)
      | Inr canonical \<Rightarrow>
          (case tmpRelative canonical fs of
             Some (v, rel) \<Rightarrow>
               (case lift_tmp TmpNode fs (tmp_open v rel (o_create fl) (o_exclusive fl) (tmp fs)) of
                  (Inl e, fs1) \<Rightarrow> (Inl e, fs1)
                | (Inr n, fs1) \<Rightarrow> check_open n fl fs1)
           | None \<Rightarrow>
               (case resolveCitrus canonical fs of
                  Inl e \<Rightarrow> (Inl (if e = NotFound \<and> o_create fl then ReadOnly else e), fs)
                | Inr n \<Rightarrow>
                    if o_create fl \<and> o_exclusive fl then (Inl Exists, fs)
                    else check_open (Citrus n) fl fs)))"

end
