(* ===== verification/KObject.thy ===== *)
theory KObject
  imports KPipe KSocket KLock KVfs
begin

text \<open>
  Open file descriptions and their objects (\<open>kernel/fs/fd.zig\<close>), with eventfds
  (\<open>kernel/ipc/eventfd.zig\<close>) and readiness sources (\<open>kernel/ipc/readiness.zig\<close>).

  Spinlocks and the scheduler's wait channels do not appear: an operation under its lock is one
  step, and a call that would sleep says so and leaves the object as it is. Objects of kinds that
  are not modelled (internet sockets, device files) never occur.
\<close>

section \<open>Types\<close>

record eventfd =
  ev_count :: int
  ev_semaphore :: bool

record node_file =
  nf_node :: vnode
  nf_offset :: int
  nf_path :: "string option"

datatype fd_object =
    NodeFile node_file | PipeRead ptr | PipeWrite ptr | EventObj ptr | EpollObj ptr | SocketObj ptr bool | Console

text \<open>The status bits a description can carry.\<close>

record status =
  st_read :: bool
  st_write :: bool
  st_append :: bool
  st_nonblock :: bool

record description =
  refs :: int
  dstatus :: status
  dobject :: fd_object

text \<open>The readiness source of an object's end: the read (\<open>False\<close>) or write end of a pipe, an eventfd, or
  the first (\<open>False\<close>) or second end of a socket pair.\<close>

datatype ready_source = PipeSource ptr bool | EventSource ptr | SocketSource ptr bool

record interest =
  i_number :: int
  i_desc :: ptr
  i_source :: "ready_source option"
  i_events :: u32
  i_data :: int
  i_pending :: bool
  i_disabled :: bool

record entry =
  e_desc :: "ptr option"
  e_cloexec :: bool

text \<open>A program in the scheduler's table: its number, its parent's (0 for none), and how it ended.\<close>

record task =
  t_pid :: int
  t_parent :: int
  t_exit :: "int option"

record kernel =
  descriptions :: "description option list"
  pipes :: "pipe option list"
  eventfds :: "eventfd option list"
  epolls :: "interest list option list"
  sockets :: "socket_pair option list"
  table :: "entry list"
  fsys :: fsys
  rlocks :: locktab
  owner_pid :: int
  cwd :: string
  tasks :: "task list"
  next_pid :: int

text \<open>\<open>table\<close>, \<open>owner_pid\<close> and \<open>cwd\<close> are those of the process that runs; \<open>tasks\<close> are the programs
  alive or not yet collected, besides the first.\<close>

text \<open>How a call ends: with a result, an error, or not yet.\<close>

datatype 'a outcome = Ret 'a | Err kerror | Sleep

section \<open>Readiness\<close>

definition map_interests :: "(interest \<Rightarrow> interest) \<Rightarrow> kernel \<Rightarrow> kernel" where
  "map_interests f k = k\<lparr>epolls := map (map_option (map f)) (epolls k)\<rparr>"

definition notify :: "ready_source \<Rightarrow> kernel \<Rightarrow> kernel" where
  "notify s = map_interests (\<lambda>i. if i_source i = Some s then i\<lparr>i_pending := True\<rparr> else i)"

definition detachAll :: "ready_source \<Rightarrow> kernel \<Rightarrow> kernel" where
  "detachAll s = map_interests (\<lambda>i. if i_source i = Some s then i\<lparr>i_source := None, i_pending := True\<rparr> else i)"

section \<open>eventfd\<close>

definition EVENT_MAX :: int where "EVENT_MAX = 2 ^ 64 - 2"

text \<open>Little-endian bytes of a number, and back.\<close>

fun le_bytes :: "nat \<Rightarrow> int \<Rightarrow> u8 list" where
  "le_bytes 0 v = []"
| "le_bytes (Suc n) v = of_int (v mod 256) # le_bytes n (v div 256)"

fun of_le :: "u8 list \<Rightarrow> int" where
  "of_le [] = 0"
| "of_le (b # bs) = uint b + 256 * of_le bs"

definition eventfd_read :: "int \<Rightarrow> bool \<Rightarrow> eventfd \<Rightarrow> u8 list outcome \<times> eventfd" where
  "eventfd_read room nonblock e =
     (if room < 8 then (Err InvalidArgument, e)
      else if ev_count e > 0 then
        let v = (if ev_semaphore e then 1 else ev_count e)
        in (Ret (le_bytes 8 v), e\<lparr>ev_count := ev_count e - v\<rparr>)
      else if nonblock then (Err WouldBlock, e)
      else (Sleep, e))"

definition eventfd_write :: "u8 list \<Rightarrow> bool \<Rightarrow> eventfd \<Rightarrow> int outcome \<times> eventfd" where
  "eventfd_write bytes nonblock e =
     (if length bytes < 8 then (Err InvalidArgument, e)
      else
        let v = of_le (take 8 bytes)
        in if v = 2 ^ 64 - 1 then (Err InvalidArgument, e)
           else if EVENT_MAX - ev_count e \<ge> v then (Ret 8, e\<lparr>ev_count := ev_count e + v\<rparr>)
           else if nonblock then (Err WouldBlock, e)
           else (Sleep, e))"

definition eventfd_poll :: "eventfd \<Rightarrow> bool \<times> bool" where
  "eventfd_poll e = (ev_count e > 0, ev_count e < EVENT_MAX)"

section \<open>Descriptions\<close>

definition upd_desc :: "ptr \<Rightarrow> (description \<Rightarrow> description) \<Rightarrow> kernel \<Rightarrow> kernel" where
  "upd_desc d f k =
     (case deref (descriptions k) d of
        None \<Rightarrow> k
      | Some x \<Rightarrow> k\<lparr>descriptions := set_slot d (Some (f x)) (descriptions k)\<rparr>)"

definition desc_create :: "fd_object \<Rightarrow> status \<Rightarrow> kernel \<Rightarrow> ptr option \<times> kernel" where
  "desc_create obj st k =
     (case first_free (descriptions k) 0 of
        None \<Rightarrow> (None, k)
      | Some d \<Rightarrow>
          (Some d, k\<lparr>descriptions := set_slot d (Some \<lparr>refs = 1, dstatus = st, dobject = obj\<rparr>) (descriptions k)\<rparr>))"

definition retain :: "ptr \<Rightarrow> kernel \<Rightarrow> kernel" where
  "retain d = upd_desc d (\<lambda>x. x\<lparr>refs := refs x + 1\<rparr>)"

definition pipe_changed :: "ptr \<Rightarrow> kernel \<Rightarrow> kernel" where
  "pipe_changed p k = notify (PipeSource p True) (notify (PipeSource p False) k)"

definition close_pipe :: "ptr \<Rightarrow> bool \<Rightarrow> kernel \<Rightarrow> kernel" where
  "close_pipe p writer k =
     (let k1 = detachAll (PipeSource p writer) k
      in case deref (pipes k1) p of
           None \<Rightarrow> k1
         | Some x \<Rightarrow> pipe_changed p (k1\<lparr>pipes := set_slot p (closeEnd writer x) (pipes k1)\<rparr>))"

definition socket_changed :: "ptr \<Rightarrow> kernel \<Rightarrow> kernel" where
  "socket_changed p k = notify (SocketSource p True) (notify (SocketSource p False) k)"

definition set_socket :: "ptr \<Rightarrow> socket_pair option \<Rightarrow> kernel \<Rightarrow> kernel" where
  "set_socket p x k = k\<lparr>sockets := set_slot p x (sockets k)\<rparr>"

text \<open>Closing the end of a socket leaves the descriptions in flight to it, which are to be released
  before the other end is told.\<close>

definition close_socket :: "ptr \<Rightarrow> bool \<Rightarrow> kernel \<Rightarrow> ptr list \<times> kernel" where
  "close_socket p e k =
     (let k1 = detachAll (SocketSource p e) k
      in case deref (sockets k1) p of
           None \<Rightarrow> ([], k1)
         | Some x \<Rightarrow> (case sock_close e x of (rights, x') \<Rightarrow> (rights, set_socket p x' k1)))"

text \<open>Closing the object of a description whose last reference goes.\<close>

fun close_object :: "fd_object \<Rightarrow> kernel \<Rightarrow> ptr list \<times> kernel" where
  "close_object (NodeFile f) k = ([], k\<lparr>fsys := vfs_release (nf_node f) (fsys k)\<rparr>)"
| "close_object Console k = ([], k)"
| "close_object (PipeRead p) k = ([], close_pipe p False k)"
| "close_object (PipeWrite p) k = ([], close_pipe p True k)"
| "close_object (EventObj e) k = (let k1 = detachAll (EventSource e) k in ([], k1\<lparr>eventfds := set_slot e None (eventfds k1)\<rparr>))"
| "close_object (EpollObj ep) k = ([], k\<lparr>epolls := set_slot ep None (epolls k)\<rparr>)"
| "close_object (SocketObj p e) k = close_socket p e k"

text \<open>The locks of an open file description go with it.\<close>

definition description_locks :: "ptr \<Rightarrow> fd_object \<Rightarrow> kernel \<Rightarrow> kernel" where
  "description_locks d ob k =
     (case ob of NodeFile f \<Rightarrow> k\<lparr>rlocks := releaseAll (Description d) (rlocks k)\<rparr> | _ \<Rightarrow> k)"

text \<open>Dropping a reference may close a socket that has descriptions in flight, whose last references then
  go with it, and so on: the calls of \<open>release\<close> that are still to come or to end are a stack.\<close>

datatype closing = Release ptr | Finish ptr fd_object

fun release_step :: "closing \<Rightarrow> kernel \<Rightarrow> closing list \<times> kernel" where
  "release_step (Release d) k =
     (case deref (descriptions k) d of
        None \<Rightarrow> ([], k)
      | Some x \<Rightarrow>
          if refs x \<noteq> 1 then ([], upd_desc d (\<lambda>x. x\<lparr>refs := refs x - 1\<rparr>) k)
          else case close_object (dobject x) (description_locks d (dobject x) k) of
            (rights, k1) \<Rightarrow> (map Release rights @ [Finish d (dobject x)], k1))"
| "release_step (Finish d ob) k =
     (let k1 = (case ob of SocketObj p e \<Rightarrow> socket_changed p k | _ \<Rightarrow> k)
      in ([], k1\<lparr>descriptions := set_slot d None (descriptions k1)\<rparr>))"

text \<open>Every close takes the descriptions it leaves out of a queue, so this ends.\<close>

definition pair_rights :: "socket_pair option \<Rightarrow> nat" where
  "pair_rights s = (case s of None \<Rightarrow> 0
     | Some x \<Rightarrow> length (concat (map sg_rights (q_segments (se_queue (sk_first x))))) +
         length (concat (map sg_rights (q_segments (se_queue (sk_second x))))))"

definition in_flight :: "kernel \<Rightarrow> nat" where
  "in_flight k = sum_list (map pair_rights (sockets k))"

fun closing_weight :: "closing \<Rightarrow> nat" where
  "closing_weight (Release d) = 2"
| "closing_weight (Finish d ob) = 1"

definition closing_size :: "closing list \<Rightarrow> nat" where
  "closing_size cs = sum_list (map closing_weight cs)"

lemma notify_sockets [simp]: "sockets (notify s k) = sockets k" "sockets (detachAll s k) = sockets k"
  by (simp_all add: notify_def detachAll_def map_interests_def)

lemma upd_desc_sockets [simp]: "sockets (upd_desc d f k) = sockets k"
  by (simp add: upd_desc_def split: option.split)

lemma close_pipe_sockets [simp]: "sockets (close_pipe p w k) = sockets k"
  by (simp add: close_pipe_def pipe_changed_def Let_def split: option.split)

lemma socket_changed_sockets [simp]: "sockets (socket_changed p k) = sockets k"
  by (simp add: socket_changed_def)

lemma description_locks_sockets [simp]: "sockets (description_locks d ob k) = sockets k"
  by (simp add: description_locks_def split: fd_object.split)

lemma rights_set:
  "deref xs p = Some x \<Longrightarrow>
    sum_list (map pair_rights (set_slot p y xs)) + pair_rights (Some x) = sum_list (map pair_rights xs) + pair_rights y"
  by (induction xs arbitrary: p) (auto simp: deref_Some split: if_splits)

lemma close_rights: "sock_close e x = (rights, y) \<Longrightarrow> pair_rights y + length rights \<le> pair_rights (Some x)"
  by (cases e) (auto simp: sock_close_def Let_def pair_rights_def sk_end_def upd_end_def no_segments_def split: if_splits)

lemma close_in_flight: "close_object ob k = (rights, k') \<Longrightarrow> in_flight k' + length rights \<le> in_flight k"
proof (cases ob)
  case (SocketObj p e)
  assume c: "close_object ob k = (rights, k')"
  show ?thesis
  proof (cases "deref (sockets k) p")
    case None
    then show ?thesis using c SocketObj by (auto simp: close_socket_def Let_def in_flight_def)
  next
    case (Some x)
    obtain rs y where y: "sock_close e x = (rs, y)" by (metis prod.exhaust)
    then show ?thesis
      using c SocketObj Some rights_set [OF Some, of y] close_rights [OF y]
      by (auto simp: close_socket_def Let_def in_flight_def set_socket_def)
  qed
qed (auto simp: in_flight_def Let_def)

lemma release_step_shrinks:
  "release_step c k = (cs, k') \<Longrightarrow> 3 * in_flight k' + closing_size cs < 3 * in_flight k + closing_weight c"
proof (cases c)
  case (Release d)
  assume "release_step c k = (cs, k')"
  moreover have "in_flight (description_locks d ob k) = in_flight k" for ob by (simp add: in_flight_def)
  moreover have "closing_size (map Release rs) = 2 * length rs" for rs by (induction rs) (simp_all add: closing_size_def)
  ultimately show ?thesis
    using Release close_in_flight [of _ "description_locks d _ k"]
    by (fastforce simp: closing_size_def in_flight_def split: option.splits if_splits prod.splits)
next
  case (Finish d ob)
  assume "release_step c k = (cs, k')"
  then show ?thesis using Finish by (auto simp: Let_def in_flight_def closing_size_def split: fd_object.splits)
qed

function release_work :: "closing list \<Rightarrow> kernel \<Rightarrow> kernel" where
  "release_work [] k = k"
| "release_work (c # cs) k = (case release_step c k of (more', k') \<Rightarrow> release_work (more' @ cs) k')"
  by pat_completeness auto
termination
  by (relation "measure (\<lambda>(cs, k). 3 * in_flight k + closing_size cs)")
    (auto simp: closing_size_def dest!: sym [of "(_, _)"] release_step_shrinks)

definition release :: "ptr \<Rightarrow> kernel \<Rightarrow> kernel" where
  "release d = release_work [Release d]"

text \<open>The readiness source of a description: files, the console and epoll instances have none.\<close>

fun object_source :: "fd_object \<Rightarrow> ready_source option" where
  "object_source (NodeFile f) = None"
| "object_source (EpollObj ep) = None"
| "object_source Console = None"
| "object_source (PipeRead p) = Some (PipeSource p False)"
| "object_source (PipeWrite p) = Some (PipeSource p True)"
| "object_source (EventObj e) = Some (EventSource e)"
| "object_source (SocketObj p e) = Some (SocketSource p e)"

section \<open>The descriptor table\<close>

definition MAX_OPEN :: int where "MAX_OPEN = 256"

definition bad_index :: "int \<Rightarrow> bool" where
  "bad_index fd \<longleftrightarrow> fd < 0 \<or> fd \<ge> MAX_OPEN"

definition entry_of :: "kernel \<Rightarrow> int \<Rightarrow> entry" where
  "entry_of k fd = (case slot (table k) fd of Some e \<Rightarrow> e | None \<Rightarrow> \<lparr>e_desc = None, e_cloexec = False\<rparr>)"

text \<open>The lowest free entry at or above \<open>start\<close>.\<close>

fun free_entry :: "entry list \<Rightarrow> int \<Rightarrow> int \<Rightarrow> int option" where
  "free_entry [] start i = None"
| "free_entry (e # es) start i = (if i \<ge> start \<and> e_desc e = None then Some i else free_entry es start (i + 1))"

definition install :: "ptr \<Rightarrow> int \<Rightarrow> bool \<Rightarrow> kernel \<Rightarrow> (kerror + int) \<times> kernel" where
  "install d minimum cloexec k =
     (let start = max minimum 0
      in if start \<ge> MAX_OPEN then (Inl InvalidArgument, k)
         else case free_entry (table k) start 0 of
           None \<Rightarrow> (Inl TooManyOpen, k)
         | Some i \<Rightarrow> (Inr i, k\<lparr>table := set_slot i \<lparr>e_desc = Some d, e_cloexec = cloexec\<rparr> (table k)\<rparr>))"

text \<open>POSIX: closing any descriptor for a file drops the process's record locks on it.\<close>

definition closedLocks :: "ptr \<Rightarrow> kernel \<Rightarrow> kernel" where
  "closedLocks d k =
     (if owner_pid k = 0 then k
      else case map_option dobject (deref (descriptions k) d) of
        Some (NodeFile f) \<Rightarrow> k\<lparr>rlocks := releaseFile (keyOf (nf_node f)) (Process (owner_pid k)) (rlocks k)\<rparr>
      | _ \<Rightarrow> k)"

definition installAt :: "ptr \<Rightarrow> int \<Rightarrow> bool \<Rightarrow> kernel \<Rightarrow> (kerror + unit) \<times> kernel" where
  "installAt d fd cloexec k =
     (if bad_index fd then (Inl BadFd, release d k)
      else
        let old = e_desc (entry_of k fd);
            k1 = k\<lparr>table := set_slot fd \<lparr>e_desc = Some d, e_cloexec = cloexec\<rparr> (table k)\<rparr>
        in (Inr (), case old of None \<Rightarrow> k1 | Some o' \<Rightarrow> release o' (closedLocks o' k1)))"

definition lookup :: "int \<Rightarrow> kernel \<Rightarrow> ptr option \<times> kernel" where
  "lookup fd k =
     (if bad_index fd then (None, k)
      else case e_desc (entry_of k fd) of None \<Rightarrow> (None, k) | Some d \<Rightarrow> (Some d, retain d k))"

definition fd_close :: "int \<Rightarrow> kernel \<Rightarrow> (kerror + unit) \<times> kernel" where
  "fd_close fd k =
     (if bad_index fd then (Inl BadFd, k)
      else case e_desc (entry_of k fd) of
        None \<Rightarrow> (Inl BadFd, k)
      | Some d \<Rightarrow> (Inr (), release d (closedLocks d (k\<lparr>table := set_slot fd \<lparr>e_desc = None, e_cloexec = False\<rparr> (table k)\<rparr>))))"

text \<open>Installing a new description at the lowest free number, dropping it when the table is full.\<close>

definition install_new :: "ptr \<Rightarrow> int \<Rightarrow> bool \<Rightarrow> kernel \<Rightarrow> (kerror + int) \<times> kernel" where
  "install_new d minimum cloexec k =
     (case install d minimum cloexec k of
        (Inl e, k1) \<Rightarrow> (Inl e, release d k1)
      | (Inr n, k1) \<Rightarrow> (Inr n, k1))"

definition fd_dup :: "int \<Rightarrow> int \<Rightarrow> bool \<Rightarrow> kernel \<Rightarrow> (kerror + int) \<times> kernel" where
  "fd_dup old minimum cloexec k =
     (case lookup old k of
        (None, k1) \<Rightarrow> (Inl BadFd, k1)
      | (Some d, k1) \<Rightarrow> install_new d minimum cloexec k1)"

definition fd_dupTo :: "int \<Rightarrow> int \<Rightarrow> bool \<Rightarrow> kernel \<Rightarrow> (kerror + int) \<times> kernel" where
  "fd_dupTo old new cloexec k =
     (case lookup old k of
        (None, k1) \<Rightarrow> (Inl BadFd, k1)
      | (Some d, k1) \<Rightarrow>
          if old = new then (Inr new, release d k1)
          else case installAt d new cloexec k1 of
            (Inl e, k2) \<Rightarrow> (Inl e, k2)
          | (Inr _, k2) \<Rightarrow> (Inr new, k2))"

definition cloexecOf :: "int \<Rightarrow> kernel \<Rightarrow> kerror + bool" where
  "cloexecOf fd k =
     (if bad_index fd \<or> e_desc (entry_of k fd) = None then Inl BadFd else Inr (e_cloexec (entry_of k fd)))"

definition setCloexec :: "int \<Rightarrow> bool \<Rightarrow> kernel \<Rightarrow> (kerror + unit) \<times> kernel" where
  "setCloexec fd c k =
     (if bad_index fd \<or> e_desc (entry_of k fd) = None then (Inl BadFd, k)
      else (Inr (), k\<lparr>table := set_slot fd ((entry_of k fd)\<lparr>e_cloexec := c\<rparr>) (table k)\<rparr>))"

text \<open>Only append and nonblocking can change.\<close>

definition setStatus :: "int \<Rightarrow> bool \<Rightarrow> bool \<Rightarrow> kernel \<Rightarrow> (kerror + unit) \<times> kernel" where
  "setStatus fd app nonblock k =
     (case lookup fd k of
        (None, k1) \<Rightarrow> (Inl BadFd, k1)
      | (Some d, k1) \<Rightarrow>
          (Inr (), release d (upd_desc d (\<lambda>x. x\<lparr>dstatus := (dstatus x)\<lparr>st_append := app, st_nonblock := nonblock\<rparr>\<rparr>) k1)))"


section \<open>Creating descriptions\<close>

definition plain_status :: "bool \<Rightarrow> bool \<Rightarrow> bool \<Rightarrow> status" where
  "plain_status r w nonblock = \<lparr>st_read = r, st_write = w, st_append = False, st_nonblock = nonblock\<rparr>"

definition fd_open :: "string \<Rightarrow> open_flags \<Rightarrow> kernel \<Rightarrow> (kerror + int) \<times> kernel" where
  "fd_open path fl k =
     (case normalize path of
        Inl e \<Rightarrow> (Inl e, k)
      | Inr canonical \<Rightarrow>
          (case openNode canonical fl (fsys k) of
             (Inl e, fs) \<Rightarrow> (Inl e, k\<lparr>fsys := fs\<rparr>)
           | (Inr n, fs) \<Rightarrow>
               let st = \<lparr>st_read = o_read fl \<or> \<not> o_write fl, st_write = o_write fl,
                         st_append = o_write fl \<and> o_append fl, st_nonblock = o_nonblock fl\<rparr>;
                   file = \<lparr>nf_node = n, nf_offset = 0, nf_path = (if isDir n fs then Some canonical else None)\<rparr>
               in case desc_create (NodeFile file) st (k\<lparr>fsys := fs\<rparr>) of
                    (None, k1) \<Rightarrow> (Inl OutOfMemory, k1\<lparr>fsys := vfs_release n (fsys k1)\<rparr>)
                  | (Some d, k1) \<Rightarrow> install_new d 0 (o_cloexec fl) k1))"

definition createPipe :: "bool \<Rightarrow> bool \<Rightarrow> kernel \<Rightarrow> (kerror + int \<times> int) \<times> kernel" where
  "createPipe nonblock cloexec k =
     (case first_free (pipes k) 0 of
        None \<Rightarrow> (Inl OutOfMemory, k)
      | Some p \<Rightarrow>
          let k1 = k\<lparr>pipes := set_slot p (Some pipe_create) (pipes k)\<rparr>
          in case desc_create (PipeRead p) (plain_status True False nonblock) k1 of
               (None, k2) \<Rightarrow> (Inl OutOfMemory, close_pipe p True (close_pipe p False k2))
             | (Some r, k2) \<Rightarrow>
                 (case desc_create (PipeWrite p) (plain_status False True nonblock) k2 of
                    (None, k3) \<Rightarrow> (Inl OutOfMemory, close_pipe p True (release r k3))
                  | (Some w, k3) \<Rightarrow>
                      (case install r 0 cloexec k3 of
                         (Inl e, k4) \<Rightarrow> (Inl e, release w (release r k4))
                       | (Inr read_fd, k4) \<Rightarrow>
                           (case install w 0 cloexec k4 of
                              (Inl e, k5) \<Rightarrow> (Inl e, release w (snd (fd_close read_fd k5)))
                            | (Inr write_fd, k5) \<Rightarrow> (Inr (read_fd, write_fd), k5)))))"

definition createEventFd :: "int \<Rightarrow> bool \<Rightarrow> bool \<Rightarrow> bool \<Rightarrow> kernel \<Rightarrow> (kerror + int) \<times> kernel" where
  "createEventFd initial semaphore nonblock cloexec k =
     (case first_free (eventfds k) 0 of
        None \<Rightarrow> (Inl OutOfMemory, k)
      | Some e \<Rightarrow>
          let k1 = k\<lparr>eventfds := set_slot e (Some \<lparr>ev_count = initial, ev_semaphore = semaphore\<rparr>) (eventfds k)\<rparr>
          in case desc_create (EventObj e) (plain_status True True nonblock) k1 of
               (None, k2) \<Rightarrow> (Inl OutOfMemory, snd (close_object (EventObj e) k2))
             | (Some d, k2) \<Rightarrow> install_new d 0 cloexec k2)"

definition createEpoll :: "bool \<Rightarrow> kernel \<Rightarrow> (kerror + int) \<times> kernel" where
  "createEpoll cloexec k =
     (case first_free (epolls k) 0 of
        None \<Rightarrow> (Inl OutOfMemory, k)
      | Some ep \<Rightarrow>
          let k1 = k\<lparr>epolls := set_slot ep (Some []) (epolls k)\<rparr>
          in case desc_create (EpollObj ep) (plain_status True False False) k1 of
               (None, k2) \<Rightarrow> (Inl OutOfMemory, snd (close_object (EpollObj ep) k2))
             | (Some d, k2) \<Rightarrow> install_new d 0 cloexec k2)"

text \<open>An end nobody holds a description of has no descriptions in flight yet.\<close>

definition drop_socket :: "ptr \<Rightarrow> bool \<Rightarrow> kernel \<Rightarrow> kernel" where
  "drop_socket p e k = (case close_socket p e k of (_, k1) \<Rightarrow> socket_changed p k1)"

definition createSocketPair :: "sock_kind \<Rightarrow> bool \<Rightarrow> bool \<Rightarrow> kernel \<Rightarrow> (kerror + int \<times> int) \<times> kernel" where
  "createSocketPair kind nonblock cloexec k =
     (case first_free (sockets k) 0 of
        None \<Rightarrow> (Inl OutOfMemory, k)
      | Some p \<Rightarrow>
          let k1 = set_socket p (Some (pair_create kind)) k; st = plain_status True True nonblock
          in case desc_create (SocketObj p False) st k1 of
               (None, k2) \<Rightarrow> (Inl OutOfMemory, drop_socket p True (drop_socket p False k2))
             | (Some a, k2) \<Rightarrow>
                 (case desc_create (SocketObj p True) st k2 of
                    (None, k3) \<Rightarrow> (Inl OutOfMemory, drop_socket p True (release a k3))
                  | (Some b, k3) \<Rightarrow>
                      (case install a 0 cloexec k3 of
                         (Inl e, k4) \<Rightarrow> (Inl e, release b (release a k4))
                       | (Inr first_fd, k4) \<Rightarrow>
                           (case install b 0 cloexec k4 of
                              (Inl e, k5) \<Rightarrow> (Inl e, release b (snd (fd_close first_fd k5)))
                            | (Inr second_fd, k5) \<Rightarrow> (Inr (first_fd, second_fd), k5)))))"

section \<open>Operations on a description\<close>

fun pipeError :: "pipe_error \<Rightarrow> kerror" where
  "pipeError PWouldBlock = WouldBlock"
| "pipeError PBrokenPipe = BrokenPipe"
| "pipeError PInterrupted = Interrupted"

fun socketError :: "sock_error \<Rightarrow> kerror" where
  "socketError SWouldBlock = WouldBlock"
| "socketError SBrokenPipe = BrokenPipe"
| "socketError SInterrupted = Interrupted"
| "socketError SOutOfMemory = OutOfMemory"
| "socketError SMessageTooLong = MessageTooLong"
| "socketError SInvalidArgument = InvalidArgument"

text \<open>One turn of a receive or send on an end of a pair. Only a receive or send that did something tells
  the watchers; a turn that is to go round again is taken again when the call is.\<close>

definition socket_receive :: "ptr \<Rightarrow> bool \<Rightarrow> int \<Rightarrow> bool \<Rightarrow> kernel \<Rightarrow> received outcome \<times> kernel" where
  "socket_receive p e room nonblock k =
     (case deref (sockets k) p of
        None \<Rightarrow> (Err IoError, k)
      | Some x \<Rightarrow>
          (case sock_receive room nonblock False e x of
             (SReturns r, x') \<Rightarrow>
               (Ret r, if q_segments (se_queue (sk_end e x)) \<noteq> [] \<and> \<not> se_read_shut (sk_end e x)
                       then socket_changed p (set_socket p (Some x') k) else k)
           | (SFails err, _) \<Rightarrow> (Err (socketError err), k)
           | _ \<Rightarrow> (Sleep, k)))"

definition socket_send :: "ptr \<Rightarrow> bool \<Rightarrow> u8 list \<Rightarrow> ptr list \<Rightarrow> bool \<Rightarrow> kernel \<Rightarrow> int outcome \<times> kernel" where
  "socket_send p e bytes rights nonblock k =
     (case deref (sockets k) p of
        None \<Rightarrow> (Err IoError, k)
      | Some x \<Rightarrow>
          (case sock_send bytes rights nonblock False e x of
             (SReturns n, x') \<Rightarrow>
               (Ret n, if bytes = [] \<and> rights = [] \<and> sk_kind x = Stream then k else socket_changed p (set_socket p (Some x') k))
           | (SFails err, _) \<Rightarrow> (Err (socketError err), k)
           | _ \<Rightarrow> (Sleep, k)))"

definition set_offset :: "ptr \<Rightarrow> int \<Rightarrow> kernel \<Rightarrow> kernel" where
  "set_offset d off = upd_desc d (\<lambda>x. case dobject x of
     NodeFile f \<Rightarrow> x\<lparr>dobject := NodeFile (f\<lparr>nf_offset := off\<rparr>)\<rparr> | _ \<Rightarrow> x)"

text \<open>One turn of \<open>read\<close>: \<open>room\<close> is the size of the buffer.\<close>

definition desc_read :: "ptr \<Rightarrow> int \<Rightarrow> kernel \<Rightarrow> u8 list outcome \<times> kernel" where
  "desc_read d room k =
     (case deref (descriptions k) d of
        None \<Rightarrow> (Err BadFd, k)
      | Some x \<Rightarrow>
          if \<not> st_read (dstatus x) then (Err BadFd, k)
          else case dobject x of
            NodeFile f \<Rightarrow>
              (case readAt (nf_node f) (nf_offset f) room (fsys k) of
                 Inr bytes \<Rightarrow> (Ret bytes, set_offset d (nf_offset f + int (length bytes)) k)
               | Inl e \<Rightarrow> (Err e, k))
          | PipeRead p \<Rightarrow>
              (case deref (pipes k) p of
                 None \<Rightarrow> (Err IoError, k)
               | Some q \<Rightarrow>
                   (case read_attempt room (st_nonblock (dstatus x)) False q of
                      (Returns bytes, q') \<Rightarrow>
                        (Ret bytes, if bytes = [] then k else pipe_changed p (k\<lparr>pipes := set_slot p (Some q') (pipes k)\<rparr>))
                    | (Fails e, _) \<Rightarrow> (Err (pipeError e), k)
                    | _ \<Rightarrow> (Sleep, k)))
          | EventObj e \<Rightarrow>
              (case deref (eventfds k) e of
                 None \<Rightarrow> (Err IoError, k)
               | Some ev \<Rightarrow>
                   (case eventfd_read room (st_nonblock (dstatus x)) ev of
                      (Ret bytes, ev') \<Rightarrow> (Ret bytes, notify (EventSource e) (k\<lparr>eventfds := set_slot e (Some ev') (eventfds k)\<rparr>))
                    | (r, _) \<Rightarrow> (r, k)))
          | SocketObj p e \<Rightarrow>
              (case socket_receive p e room (st_nonblock (dstatus x)) k of
                 (Ret r, k1) \<Rightarrow> (Ret (rc_bytes r), fold release (rc_rights r) k1)
               | (Err err, k1) \<Rightarrow> (Err err, k1)
               | (Sleep, k1) \<Rightarrow> (Sleep, k1))
          | Console \<Rightarrow> (Sleep, k)
          | PipeWrite p \<Rightarrow> (Err BadFd, k)
          | EpollObj ep \<Rightarrow> (Err BadFd, k))"

definition desc_write :: "ptr \<Rightarrow> u8 list \<Rightarrow> kernel \<Rightarrow> int outcome \<times> kernel" where
  "desc_write d bytes k =
     (case deref (descriptions k) d of
        None \<Rightarrow> (Err BadFd, k)
      | Some x \<Rightarrow>
          if \<not> st_write (dstatus x) then (Err BadFd, k)
          else case dobject x of
            NodeFile f \<Rightarrow>
              (case writeNode (nf_node f) (if st_append (dstatus x) then None else Some (nf_offset f)) bytes (fsys k) of
                 (Inl e, fs) \<Rightarrow> (Err e, k\<lparr>fsys := fs\<rparr>)
               | (Inr (n, stop), fs) \<Rightarrow> (Ret n, set_offset d stop (k\<lparr>fsys := fs\<rparr>)))
          | PipeWrite p \<Rightarrow>
              (case deref (pipes k) p of
                 None \<Rightarrow> (Err IoError, k)
               | Some q \<Rightarrow>
                   (case write_loop bytes 0 (st_nonblock (dstatus x)) q of
                      (Returns n, q') \<Rightarrow>
                        (Ret (int n), if n = 0 then k else pipe_changed p (k\<lparr>pipes := set_slot p (Some q') (pipes k)\<rparr>))
                    | (Fails e, _) \<Rightarrow> (Err (pipeError e), k)
                    | (_, q') \<Rightarrow> (Sleep, k\<lparr>pipes := set_slot p (Some q') (pipes k)\<rparr>)))
          | EventObj e \<Rightarrow>
              (case deref (eventfds k) e of
                 None \<Rightarrow> (Err IoError, k)
               | Some ev \<Rightarrow>
                   (case eventfd_write bytes (st_nonblock (dstatus x)) ev of
                      (Ret n, ev') \<Rightarrow> (Ret n, notify (EventSource e) (k\<lparr>eventfds := set_slot e (Some ev') (eventfds k)\<rparr>))
                    | (r, _) \<Rightarrow> (r, k)))
          | SocketObj p e \<Rightarrow> socket_send p e bytes [] (st_nonblock (dstatus x)) k
          | Console \<Rightarrow> (Ret (int (length bytes)), k)
          | PipeRead p \<Rightarrow> (Err BadFd, k)
          | EpollObj ep \<Rightarrow> (Err BadFd, k))"

text \<open>Reading and writing at an explicit offset, and changing a file's length.\<close>

definition readAtOffset :: "ptr \<Rightarrow> int \<Rightarrow> int \<Rightarrow> kernel \<Rightarrow> kerror + u8 list" where
  "readAtOffset d offset room k =
     (case deref (descriptions k) d of
        None \<Rightarrow> Inl BadFd
      | Some x \<Rightarrow>
          if \<not> st_read (dstatus x) then Inl BadFd
          else case dobject x of
            NodeFile f \<Rightarrow> readAt (nf_node f) offset room (fsys k)
          | _ \<Rightarrow> Inl NotSeekable)"

definition writeAtOffset :: "ptr \<Rightarrow> int \<Rightarrow> u8 list \<Rightarrow> kernel \<Rightarrow> (kerror + int) \<times> kernel" where
  "writeAtOffset d offset bytes k =
     (case deref (descriptions k) d of
        None \<Rightarrow> (Inl BadFd, k)
      | Some x \<Rightarrow>
          if \<not> st_write (dstatus x) then (Inl BadFd, k)
          else case dobject x of
            NodeFile f \<Rightarrow>
              (case writeNode (nf_node f) (Some offset) bytes (fsys k) of
                 (Inl e, fs) \<Rightarrow> (Inl e, k\<lparr>fsys := fs\<rparr>)
               | (Inr (n, stop), fs) \<Rightarrow> (Inr n, k\<lparr>fsys := fs\<rparr>))
          | _ \<Rightarrow> (Inl NotSeekable, k))"

definition desc_truncate :: "ptr \<Rightarrow> int \<Rightarrow> kernel \<Rightarrow> (kerror + unit) \<times> kernel" where
  "desc_truncate d length' k =
     (case deref (descriptions k) d of
        None \<Rightarrow> (Inl BadFd, k)
      | Some x \<Rightarrow>
          if \<not> st_write (dstatus x) then (Inl InvalidArgument, k)
          else case dobject x of
            NodeFile f \<Rightarrow> (case truncateNode (nf_node f) length' (fsys k) of (r, fs) \<Rightarrow> (r, k\<lparr>fsys := fs\<rparr>))
          | _ \<Rightarrow> (Inl InvalidArgument, k))"

datatype whence = SEEK_SET | SEEK_CUR | SEEK_END

definition desc_seek :: "ptr \<Rightarrow> int \<Rightarrow> whence \<Rightarrow> kernel \<Rightarrow> (kerror + int) \<times> kernel" where
  "desc_seek d offset wh k =
     (case deref (descriptions k) d of
        None \<Rightarrow> (Inl BadFd, k)
      | Some x \<Rightarrow>
          (case dobject x of
             NodeFile f \<Rightarrow>
               let base = (case wh of SEEK_SET \<Rightarrow> 0 | SEEK_CUR \<Rightarrow> nf_offset f | SEEK_END \<Rightarrow> node_size (nf_node f) (fsys k));
                   target = base + offset
               in if target < 0 \<or> target > 2 ^ 63 - 1 then (Inl InvalidArgument, k)
                  else (Inr target, set_offset d target k)
           | _ \<Rightarrow> (Inl NotSeekable, k)))"

datatype kind = KFile | KDirectory | KConsole | KPipeKind | KSocketKind | KAnonymous

definition desc_stat :: "ptr \<Rightarrow> kernel \<Rightarrow> int \<times> kind" where
  "desc_stat d k =
     (case deref (descriptions k) d of
        None \<Rightarrow> (0, KAnonymous)
      | Some x \<Rightarrow>
          (case dobject x of
             NodeFile f \<Rightarrow> (node_size (nf_node f) (fsys k), if isDir (nf_node f) (fsys k) then KDirectory else KFile)
           | PipeRead p \<Rightarrow> (case deref (pipes k) p of Some q \<Rightarrow> bytesAvailable q | None \<Rightarrow> 0, KPipeKind)
           | PipeWrite p \<Rightarrow> (0, KPipeKind)
           | EventObj e \<Rightarrow> (0, KAnonymous)
           | EpollObj ep \<Rightarrow> (0, KAnonymous)
           | SocketObj p e \<Rightarrow> (case deref (sockets k) p of Some s \<Rightarrow> sock_pending e s | None \<Rightarrow> 0, KSocketKind)
           | Console \<Rightarrow> (0, KConsole)))"


section \<open>Facts shared by the clients\<close>

text \<open>While no record lock is held, closing has none to drop.\<close>

lemma no_locks_release [simp]: "releaseMatching owner key no_locks = no_locks"
  by (simp add: releaseMatching_def no_locks_def)

lemma closedLocks_none: "rlocks k = no_locks \<Longrightarrow> closedLocks d k = k"
  by (auto simp: closedLocks_def releaseFile_def intro!: kernel.equality split: option.splits fd_object.splits)

lemma description_locks_none: "rlocks k = no_locks \<Longrightarrow> description_locks d ob k = k"
  by (auto simp: description_locks_def releaseAll_def intro!: kernel.equality split: fd_object.splits)

lemma fsys_same [simp]: "k\<lparr>fsys := fsys k\<rparr> = k"
  by (intro kernel.equality) auto

lemma free_entry_append:
  "list_all (\<lambda>e. e_desc e \<noteq> None) es \<Longrightarrow> free_entry (es @ fs) start i = free_entry fs start (i + int (length es))"
  by (induction es arbitrary: i) (auto simp: add.assoc)

lemma retain_eq:
  "deref (descriptions k) d = Some x \<Longrightarrow>
    retain d k = k\<lparr>descriptions := set_slot d (Some (x\<lparr>refs := refs x + 1\<rparr>)) (descriptions k)\<rparr>"
  by (simp add: retain_def upd_desc_def)

text \<open>Dropping a reference that was taken to an open description.\<close>

lemma release_kept:
  "deref (descriptions k) d = Some x \<Longrightarrow> refs x \<noteq> 1 \<Longrightarrow> release d k = upd_desc d (\<lambda>x. x\<lparr>refs := refs x - 1\<rparr>) k"
  by (simp add: release_def)

lemma release_last:
  "deref (descriptions k) d = Some x \<Longrightarrow> refs x = 1 \<Longrightarrow> close_object (dobject x) (description_locks d (dobject x) k) = ([], k1) \<Longrightarrow>
    release d k = snd (release_step (Finish d (dobject x)) k1)"
  by (simp add: release_def Let_def)

lemma release_taken:
  assumes "deref (descriptions k) d = Some x" "1 \<le> refs x"
  shows "release d (k\<lparr>descriptions := set_slot d (Some (x\<lparr>refs := refs x + 1\<rparr>)) (descriptions k)\<rparr>) = k"
  using assms by (simp add: release_kept upd_desc_def deref_set_slot deref_Some)

lemma release_retain:
  "deref (descriptions k) d = Some x \<Longrightarrow> 1 \<le> refs x \<Longrightarrow> release d (retain d k) = k"
  by (simp add: retain_eq release_taken)

lemma retain_pipes: "(retain d k)\<lparr>pipes := x\<rparr> = retain d (k\<lparr>pipes := x\<rparr>)"
  by (simp add: retain_def upd_desc_def split: option.split)

lemma retain_eventfds: "(retain d k)\<lparr>eventfds := x\<rparr> = retain d (k\<lparr>eventfds := x\<rparr>)"
  by (simp add: retain_def upd_desc_def split: option.split)

lemma notify_keeps [simp]:
  "descriptions (notify s k) = descriptions k" "pipes (notify s k) = pipes k" "eventfds (notify s k) = eventfds k"
  "table (notify s k) = table k" "fsys (notify s k) = fsys k" "rlocks (notify s k) = rlocks k"
  "owner_pid (notify s k) = owner_pid k"
  by (simp_all add: notify_def map_interests_def)

text \<open>A pipe all of whose watchers have been told already: a change of the pipe tells nobody
  anything new.\<close>

definition told :: "ready_source \<Rightarrow> kernel \<Rightarrow> bool" where
  "told s k \<longleftrightarrow> list_all (\<lambda>is. case is of None \<Rightarrow> True | Some is \<Rightarrow> list_all (\<lambda>i. i_source i = Some s \<longrightarrow> i_pending i) is) (epolls k)"

definition quiet :: "ptr \<Rightarrow> kernel \<Rightarrow> bool" where
  "quiet p k \<longleftrightarrow> told (PipeSource p False) k \<and> told (PipeSource p True) k"

lemma notify_told: "told s k \<Longrightarrow> notify s k = k"
proof -
  assume t: "told s k"
  have "map (\<lambda>i. if i_source i = Some s then i\<lparr>i_pending := True\<rparr> else i) is = is"
    if "list_all (\<lambda>i. i_source i = Some s \<longrightarrow> i_pending i) is" for "is"
    using that by (induction "is") auto
  then have "map_option (map (\<lambda>i. if i_source i = Some s then i\<lparr>i_pending := True\<rparr> else i)) e = e"
    if "case e of None \<Rightarrow> True | Some is \<Rightarrow> list_all (\<lambda>i. i_source i = Some s \<longrightarrow> i_pending i) is" for e
    using that by (cases e) auto
  then have "map (map_option (map (\<lambda>i. if i_source i = Some s then i\<lparr>i_pending := True\<rparr> else i))) (epolls k) = epolls k"
    using t unfolding told_def by (intro map_idI) (auto simp: list_all_iff)
  then show ?thesis by (simp add: notify_def map_interests_def)
qed

lemma pipe_changed_quiet: "quiet p k \<Longrightarrow> pipe_changed p k = k"
  by (simp add: quiet_def pipe_changed_def notify_told)

lemma quiet_epolls: "epolls k = epolls k' \<Longrightarrow> quiet p k = quiet p k'"
  by (simp add: quiet_def told_def)

lemma write_attempt_head: "head (snd (write_attempt bytes done nonblock interrupt p)) = head p"
  by (simp add: write_attempt_def Let_def)

lemma read_attempt_head:
  "0 < wanted \<Longrightarrow> 0 < len p \<Longrightarrow>
    head (snd (read_attempt wanted nonblock interrupt p)) = (head p + min wanted (len p)) mod CAPACITY"
  by (simp add: read_attempt_def Let_def)

lemma write_loop_small:
  assumes "int (length bytes) \<le> ATOMIC_WRITE"
  shows "write_loop bytes 0 nonblock p = write_attempt bytes 0 nonblock False p"
proof -
  have "\<exists>r p'. write_attempt bytes 0 nonblock False p = (r, p') \<and> (\<forall>n. r \<noteq> Continues n)"
    using assms by (auto simp: write_attempt_def Let_def)
  then show ?thesis by (subst write_loop.simps) (auto split: attempt.split)
qed

end
