(* ===== verification/KEpoll.thy ===== *)
theory KEpoll
  imports KObject
begin

text \<open>
  epoll and poll (\<open>kernel/ipc/epoll.zig\<close>). An epoll instance is the list of its interests, the
  newest first; an interest is attached to a readiness source until its description closes.
  Memory for interests is taken to be available. A wait is a sequence of turns: each looks at
  every interest and returns, or sleeps until something is notified or its deadline passes.
\<close>

unbundle bit_operations_syntax

section \<open>Event bits\<close>

definition EPOLLIN :: u32 where "EPOLLIN = 0x001"
definition EPOLLPRI :: u32 where "EPOLLPRI = 0x002"
definition EPOLLOUT :: u32 where "EPOLLOUT = 0x004"
definition EPOLLERR :: u32 where "EPOLLERR = 0x008"
definition EPOLLHUP :: u32 where "EPOLLHUP = 0x010"
definition POLLNVAL :: u32 where "POLLNVAL = 0x020"
definition EPOLLRDNORM :: u32 where "EPOLLRDNORM = 0x040"
definition EPOLLWRNORM :: u32 where "EPOLLWRNORM = 0x100"
definition EPOLLRDHUP :: u32 where "EPOLLRDHUP = 0x2000"
definition EPOLLONESHOT :: u32 where "EPOLLONESHOT = 0x40000000"
definition EPOLLET :: u32 where "EPOLLET = 0x80000000"

definition ALWAYS :: u32 where "ALWAYS = EPOLLERR OR EPOLLHUP"

definition REQUESTABLE :: u32 where
  "REQUESTABLE = EPOLLIN OR EPOLLPRI OR EPOLLOUT OR EPOLLERR OR EPOLLHUP OR EPOLLRDNORM OR EPOLLWRNORM OR
     EPOLLRDHUP OR EPOLLONESHOT OR EPOLLET"

lemmas event_bits = EPOLLIN_def EPOLLPRI_def EPOLLOUT_def EPOLLERR_def EPOLLHUP_def POLLNVAL_def EPOLLRDNORM_def
  EPOLLWRNORM_def EPOLLRDHUP_def EPOLLONESHOT_def EPOLLET_def ALWAYS_def REQUESTABLE_def

definition bits_if :: "bool \<Rightarrow> u32 \<Rightarrow> u32" where
  "bits_if c b = (if c then b else 0)"

definition object_ready :: "fd_object \<Rightarrow> kernel \<Rightarrow> u32" where
  "object_ready ob k =
     (case ob of
        NodeFile f \<Rightarrow> EPOLLIN OR EPOLLRDNORM OR EPOLLOUT OR EPOLLWRNORM
      | PipeRead p \<Rightarrow>
          (case deref (pipes k) p of None \<Rightarrow> 0 | Some q \<Rightarrow>
             bits_if (readable (pipe_poll q)) (EPOLLIN OR EPOLLRDNORM) OR
             bits_if (hangup (pipe_poll q)) (EPOLLHUP OR EPOLLRDHUP))
      | PipeWrite p \<Rightarrow>
          (case deref (pipes k) p of None \<Rightarrow> 0 | Some q \<Rightarrow>
             bits_if (writable (pipe_poll q)) (EPOLLOUT OR EPOLLWRNORM) OR
             bits_if (peer_closed (pipe_poll q)) EPOLLERR)
      | EventObj e \<Rightarrow>
          (case deref (eventfds k) e of None \<Rightarrow> 0 | Some ev \<Rightarrow>
             bits_if (fst (eventfd_poll ev)) (EPOLLIN OR EPOLLRDNORM) OR
             bits_if (snd (eventfd_poll ev)) (EPOLLOUT OR EPOLLWRNORM))
      | EpollObj ep \<Rightarrow> 0
      | SocketObj p e \<Rightarrow>
          (case deref (sockets k) p of None \<Rightarrow> 0 | Some s \<Rightarrow>
             bits_if (sr_readable (sock_poll e s)) (EPOLLIN OR EPOLLRDNORM) OR
             bits_if (sr_writable (sock_poll e s)) (EPOLLOUT OR EPOLLWRNORM) OR
             bits_if (sr_read_hangup (sock_poll e s)) EPOLLRDHUP OR
             bits_if (sr_hangup (sock_poll e s)) EPOLLHUP)
      | Console \<Rightarrow> EPOLLOUT OR EPOLLWRNORM)"

definition readinessOf :: "ptr \<Rightarrow> kernel \<Rightarrow> u32" where
  "readinessOf d k = (case deref (descriptions k) d of None \<Rightarrow> 0 | Some x \<Rightarrow> object_ready (dobject x) k)"

section \<open>Interests\<close>

definition interests :: "ptr \<Rightarrow> kernel \<Rightarrow> interest list" where
  "interests ep k = (case deref (epolls k) ep of None \<Rightarrow> [] | Some is \<Rightarrow> is)"

definition set_interests :: "ptr \<Rightarrow> interest list \<Rightarrow> kernel \<Rightarrow> kernel" where
  "set_interests ep is k = k\<lparr>epolls := set_slot ep (Some is) (epolls k)\<rparr>"

definition reap :: "interest list \<Rightarrow> interest list" where
  "reap is = filter (\<lambda>i. i_source i \<noteq> None) is"

definition matches :: "int \<Rightarrow> ptr \<Rightarrow> interest \<Rightarrow> bool" where
  "matches number d i \<longleftrightarrow> i_number i = number \<and> i_desc i = d \<and> i_source i \<noteq> None"

text \<open>The first matching interest changed.\<close>

fun update_first :: "('a \<Rightarrow> bool) \<Rightarrow> ('a \<Rightarrow> 'a) \<Rightarrow> 'a list \<Rightarrow> 'a list" where
  "update_first P f [] = []"
| "update_first P f (x # xs) = (if P x then f x # xs else x # update_first P f xs)"

datatype epoll_op = EPOLL_CTL_ADD | EPOLL_CTL_DEL | EPOLL_CTL_MOD

definition control :: "ptr \<Rightarrow> epoll_op \<Rightarrow> int \<Rightarrow> ptr \<Rightarrow> u32 \<Rightarrow> int \<Rightarrow> kernel \<Rightarrow> (kerror + unit) \<times> kernel" where
  "control ep op number d events udata k =
     (if events AND NOT REQUESTABLE \<noteq> 0 \<and> op \<noteq> EPOLL_CTL_DEL then (Inl InvalidArgument, k)
      else case Option.bind (deref (descriptions k) d) (\<lambda>x. object_source (dobject x)) of
        None \<Rightarrow> (Inl NotPermitted, k)
      | Some src \<Rightarrow>
          let is = reap (interests ep k); existing = find (matches number d) is; k1 = set_interests ep is k
          in case op of
               EPOLL_CTL_ADD \<Rightarrow>
                 if existing \<noteq> None then (Inl Exists, k1)
                 else (Inr (), set_interests ep
                   (\<lparr>i_number = number, i_desc = d, i_source = Some src, i_events = events, i_data = udata,
                     i_pending = True, i_disabled = False\<rparr> # is) k)
             | EPOLL_CTL_MOD \<Rightarrow>
                 if existing = None then (Inl NotFound, k1)
                 else (Inr (), set_interests ep
                   (update_first (matches number d)
                     (\<lambda>i. i\<lparr>i_events := events, i_data := udata, i_pending := True, i_disabled := False\<rparr>) is) k)
             | EPOLL_CTL_DEL \<Rightarrow>
                 if existing = None then (Inl NotFound, k1)
                 else (Inr (), set_interests ep (reap (update_first (matches number d) (\<lambda>i. i\<lparr>i_source := None\<rparr>) is)) k))"

text \<open>\<open>scanLocked\<close>: up to \<open>room\<close> ready interests, with their events and data.\<close>

fun scan :: "kernel \<Rightarrow> int \<Rightarrow> interest list \<Rightarrow> (u32 \<times> int) list \<times> interest list" where
  "scan k room [] = ([], [])"
| "scan k room (i # is) =
     (if room = 0 then ([], i # is)
      else
        let ready = readinessOf (i_desc i) k AND (i_events i OR ALWAYS);
            edge = (i_events i AND EPOLLET \<noteq> 0)
        in if i_disabled i \<or> i_source i = None \<or> deref (descriptions k) (i_desc i) = None \<or> ready = 0 \<or>
              (edge \<and> \<not> i_pending i)
           then let (out, is') = scan k room is in (out, i # is')
           else
             let i1 = (if edge then i\<lparr>i_pending := False\<rparr> else i);
                 i2 = (if i_events i AND EPOLLONESHOT \<noteq> 0 then i1\<lparr>i_disabled := True\<rparr> else i1);
                 (out, is') = scan k (room - 1) is
             in ((ready, i_data i) # out, i2 # is'))"

text \<open>One turn of \<open>wait\<close>; \<open>expired\<close>: its deadline has passed.\<close>

definition epoll_wait_turn :: "ptr \<Rightarrow> int \<Rightarrow> int \<Rightarrow> bool \<Rightarrow> kernel \<Rightarrow> (u32 \<times> int) list outcome \<times> kernel" where
  "epoll_wait_turn ep room timeout expired k =
     (let is = reap (interests ep k);
          (out, is') = scan (set_interests ep is k) room is;
          k1 = set_interests ep is' k
      in if out \<noteq> [] \<or> timeout = 0 then (Ret out, k1)
         else if timeout > 0 \<and> expired then (Ret [], k1)
         else (Sleep, k1))"

section \<open>poll\<close>

text \<open>The events reported for each entry of a descriptor number and the events asked for.\<close>

definition poll_entry :: "kernel \<Rightarrow> int \<times> u32 \<Rightarrow> u32" where
  "poll_entry k e = (case e of (number, requested) \<Rightarrow>
     if number < 0 then 0
     else
       let state = (if bad_index number then POLLNVAL
                    else case e_desc (entry_of k number) of None \<Rightarrow> POLLNVAL | Some d \<Rightarrow> readinessOf d k)
       in state AND (requested OR ALWAYS OR POLLNVAL))"

definition poll_turn :: "(int \<times> u32) list \<Rightarrow> int \<Rightarrow> bool \<Rightarrow> kernel \<Rightarrow> (int \<times> u32 list) outcome" where
  "poll_turn entries timeout expired k =
     (let returned = map (poll_entry k) entries;
          count = int (length (filter (\<lambda>r. r \<noteq> 0) returned))
      in if count > 0 \<or> timeout = 0 \<or> (timeout > 0 \<and> expired) then Ret (count, returned) else Sleep)"

end
