(* ===== verification/KSyscall.thy ===== *)
theory KSyscall
  imports KEpoll
begin

text \<open>
  The system calls a C program makes through musl
  (\<open>userland/libs/musl-orange/orange.zig\<close>, \<open>kernel/syscall/syscall.zig\<close>). A result is \<open>Inl\<close> of
  an error number where the C function returns -1 and sets \<open>errno\<close>. A call that has to wait
  keeps its reference to the description; \<open>read_turn\<close>, \<open>write_turn\<close> and \<open>wait_turn\<close> take it up
  again.
\<close>

datatype errno =
    ENOENT | ENOTDIR | EISDIR | EROFS | EEXIST | ENOTEMPTY | ENOSPC | EXDEV | EINVAL | EFBIG | EBUSY | EAGAIN
  | EPIPE | EINTR_e | ESPIPE | ENOMEM | EMSGSIZE | EPERM | ENXIO | ENAMETOOLONG | EMFILE | EBADF | EIO
  | EDEADLK | ENOLCK | EOVERFLOW | ERANGE | ECHILD | ENOEXEC
  | ENOTSOCK | EISCONN | EAFNOSUPPORT | EPROTONOSUPPORT | ESOCKTNOSUPPORT | EOPNOTSUPP

fun vfsErrno :: "kerror \<Rightarrow> errno" where
  "vfsErrno NotFound = ENOENT"
| "vfsErrno NotMounted = ENOENT"
| "vfsErrno NotDirectory = ENOTDIR"
| "vfsErrno NotFile = EISDIR"
| "vfsErrno IsDirectory = EISDIR"
| "vfsErrno ReadOnly = EROFS"
| "vfsErrno Exists = EEXIST"
| "vfsErrno NotEmpty = ENOTEMPTY"
| "vfsErrno NoSpace = ENOSPC"
| "vfsErrno CrossDevice = EXDEV"
| "vfsErrno InvalidArgument = EINVAL"
| "vfsErrno FileTooBig = EFBIG"
| "vfsErrno Busy = EBUSY"
| "vfsErrno WouldBlock = EAGAIN"
| "vfsErrno BrokenPipe = EPIPE"
| "vfsErrno Interrupted = EINTR_e"
| "vfsErrno NotSeekable = ESPIPE"
| "vfsErrno OutOfMemory = ENOMEM"
| "vfsErrno MessageTooLong = EMSGSIZE"
| "vfsErrno NotPermitted = EPERM"
| "vfsErrno NoDevice = ENXIO"
| "vfsErrno NameTooLong = ENAMETOOLONG"
| "vfsErrno TooManyOpen = EMFILE"
| "vfsErrno BadFd = EBADF"
| "vfsErrno IoError = EIO"

datatype 'a call = Done "errno + 'a" | Waiting ptr

definition errno_of :: "(kerror + 'a) \<times> kernel \<Rightarrow> (errno + 'a) \<times> kernel" where
  "errno_of r = (case r of (Inl e, k) \<Rightarrow> (Inl (vfsErrno e), k) | (Inr x, k) \<Rightarrow> (Inr x, k))"

text \<open>Ending a turn of a call that holds a reference to \<open>d\<close>.\<close>

definition end_turn :: "ptr \<Rightarrow> 'a outcome \<times> kernel \<Rightarrow> 'a call \<times> kernel" where
  "end_turn d r = (case r of
     (Ret x, k) \<Rightarrow> (Done (Inr x), release d k)
   | (Err e, k) \<Rightarrow> (Done (Inl (vfsErrno e)), release d k)
   | (Sleep, k) \<Rightarrow> (Waiting d, k))"

definition read_turn :: "ptr \<Rightarrow> int \<Rightarrow> kernel \<Rightarrow> u8 list call \<times> kernel" where
  "read_turn d room k = end_turn d (desc_read d room k)"

definition write_turn :: "ptr \<Rightarrow> u8 list \<Rightarrow> kernel \<Rightarrow> int call \<times> kernel" where
  "write_turn d bytes k = end_turn d (desc_write d bytes k)"

definition sys_read :: "int \<Rightarrow> int \<Rightarrow> kernel \<Rightarrow> u8 list call \<times> kernel" where
  "sys_read fd count k =
     (let room = min count 4096
      in if room = 0 then (Done (Inr []), k)
         else case lookup fd k of
           (None, k1) \<Rightarrow> (Done (Inl EBADF), k1)
         | (Some d, k1) \<Rightarrow> read_turn d room k1)"

definition sys_write :: "int \<Rightarrow> u8 list \<Rightarrow> kernel \<Rightarrow> int call \<times> kernel" where
  "sys_write fd bytes k =
     (let data = take (nat 4096) bytes
      in if data = [] then (Done (Inr 0), k)
         else case lookup fd k of
           (None, k1) \<Rightarrow> (Done (Inl EBADF), k1)
         | (Some d, k1) \<Rightarrow> write_turn d data k1)"

text \<open>Paths: made absolute against a directory, by default the working directory, and normalized.\<close>

definition absolutePath :: "string option \<Rightarrow> string \<Rightarrow> kernel \<Rightarrow> kerror + string" where
  "absolutePath base path k =
     (if path \<noteq> [] \<and> hd path = CHR ''/'' then normalize path
      else normalize ((case base of Some dir \<Rightarrow> dir | None \<Rightarrow> cwd k) @ CHR ''/'' # path))"

definition copyPath :: "string \<Rightarrow> kernel \<Rightarrow> errno + string" where
  "copyPath path k =
     (if path = [] \<or> length path > MAX_PATH then Inl ENAMETOOLONG
      else case absolutePath None path k of Inl _ \<Rightarrow> Inl ENAMETOOLONG | Inr name \<Rightarrow> Inr name)"

definition with_path :: "string \<Rightarrow> (string \<Rightarrow> kernel \<Rightarrow> (errno + 'a) \<times> kernel) \<Rightarrow> kernel \<Rightarrow> (errno + 'a) \<times> kernel" where
  "with_path path f k = (case copyPath path k of Inl e \<Rightarrow> (Inl e, k) | Inr name \<Rightarrow> f name k)"

definition sys_open :: "string \<Rightarrow> open_flags \<Rightarrow> kernel \<Rightarrow> (errno + int) \<times> kernel" where
  "sys_open path fl = with_path path (\<lambda>name k. errno_of (fd_open name fl k))"

definition sys_close :: "int \<Rightarrow> kernel \<Rightarrow> (errno + unit) \<times> kernel" where
  "sys_close fd k = errno_of (fd_close fd k)"

definition sys_lseek :: "int \<Rightarrow> int \<Rightarrow> whence \<Rightarrow> kernel \<Rightarrow> (errno + int) \<times> kernel" where
  "sys_lseek fd offset wh k =
     (case lookup fd k of
        (None, k1) \<Rightarrow> (Inl EBADF, k1)
      | (Some d, k1) \<Rightarrow> (case desc_seek d offset wh k1 of (r, k2) \<Rightarrow> errno_of (r, release d k2)))"

definition sys_fstat :: "int \<Rightarrow> kernel \<Rightarrow> (errno + int \<times> kind) \<times> kernel" where
  "sys_fstat fd k =
     (case lookup fd k of
        (None, k1) \<Rightarrow> (Inl EBADF, k1)
      | (Some d, k1) \<Rightarrow> (Inr (desc_stat d k1), release d k1))"

definition sys_pipe2 :: "bool \<Rightarrow> bool \<Rightarrow> kernel \<Rightarrow> (errno + int \<times> int) \<times> kernel" where
  "sys_pipe2 nonblock cloexec k = errno_of (createPipe nonblock cloexec k)"

definition sys_eventfd :: "int \<Rightarrow> bool \<Rightarrow> bool \<Rightarrow> bool \<Rightarrow> kernel \<Rightarrow> (errno + int) \<times> kernel" where
  "sys_eventfd initial semaphore nonblock cloexec k =
     (if initial > 2 ^ 32 - 1 then (Inl EINVAL, k) else errno_of (createEventFd initial semaphore nonblock cloexec k))"

definition sys_dup :: "int \<Rightarrow> kernel \<Rightarrow> (errno + int) \<times> kernel" where
  "sys_dup old k = (if old < 0 then (Inl EBADF, k) else errno_of (fd_dup old 0 False k))"

definition sys_dup2 :: "int \<Rightarrow> int \<Rightarrow> bool \<Rightarrow> kernel \<Rightarrow> (errno + int) \<times> kernel" where
  "sys_dup2 old new cloexec k =
     (if old < 0 \<or> new < 0 then (Inl EBADF, k) else errno_of (fd_dupTo old new cloexec k))"

text \<open>\<open>dup3\<close> differs from \<open>dup2\<close> only in refusing equal numbers.\<close>

definition sys_dup3 :: "int \<Rightarrow> int \<Rightarrow> bool \<Rightarrow> kernel \<Rightarrow> (errno + int) \<times> kernel" where
  "sys_dup3 old new cloexec k = (if old = new then (Inl EINVAL, k) else sys_dup2 old new cloexec k)"

text \<open>The commands of \<open>fcntl\<close>, each between taking and dropping a reference.\<close>

definition with_desc :: "int \<Rightarrow> (ptr \<Rightarrow> kernel \<Rightarrow> (errno + 'a) \<times> kernel) \<Rightarrow> kernel \<Rightarrow> (errno + 'a) \<times> kernel" where
  "with_desc fd f k =
     (case lookup fd k of
        (None, k1) \<Rightarrow> (Inl EBADF, k1)
      | (Some d, k1) \<Rightarrow> (case f d k1 of (r, k2) \<Rightarrow> (r, release d k2)))"

definition fcntl_dupfd :: "int \<Rightarrow> int \<Rightarrow> bool \<Rightarrow> kernel \<Rightarrow> (errno + int) \<times> kernel" where
  "fcntl_dupfd fd arg cloexec = with_desc fd (\<lambda>_ k.
     if arg < 0 \<or> arg \<ge> MAX_OPEN then (Inl EINVAL, k) else errno_of (fd_dup fd arg cloexec k))"

definition fcntl_getfd :: "int \<Rightarrow> kernel \<Rightarrow> (errno + bool) \<times> kernel" where
  "fcntl_getfd fd = with_desc fd (\<lambda>_ k. errno_of (cloexecOf fd k, k))"

definition fcntl_setfd :: "int \<Rightarrow> bool \<Rightarrow> kernel \<Rightarrow> (errno + unit) \<times> kernel" where
  "fcntl_setfd fd cloexec = with_desc fd (\<lambda>_ k. errno_of (setCloexec fd cloexec k))"

definition fcntl_getfl :: "int \<Rightarrow> kernel \<Rightarrow> (errno + status) \<times> kernel" where
  "fcntl_getfl fd = with_desc fd (\<lambda>d k.
     (case deref (descriptions k) d of None \<Rightarrow> Inl EBADF | Some x \<Rightarrow> Inr (dstatus x), k))"

definition fcntl_setfl :: "int \<Rightarrow> bool \<Rightarrow> bool \<Rightarrow> kernel \<Rightarrow> (errno + unit) \<times> kernel" where
  "fcntl_setfl fd app nonblock = with_desc fd (\<lambda>_ k. errno_of (setStatus fd app nonblock k))"

section \<open>epoll, poll and select\<close>

definition sys_epoll_create1 :: "bool \<Rightarrow> kernel \<Rightarrow> (errno + int) \<times> kernel" where
  "sys_epoll_create1 cloexec k = errno_of (createEpoll cloexec k)"

text \<open>The epoll instance behind a descriptor, referenced through its description.\<close>

definition epollOf :: "int \<Rightarrow> kernel \<Rightarrow> (errno + ptr \<times> ptr) \<times> kernel" where
  "epollOf epfd k =
     (case lookup epfd k of
        (None, k1) \<Rightarrow> (Inl EBADF, k1)
      | (Some d, k1) \<Rightarrow>
          (case map_option dobject (deref (descriptions k1) d) of
             Some (EpollObj ep) \<Rightarrow> (Inr (d, ep), k1)
           | _ \<Rightarrow> (Inl EINVAL, release d k1)))"

definition sys_epoll_ctl :: "int \<Rightarrow> epoll_op \<Rightarrow> int \<Rightarrow> u32 \<Rightarrow> int \<Rightarrow> kernel \<Rightarrow> (errno + unit) \<times> kernel" where
  "sys_epoll_ctl epfd op target events udata k =
     (case epollOf epfd k of
        (Inl e, k1) \<Rightarrow> (Inl e, k1)
      | (Inr (de, ep), k1) \<Rightarrow>
          if target = epfd then (Inl EINVAL, release de k1)
          else case lookup target k1 of
            (None, k2) \<Rightarrow> (Inl EBADF, release de k2)
          | (Some d, k2) \<Rightarrow>
              (case errno_of (control ep op target d events udata k2) of (r, k3) \<Rightarrow> (r, release de (release d k3))))"

definition EPOLL_BATCH :: int where "EPOLL_BATCH = 128"

definition wait_turn :: "ptr \<Rightarrow> ptr \<Rightarrow> int \<Rightarrow> int \<Rightarrow> bool \<Rightarrow> kernel \<Rightarrow> (u32 \<times> int) list call \<times> kernel" where
  "wait_turn de ep room timeout expired k = end_turn de (epoll_wait_turn ep room timeout expired k)"

definition sys_epoll_wait :: "int \<Rightarrow> int \<Rightarrow> int \<Rightarrow> kernel \<Rightarrow> (u32 \<times> int) list call \<times> kernel" where
  "sys_epoll_wait epfd maximum timeout k =
     (if maximum \<le> 0 then (Done (Inl EINVAL), k)
      else case epollOf epfd k of
        (Inl e, k1) \<Rightarrow> (Done (Inl e), k1)
      | (Inr (de, ep), k1) \<Rightarrow> wait_turn de ep (min maximum EPOLL_BATCH) timeout False k1)"

text \<open>\<open>poll\<close> holds its references only while it runs; \<open>None\<close> while it waits.\<close>

definition sys_poll :: "(int \<times> u32) list \<Rightarrow> int \<Rightarrow> bool \<Rightarrow> kernel \<Rightarrow> (int \<times> u32 list) option" where
  "sys_poll fds timeout expired k =
     (if fds = [] then (if timeout > 0 \<and> \<not> expired then None else Some (0, []))
      else case poll_turn fds timeout expired k of Ret r \<Rightarrow> Some r | _ \<Rightarrow> None)"

text \<open>\<open>select\<close> for a set of readable descriptors below \<open>nfds\<close>: how many are ready, and which.\<close>

definition sys_select :: "int \<Rightarrow> int list \<Rightarrow> int \<Rightarrow> bool \<Rightarrow> kernel \<Rightarrow> (errno + int \<times> int list) option" where
  "sys_select nfds wanted timeout expired k =
     (let fds = filter (\<lambda>fd. fd \<in> set wanted) (map int [0..<nat nfds])
      in case sys_poll (map (\<lambda>fd. (fd, EPOLLIN)) fds) timeout expired k of
           None \<Rightarrow> None
         | Some (n, returned) \<Rightarrow>
             let found = zip fds returned;
                 ready = map fst (filter (\<lambda>(fd, r). r AND (EPOLLIN OR EPOLLHUP OR EPOLLERR) \<noteq> 0) found)
             in if list_ex (\<lambda>(fd, r). r AND POLLNVAL \<noteq> 0) found then Some (Inl EBADF)
                else Some (Inr (int (length ready), ready)))"


section \<open>Pipe ends behind descriptors\<close>

text \<open>Descriptor \<open>fd\<close> is an end of pipe \<open>p\<close>, whose state is \<open>q\<close>.\<close>

definition pipe_end :: "fd_object \<Rightarrow> bool \<Rightarrow> int \<Rightarrow> ptr \<Rightarrow> pipe \<Rightarrow> kernel \<Rightarrow> bool" where
  "pipe_end ob nonblock fd p q k \<longleftrightarrow> \<not> bad_index fd \<and> deref (pipes k) p = Some q \<and>
     (\<exists>d x. e_desc (entry_of k fd) = Some d \<and> deref (descriptions k) d = Some x \<and> 1 \<le> refs x \<and>
       dobject x = ob \<and> st_nonblock (dstatus x) = nonblock \<and>
       (case ob of PipeRead p' \<Rightarrow> p' = p \<and> st_read (dstatus x) | PipeWrite p' \<Rightarrow> p' = p \<and> st_write (dstatus x) | _ \<Rightarrow> False))"

definition set_pipe :: "ptr \<Rightarrow> pipe \<Rightarrow> kernel \<Rightarrow> kernel" where
  "set_pipe p q k = k\<lparr>pipes := set_slot p (Some q) (pipes k)\<rparr>"

lemma pipe_end_set_pipe:
  "pipe_end ob nonblock fd p q k \<Longrightarrow> pipe_end ob nonblock fd p q' (set_pipe p q' k)"
  by (auto simp: pipe_end_def set_pipe_def deref_set_slot deref_Some entry_of_def split: fd_object.splits)

lemma quiet_set_pipe [simp]: "quiet p (set_pipe p' q k) = quiet p k"
  by (rule quiet_epolls) (simp add: set_pipe_def)

lemma sys_write_pipe:
  assumes e: "pipe_end (PipeWrite p) nonblock fd p q k" and b: "bytes \<noteq> []" "length bytes \<le> 4096"
    and idle: "quiet p k"
  shows "write_attempt bytes 0 nonblock False q = (Returns n, q') \<Longrightarrow> 0 < n \<Longrightarrow>
      sys_write fd bytes k = (Done (Inr (int n)), set_pipe p q' k)"
    and "write_attempt bytes 0 nonblock False q = (Fails err, q') \<Longrightarrow>
      sys_write fd bytes k = (Done (Inl (vfsErrno (pipeError err))), k)"
proof -
  obtain d x where d: "\<not> bad_index fd" "deref (pipes k) p = Some q" "e_desc (entry_of k fd) = Some d"
    "deref (descriptions k) d = Some x" "1 \<le> refs x" "dobject x = PipeWrite p" "st_nonblock (dstatus x) = nonblock"
    "st_write (dstatus x)" using e by (auto simp: pipe_end_def)
  have small: "write_loop bytes 0 nonblock q = write_attempt bytes 0 nonblock False q"
    by (rule write_loop_small) (use b in \<open>simp add: ATOMIC_WRITE_def\<close>)
  have r: "deref (descriptions (retain d k)) d = Some (x\<lparr>refs := refs x + 1\<rparr>)" "pipes (retain d k) = pipes k"
    using d by (auto simp: retain_eq deref_set_slot deref_Some)
  let ?y = "x\<lparr>refs := refs x + 1\<rparr>"
  show "sys_write fd bytes k = (Done (Inl (vfsErrno (pipeError err))), k)"
    if "write_attempt bytes 0 nonblock False q = (Fails err, q')"
    using that d b r small release_retain [OF d(4,5)]
    by (simp add: sys_write_def lookup_def write_turn_def end_turn_def desc_write_def)
  assume w: "write_attempt bytes 0 nonblock False q = (Returns n, q')" "0 < n"
  let ?k = "(retain d k)\<lparr>pipes := set_slot p (Some q') (pipes k)\<rparr>"
  have "epolls (retain d k) = epolls k" using d by (simp add: retain_eq)
  then have "pipe_changed p ?k = ?k"
    using idle quiet_epolls [of ?k k p] by (intro pipe_changed_quiet) simp
  moreover have "release d ?k = set_pipe p q' k"
    using release_retain [of "set_pipe p q' k" d x] d by (simp add: retain_pipes set_pipe_def)
  ultimately show "sys_write fd bytes k = (Done (Inr (int n)), set_pipe p q' k)"
    using w d b r small
    by (simp add: sys_write_def lookup_def write_turn_def end_turn_def desc_write_def)
qed

lemma sys_read_pipe:
  assumes e: "pipe_end (PipeRead p) nonblock fd p q k" and c: "0 < count" "count \<le> 4096"
    and idle: "quiet p k"
  shows "read_attempt count nonblock False q = (Returns xs, q') \<Longrightarrow> xs \<noteq> [] \<Longrightarrow>
      sys_read fd count k = (Done (Inr xs), set_pipe p q' k)"
    and "read_attempt count nonblock False q = (Fails err, q') \<Longrightarrow>
      sys_read fd count k = (Done (Inl (vfsErrno (pipeError err))), k)"
proof -
  obtain d x where d: "\<not> bad_index fd" "deref (pipes k) p = Some q" "e_desc (entry_of k fd) = Some d"
    "deref (descriptions k) d = Some x" "1 \<le> refs x" "dobject x = PipeRead p" "st_nonblock (dstatus x) = nonblock"
    "st_read (dstatus x)" using e by (auto simp: pipe_end_def)
  have m: "min count 4096 = count" using c by simp
  have r: "deref (descriptions (retain d k)) d = Some (x\<lparr>refs := refs x + 1\<rparr>)" "pipes (retain d k) = pipes k"
    using d by (auto simp: retain_eq deref_set_slot deref_Some)
  show "sys_read fd count k = (Done (Inl (vfsErrno (pipeError err))), k)"
    if "read_attempt count nonblock False q = (Fails err, q')"
    using that d c m r release_retain [OF d(4,5)]
    by (simp add: sys_read_def lookup_def read_turn_def end_turn_def desc_read_def)
  assume w: "read_attempt count nonblock False q = (Returns xs, q')" "xs \<noteq> []"
  let ?k = "(retain d k)\<lparr>pipes := set_slot p (Some q') (pipes k)\<rparr>"
  have "epolls (retain d k) = epolls k" using d by (simp add: retain_eq)
  then have "pipe_changed p ?k = ?k"
    using idle quiet_epolls [of ?k k p] by (intro pipe_changed_quiet) simp
  moreover have "release d ?k = set_pipe p q' k"
    using release_retain [of "set_pipe p q' k" d x] d by (simp add: retain_pipes set_pipe_def)
  ultimately show "sys_read fd count k = (Done (Inr xs), set_pipe p q' k)"
    using w d c m r
    by (simp add: sys_read_def lookup_def read_turn_def end_turn_def desc_read_def)
qed


text \<open>Reading the flags of an open descriptor changes nothing.\<close>

lemma getfl_open:
  "\<not> bad_index fd \<Longrightarrow> e_desc (entry_of k fd) = Some d \<Longrightarrow> deref (descriptions k) d = Some x \<Longrightarrow> 1 \<le> refs x \<Longrightarrow>
    fcntl_getfl fd k = (Inr (dstatus x), k)"
  by (simp add: fcntl_getfl_def with_desc_def lookup_def release_retain) (simp add: retain_eq deref_set_slot deref_Some)

lemma getfd_open:
  "\<not> bad_index fd \<Longrightarrow> e_desc (entry_of k fd) = Some d \<Longrightarrow> deref (descriptions k) d = Some x \<Longrightarrow> 1 \<le> refs x \<Longrightarrow>
    fcntl_getfd fd k = (Inr (e_cloexec (entry_of k fd)), k)"
  by (simp add: fcntl_getfd_def with_desc_def lookup_def retain_eq release_taken cloexecOf_def errno_of_def entry_of_def)

end
