(* ===== verification/Probe.thy ===== *)
theory Probe
  imports KSyscall
begin

text \<open>
  What the test programs under \<open>userland/bin\<close> have in common: a chain of system calls and
  \<open>CHECK\<close>s, each of which ends the program with a message when its condition fails. A program
  that makes a call which never returns hangs.
\<close>

datatype run = Pass kernel | Fail string | Hang

definition CHECK :: "bool \<Rightarrow> string \<Rightarrow> run \<Rightarrow> run" where
  "CHECK condition what rest = (if condition then rest else Fail what)"

text \<open>A call that may wait, and one that cannot.\<close>

definition call :: "'a call \<times> kernel \<Rightarrow> (errno + 'a \<Rightarrow> kernel \<Rightarrow> run) \<Rightarrow> run" where
  "call rk f = (case rk of (Done r, k) \<Rightarrow> f r k | (Waiting _, _) \<Rightarrow> Hang)"

definition sysc :: "'a \<times> kernel \<Rightarrow> ('a \<Rightarrow> kernel \<Rightarrow> run) \<Rightarrow> run" where
  "sysc rk f = (case rk of (r, k) \<Rightarrow> f r k)"

text \<open>\<open>CHECK(pipe(p) == 0, what)\<close> and the like: the value, or failure.\<close>

definition CHECKED :: "(errno + 'a) \<times> kernel \<Rightarrow> string \<Rightarrow> ('a \<Rightarrow> kernel \<Rightarrow> run) \<Rightarrow> run" where
  "CHECKED rk what f = (case rk of (Inl _, _) \<Rightarrow> Fail what | (Inr x, k) \<Rightarrow> f x k)"

definition next_section :: "run \<Rightarrow> (kernel \<Rightarrow> run) \<Rightarrow> run" where
  "next_section r f = (case r of Pass k \<Rightarrow> f k | _ \<Rightarrow> r)"

text \<open>A result used as a number, and tested for a flag: -1 has every bit set.\<close>

definition number :: "errno + int \<Rightarrow> int" where
  "number r = (case r of Inl _ \<Rightarrow> -1 | Inr n \<Rightarrow> n)"

definition flag_set :: "errno + 'a \<Rightarrow> ('a \<Rightarrow> bool) \<Rightarrow> bool" where
  "flag_set r flag = (case r of Inl _ \<Rightarrow> True | Inr x \<Rightarrow> flag x)"

text \<open>A blocking read beside another thread, which runs before the read or, when the read waits,
  during it. Both results.\<close>

definition read_beside ::
  "bool \<Rightarrow> int \<Rightarrow> int \<Rightarrow> (kernel \<Rightarrow> 'b \<times> kernel) \<Rightarrow> kernel \<Rightarrow> (u8 list call \<times> 'b) \<times> kernel" where
  "read_beside before fd room thread k =
     (if before then
        let (t, k1) = thread k; (r, k2) = sys_read fd room k1 in ((r, t), k2)
      else
        let (r, k1) = sys_read fd room k; (t, k2) = thread k1
        in case r of
             Waiting d \<Rightarrow> let (r', k3) = read_turn d room k2 in ((r', t), k3)
           | Done _ \<Rightarrow> ((r, t), k2))"

definition ascii :: "string \<Rightarrow> u8 list" where
  "ascii s = map of_char s"

text \<open>A program starts with the console at 0, 1 and 2. The disk holds \<open>/etc/motd\<close>
  (\<open>scripts/mkdisk.sh\<close>) and the program \<open>/bin/spawn-child\<close>, of whose file only the start is given.\<close>

definition MOTD :: "u8 list" where
  "MOTD = ascii ''Welcome to Orange OS.'' @ [10]"

definition console_description :: description where
  "console_description = \<lparr>refs = 1, dstatus = plain_status True True False, dobject = Console\<rparr>"

text \<open>\<open>/tmp\<close> is empty, with room for eight more inodes, and there is no data disk.\<close>

definition empty_root :: "volname \<Rightarrow> inode" where
  "empty_root v = no_inode\<lparr>in_dir := True, in_id := 1, in_vol := v, in_refs := 1, in_linked := True\<rparr>"

definition start_files :: fsys where
  "start_files =
     \<lparr>disk = [([], \<lparr>nd_ino = 1, nd_data = [], nd_dir = True\<rparr>), (''/etc'', \<lparr>nd_ino = 2, nd_data = [], nd_dir = True\<rparr>),
        (''/etc/motd'', \<lparr>nd_ino = 3, nd_data = MOTD, nd_dir = False\<rparr>),
        (''/bin'', \<lparr>nd_ino = 4, nd_data = [], nd_dir = True\<rparr>),
        (''/bin/spawn-child'', \<lparr>nd_ino = 5, nd_data = [0x7F, 0x45, 0x4C, 0x46], nd_dir = False\<rparr>)],
      tmp = \<lparr>inodes = [Some (empty_root TmpVol), Some (empty_root DataVol)] @ replicate 8 None,
        tmp_vol = \<lparr>v_root = 0, v_used = 0, v_quota = 1000, v_persistent = False, v_dirty = False\<rparr>,
        data_vol = \<lparr>v_root = 1, v_used = 0, v_quota = 0, v_persistent = False, v_dirty = False\<rparr>,
        next_id = 2, free_frames = 4000\<rparr>\<rparr>"

definition start_kernel :: "nat \<Rightarrow> kernel" where
  "start_kernel objects =
     \<lparr>descriptions = replicate 3 (Some console_description) @ replicate 297 None,
      pipes = replicate objects None, eventfds = replicate objects None, epolls = replicate objects None,
      sockets = replicate objects None,
      table = map (\<lambda>d. \<lparr>e_desc = Some d, e_cloexec = False\<rparr>) [0, 1, 2] @ replicate 253 \<lparr>e_desc = None, e_cloexec = False\<rparr>,
      fsys = start_files, rlocks = no_locks, owner_pid = 7, cwd = ''/'', tasks = [], next_pid = 8\<rparr>"

text \<open>The same kernel state, but for the contents of pipes that exist in neither.\<close>

definition same_kernel :: "kernel \<Rightarrow> kernel \<Rightarrow> bool" where
  "same_kernel k k' \<longleftrightarrow>
     descriptions k = descriptions k' \<and> table k = table k' \<and> eventfds k = eventfds k' \<and> epolls k = epolls k' \<and>
     sockets k = sockets k' \<and> fsys k = fsys k' \<and> rlocks k = rlocks k' \<and> owner_pid k = owner_pid k' \<and> cwd k = cwd k' \<and> tasks k = tasks k' \<and>
     next_pid k = next_pid k' \<and> length (pipes k) = length (pipes k') \<and>
     list_all (\<lambda>p. p = None) (map (map_option (\<lambda>_. ())) (pipes k)) \<and> list_all (\<lambda>p. p = None) (map (map_option (\<lambda>_. ())) (pipes k'))"

definition passes_to :: "kernel \<Rightarrow> run \<Rightarrow> bool" where
  "passes_to k r = (case r of Pass k' \<Rightarrow> same_kernel k' k | _ \<Rightarrow> False)"

lemma all_free_eq:
  "list_all (\<lambda>p. p = None) (map (map_option (\<lambda>_. ())) xs) \<Longrightarrow> list_all (\<lambda>p. p = None) (map (map_option (\<lambda>_. ())) ys) \<Longrightarrow>
    length xs = length ys \<Longrightarrow> xs = ys"
  by (induction xs ys rule: list_induct2') auto

lemma passes_toD: "passes_to k r \<Longrightarrow> r = Pass k"
  unfolding passes_to_def same_kernel_def
  by (cases r) (auto intro!: kernel.equality dest: all_free_eq)

text \<open>Runs that no property tells apart are the same: the way to compute with runs, whose kernel
  states hold functions.\<close>

lemma same_run:
  fixes a b :: run
  shows "(\<And>P :: run \<Rightarrow> bool. P a = P b) \<Longrightarrow> a = b"
  by blast

end
