(* ===== verification/PipeProbe.thy ===== *)
theory PipeProbe
  imports Probe
begin

text \<open>
  \<open>userland/bin/pipe-probe/probe.c\<close>: the sections of its \<open>main\<close> that one thread runs, over the
  kernel's descriptors. Its 1 MiB stream and its concurrent record writers are in
  \<open>PipeThreads\<close>.
\<close>

section \<open>The program\<close>

definition pipe_basics :: "kernel \<Rightarrow> run" where
  "pipe_basics k =
     CHECKED (sys_pipe2 False False k) ''pipe'' (\<lambda>(p0, p1) k.
     CHECKED (sys_fstat p0 k) ''fstat reports a FIFO'' (\<lambda>(size, kind) k.
     CHECK (kind = KPipeKind) ''fstat reports a FIFO'' (
     call (sys_write p1 (ascii ''hello'') k) (\<lambda>w k. CHECK (w = Inr 5) ''round trip'' (
     call (sys_read p0 4096 k) (\<lambda>r k. CHECK (r = Inr (ascii ''hello'')) ''round trip'' (
     sysc (sys_lseek p0 0 SEEK_SET k) (\<lambda>l k. CHECK (l = Inl ESPIPE) ''lseek on a pipe is ESPIPE'' (
     sysc (sys_close p1 k) (\<lambda>c k. CHECK (c = Inr ()) ''end of file'' (
     call (sys_read p0 4096 k) (\<lambda>r k. CHECK (r = Inr []) ''end of file'' (
     sysc (sys_close p0 k) (\<lambda>_ k. Pass k))))))))))))))"

definition pipe_epipe :: "kernel \<Rightarrow> run" where
  "pipe_epipe k =
     CHECKED (sys_pipe2 False False k) ''second pipe'' (\<lambda>(p0, p1) k.
     sysc (sys_close p0 k) (\<lambda>c k. CHECK (c = Inr ()) ''second pipe'' (
     call (sys_write p1 (ascii ''x'') k) (\<lambda>w k. CHECK (w = Inl EPIPE) ''EPIPE with no reader'' (
     sysc (sys_close p1 k) (\<lambda>_ k. Pass k))))))"

text \<open>Writing a block until the pipe refuses it: the bytes written and the error. \<open>None\<close>: it does
  not end.\<close>

partial_function (option) fill_loop :: "int \<Rightarrow> u8 list \<Rightarrow> int \<Rightarrow> kernel \<Rightarrow> (int \<times> errno \<times> kernel) option" where
  "fill_loop fd block capacity k =
     (case sys_write fd block k of
        (Done (Inl e), k1) \<Rightarrow> Some (capacity, e, k1)
      | (Done (Inr w), k1) \<Rightarrow> fill_loop fd block (capacity + w) k1
      | (Waiting _, _) \<Rightarrow> None)"

partial_function (option) drain_loop :: "int \<Rightarrow> int \<Rightarrow> kernel \<Rightarrow> (int \<times> kernel) option" where
  "drain_loop fd drained k =
     (case sys_read fd 4096 k of
        (Done (Inl e), k1) \<Rightarrow> Some (drained, k1)
      | (Done (Inr xs), k1) \<Rightarrow>
          if xs = [] then Some (drained, k1) else drain_loop fd (drained + int (length xs)) k1
      | (Waiting _, _) \<Rightarrow> None)"

definition pipe_nonblocking :: "kernel \<Rightarrow> run" where
  "pipe_nonblocking k =
     CHECKED (sys_pipe2 True True k) ''pipe2'' (\<lambda>(p0, p1) k.
     sysc (fcntl_getfl p0 k) (\<lambda>fl k. CHECK (flag_set fl st_nonblock) ''pipe2 flags'' (
     sysc (fcntl_getfd p0 k) (\<lambda>c k. CHECK (flag_set c (\<lambda>c. c)) ''pipe2 flags'' (
     call (sys_read p0 1 k) (\<lambda>r k. CHECK (r = Inl EAGAIN) ''EAGAIN on empty'' (
     case fill_loop p1 (replicate 4096 0x5c) 0 k of
       None \<Rightarrow> Hang
     | Some (capacity, e, k) \<Rightarrow>
         CHECK (e = EAGAIN \<and> capacity = 65536) ''a full pipe holds 64 KiB'' (
         case drain_loop p0 0 k of
           None \<Rightarrow> Hang
         | Some (drained, k) \<Rightarrow>
             CHECK (drained = capacity) ''drain'' (
             sysc (sys_close p0 k) (\<lambda>_ k. sysc (sys_close p1 k) (\<lambda>_ k. Pass k)))))))))))"

definition u64_bytes :: "int \<Rightarrow> u8 list" where
  "u64_bytes v = le_bytes 8 v"

definition read_value :: "errno + u8 list \<Rightarrow> int \<Rightarrow> bool" where
  "read_value r v = (case r of Inl _ \<Rightarrow> False | Inr bytes \<Rightarrow> length bytes = 8 \<and> of_le bytes = v)"

definition eventfd_counter :: "kernel \<Rightarrow> run" where
  "eventfd_counter k =
     sysc (sys_eventfd 3 False False False k) (\<lambda>r k. let e = number r in
     CHECK (e \<ge> 0) ''eventfd initial value'' (
     call (sys_read e 8 k) (\<lambda>r k. CHECK (read_value r 3) ''eventfd initial value'' (
     call (sys_write e (u64_bytes 5) k) (\<lambda>w k. CHECK (w = Inr 8) ''eventfd add'' (
     call (sys_write e (u64_bytes 7) k) (\<lambda>w k. CHECK (w = Inr 8) ''eventfd sums writes'' (
     call (sys_read e 8 k) (\<lambda>r k. CHECK (read_value r 12) ''eventfd sums writes'' (
     sysc (fcntl_setfl e False True k) (\<lambda>c k. CHECK (c = Inr ()) ''eventfd nonblocking'' (
     call (sys_read e 8 k) (\<lambda>r k. CHECK (r = Inl EAGAIN) ''eventfd empty'' (
     sysc (sys_close e k) (\<lambda>_ k. Pass k)))))))))))))))"

definition eventfd_semaphore :: "kernel \<Rightarrow> run" where
  "eventfd_semaphore k =
     sysc (sys_eventfd 2 True True False k) (\<lambda>r k. let e = number r in
     call (sys_read e 8 k) (\<lambda>r k. CHECK (read_value r 1) ''semaphore reads'' (
     call (sys_read e 8 k) (\<lambda>r k. CHECK (read_value r 1) ''semaphore reads'' (
     call (sys_read e 8 k) (\<lambda>r k. CHECK (r = Inl EAGAIN) ''semaphore exhausted'' (
     sysc (sys_close e k) (\<lambda>_ k. Pass k))))))))"

text \<open>\<open>delayed_writer\<close>: its result is whether it returned \<open>NULL\<close>.\<close>

definition delayed_writer :: "int \<Rightarrow> kernel \<Rightarrow> bool \<times> kernel" where
  "delayed_writer delayed_fd k =
     (case sys_write delayed_fd (u64_bytes 1) k of (w, k1) \<Rightarrow> (w = Done (Inr 8), k1))"

definition eventfd_wake :: "bool \<Rightarrow> kernel \<Rightarrow> run" where
  "eventfd_wake before k =
     sysc (sys_eventfd 0 False False False k) (\<lambda>r k. let delayed_fd = number r in
     case read_beside before delayed_fd 8 (delayed_writer delayed_fd) k of
       ((Waiting _, _), _) \<Rightarrow> Hang
     | ((Done r, joined), k) \<Rightarrow>
         CHECK (read_value r 1) ''blocking eventfd read woken'' (
         CHECK joined ''eventfd writer'' (
         sysc (sys_close delayed_fd k) (\<lambda>_ k. Pass k))))"

definition dup_family :: "kernel \<Rightarrow> run" where
  "dup_family k =
     sysc (sys_open ''/etc/motd'' O_RDONLY k) (\<lambda>f k. let file = number f in
     sysc (sys_dup file k) (\<lambda>c k. let copy = number c in
     CHECK (file \<ge> 3 \<and> copy > file) ''dup'' (
     call (sys_read file 5 k) (\<lambda>r k. CHECK (case r of Inr bs \<Rightarrow> length bs = 5 | _ \<Rightarrow> False) ''dup shares the offset'' (
     call (sys_read copy 5 k) (\<lambda>r k. CHECK (r = Inr (ascii ''me to'')) ''dup shares the offset'' (
     sysc (sys_dup2 file 100 False k) (\<lambda>r k. CHECK (r = Inr 100) ''dup2 to a chosen number'' (
     sysc (sys_lseek 100 0 SEEK_CUR k) (\<lambda>r k. CHECK (r = Inr 10) ''dup2 to a chosen number'' (
     sysc (sys_dup2 100 100 False k) (\<lambda>r k. CHECK (r = Inr 100) ''dup2 onto itself'' (
     sysc (sys_dup3 100 100 False k) (\<lambda>r k. CHECK (r = Inl EINVAL) ''dup3 onto itself is EINVAL'' (
     sysc (fcntl_dupfd file 50 True k) (\<lambda>h k. let high = number h in CHECK (high = 50) ''F_DUPFD_CLOEXEC'' (
     sysc (fcntl_getfd high k) (\<lambda>c k. CHECK (flag_set c (\<lambda>c. c)) ''F_DUPFD_CLOEXEC'' (
     sysc (fcntl_getfd file k) (\<lambda>c k. CHECK (\<not> flag_set c (\<lambda>c. c)) ''F_DUPFD_CLOEXEC'' (
     sysc (fcntl_setfd file True k) (\<lambda>r k. CHECK (r = Inr ()) ''close-on-exec is per descriptor'' (
     sysc (fcntl_getfd file k) (\<lambda>c k. CHECK (flag_set c (\<lambda>c. c)) ''close-on-exec is per descriptor'' (
     sysc (fcntl_getfd copy k) (\<lambda>c k. CHECK (\<not> flag_set c (\<lambda>c. c)) ''close-on-exec is per descriptor'' (
     CHECKED (sys_pipe2 False False k) ''status pipe'' (\<lambda>(p0, p1) k.
     sysc (sys_dup p0 k) (\<lambda>r k. let reader_copy = number r in
     sysc (fcntl_setfl p0 False True k) (\<lambda>r k. CHECK (r = Inr ()) ''status flags are shared'' (
     sysc (fcntl_getfl reader_copy k) (\<lambda>fl k. CHECK (flag_set fl st_nonblock) ''status flags are shared'' (
     call (sys_read reader_copy 1 k) (\<lambda>r k. CHECK (r = Inl EAGAIN) ''shared nonblocking'' (
     sysc (sys_close p1 k) (\<lambda>r k. CHECK (r = Inr ()) ''end of file through a duplicate'' (
     sysc (sys_close p0 k) (\<lambda>r k. CHECK (r = Inr ()) ''end of file through a duplicate'' (
     call (sys_read reader_copy 1 k) (\<lambda>r k. CHECK (r = Inr []) ''end of file through a duplicate'' (
     sysc (sys_close reader_copy k) (\<lambda>_ k.
     sysc (sys_dup 999 k) (\<lambda>r k. CHECK (r = Inl EBADF) ''bad descriptors'' (
     sysc (sys_close 999 k) (\<lambda>r k. CHECK (r \<noteq> Inr ()) ''bad descriptors'' (
     sysc (sys_close high k) (\<lambda>_ k. sysc (sys_close 100 k) (\<lambda>_ k. sysc (sys_close copy k) (\<lambda>_ k.
     sysc (sys_close file k) (\<lambda>_ k. Pass k))))))))))))))))))))))))))))))))))))))))))))))))))"

text \<open>Opening until it fails or \<open>n\<close> are open: the descriptors and the last result.\<close>

fun open_until_full :: "nat \<Rightarrow> kernel \<Rightarrow> int list \<times> (errno + int) \<times> kernel" where
  "open_until_full 0 k = ([], Inr 0, k)"
| "open_until_full (Suc n) k =
     (case sys_open ''/etc/motd'' O_RDONLY k of
        (Inl e, k1) \<Rightarrow> ([], Inl e, k1)
      | (Inr fd, k1) \<Rightarrow> let (fds, r, k2) = open_until_full n k1 in (fd # fds, r, k2))"

definition close_all :: "int list \<Rightarrow> kernel \<Rightarrow> kernel" where
  "close_all fds k = fold (\<lambda>fd k. snd (sys_close fd k)) fds k"

definition descriptor_limit :: "kernel \<Rightarrow> run" where
  "descriptor_limit k =
     (let (opened, r, k) = open_until_full 300 k; count = int (length opened) in
     CHECK (count > 240 \<and> count < 256 \<and> r = Inl EMFILE) ''EMFILE at the descriptor limit'' (
     sysc (sys_open ''/etc/motd'' O_RDONLY (close_all opened k)) (\<lambda>again k.
     CHECK (number again = 3) ''descriptors reused from the lowest'' (
     sysc (sys_close (number again) k) (\<lambda>_ k. Pass k)))))"

definition pipe_main :: "bool \<Rightarrow> kernel \<Rightarrow> run" where
  "pipe_main before k =
     next_section (next_section (next_section (next_section (next_section (next_section (next_section
       (pipe_basics k) pipe_epipe) pipe_nonblocking) eventfd_counter) eventfd_semaphore) (eventfd_wake before))
       dup_family) descriptor_limit"

section \<open>It passes\<close>

abbreviation K0 :: kernel where "K0 \<equiv> start_kernel 4"

lemma pipe_basics_passes: "pipe_basics K0 = Pass K0"
  by (rule passes_toD) code_simp

lemma pipe_epipe_passes: "pipe_epipe K0 = Pass K0"
  by (rule passes_toD) code_simp

lemma eventfd_counter_passes: "eventfd_counter K0 = Pass K0"
  by (rule passes_toD) code_simp

lemma eventfd_semaphore_passes: "eventfd_semaphore K0 = Pass K0"
  by (rule passes_toD) code_simp

lemma eventfd_wake_passes: "eventfd_wake before K0 = Pass K0"
proof (cases before)
  case True
  have "eventfd_wake True K0 = Pass K0" by (rule passes_toD) code_simp
  then show ?thesis using True by simp
next
  case False
  have "eventfd_wake False K0 = Pass K0" by (rule passes_toD) code_simp
  then show ?thesis using False by simp
qed

lemma dup_family_passes: "dup_family K0 = Pass K0"
  by (rule passes_toD) code_simp


text \<open>Filling and draining a nonblocking pipe.\<close>

lemma fill_loop_result:
  assumes "pipe_end (PipeWrite p) True fd p q k" "pipe_ok q" "0 < readers q" "quiet p k"
    "length block = 4096" "len q = CAPACITY - int n * 4096"
  shows "\<exists>q'. fill_loop fd block c k = Some (c + int n * 4096, EAGAIN, set_pipe p q' k) \<and> pipe_ok q' \<and>
    len q' = CAPACITY \<and> head q' = head q \<and> readers q' = readers q \<and> writers q' = writers q"
  using assms
proof (induction n arbitrary: q k c)
  case 0
  have b: "block \<noteq> []" "0 < length block" "length block \<le> 4096" using 0(5) by auto
  have "\<not> accepts block 0 q" using 0(5,6) by (simp add: accepts_def ATOMIC_WRITE_def)
  from write_attempt_refused [OF b(2) this, of True False] 0(3)
  have w: "write_attempt block 0 True False q = (Fails PWouldBlock, q)" by (simp add: prod_eq_iff)
  have "sys_write fd block k = (Done (Inl EAGAIN), k)"
    using sys_write_pipe(2) [OF 0(1) b(1,3) 0(4) w] by simp
  moreover have "set_pipe p q k = k" using 0(1) by (simp add: set_pipe_def pipe_end_def deref_Some)
  ultimately show ?case using 0 by (subst fill_loop.simps) (auto intro!: exI [of _ q])
next
  case (Suc n)
  have b: "block \<noteq> []" "0 < length block" "length block \<le> 4096" using Suc(6) by auto
  have "accepts block 0 q" using Suc.prems b by (simp add: accepts_def ATOMIC_WRITE_def CAPACITY_def)
  moreover have "min (nat (CAPACITY - len q)) (length block - 0) = 4096" using Suc.prems by simp
  ultimately obtain q1 where q1: "write_attempt block 0 True False q = (Returns 4096, q1)" "pipe_ok q1"
    "contents q1 = contents q @ block" "readers q1 = readers q" "writers q1 = writers q"
    using write_attempt_accepted [OF Suc(3) b(2), of True False] Suc(6) by auto
  have h: "head q1 = head q" using write_attempt_head [of block 0 True False q] q1(1) by simp
  have "int (length (contents q1)) = int (length (contents q)) + 4096" using q1(3) Suc(6) by simp
  then have l: "len q1 = CAPACITY - int n * 4096"
    using q1(2) Suc(3,7) by (simp add: length_contents pipe_ok_def)
  let ?k = "set_pipe p q1 k"
  have w: "sys_write fd block k = (Done (Inr 4096), ?k)"
    using sys_write_pipe(1) [OF Suc(2) b(1,3) Suc(5) q1(1)] by simp
  have e: "quiet p ?k" using Suc(5) by simp
  from Suc.IH [OF pipe_end_set_pipe [OF Suc(2)] q1(2) _ e Suc(6) l, of "c + 4096"] Suc(4) q1 h
  obtain q2 where "fill_loop fd block (c + 4096) ?k = Some (c + 4096 + int n * 4096, EAGAIN, set_pipe p q2 ?k)"
    "pipe_ok q2" "len q2 = CAPACITY" "head q2 = head q" "readers q2 = readers q" "writers q2 = writers q" by auto
  moreover have "set_pipe p q2 ?k = set_pipe p q2 k" by (simp add: set_pipe_def)
  ultimately show ?case using w by (subst fill_loop.simps) (auto simp: algebra_simps intro!: exI [of _ q2])
qed

lemma drain_loop_result:
  assumes "pipe_end (PipeRead p) True fd p q k" "pipe_ok q" "0 < writers q" "quiet p k"
    "len q = int n * 4096"
  shows "\<exists>q'. drain_loop fd c k = Some (c + int n * 4096, set_pipe p q' k) \<and> pipe_ok q' \<and>
    len q' = 0 \<and> head q' = (head q + int n * 4096) mod CAPACITY \<and> readers q' = readers q \<and> writers q' = writers q"
  using assms
proof (induction n arbitrary: q k c)
  case 0
  then have "read_attempt 4096 True False q = (Fails PWouldBlock, q)" by (simp add: read_attempt_def)
  then have "sys_read fd 4096 k = (Done (Inl EAGAIN), k)"
    using sys_read_pipe(2) [OF 0(1) _ _ 0(4)] by simp
  moreover have "set_pipe p q k = k" using 0(1) by (simp add: set_pipe_def pipe_end_def deref_Some)
  ultimately show ?case using 0 by (subst drain_loop.simps) (auto simp: pipe_ok_def intro!: exI [of _ q])
next
  case (Suc n)
  obtain q1 where q1: "read_attempt 4096 True False q = (Returns (take 4096 (contents q)), q1)"
    "contents q1 = drop 4096 (contents q)" "pipe_ok q1" "readers q1 = readers q" "writers q1 = writers q"
    using read_attempt_contents [OF Suc(3), of 4096 True False] Suc(6) by auto
  have h: "head q1 = (head q + 4096) mod CAPACITY"
    using read_attempt_head [of 4096 q True False] q1(1) Suc(6) by simp
  have full: "length (contents q) = Suc n * 4096" using Suc(6) by (simp add: length_contents nat_mult_distrib)
  have ne: "take 4096 (contents q) \<noteq> []" "length (take 4096 (contents q)) = 4096" using full by auto
  have "length (contents q1) = n * 4096" using full q1(2) by simp
  then have "nat (len q1) = n * 4096" by (simp add: length_contents)
  moreover have "0 \<le> len q1" using q1(3) by (simp add: pipe_ok_def)
  ultimately have l: "len q1 = int n * 4096" by linarith
  let ?k = "set_pipe p q1 k"
  have w: "sys_read fd 4096 k = (Done (Inr (take 4096 (contents q))), ?k)"
    using sys_read_pipe(1) [OF Suc(2) _ _ Suc(5) q1(1) ne(1)] by simp
  have e: "quiet p ?k" using Suc(5) by simp
  from Suc.IH [OF pipe_end_set_pipe [OF Suc(2)] q1(3) _ e l, of "c + 4096"] Suc(4) q1 h
  obtain q2 where "drain_loop fd (c + 4096) ?k = Some (c + 4096 + int n * 4096, set_pipe p q2 ?k)"
    "pipe_ok q2" "len q2 = 0" "head q2 = (head q + 4096 + int n * 4096) mod CAPACITY" "readers q2 = readers q" "writers q2 = writers q" by (auto simp: mod_simps)
  moreover have "set_pipe p q2 ?k = set_pipe p q2 k" by (simp add: set_pipe_def)
  ultimately show ?case
    using w ne by (subst drain_loop.simps) (auto simp: algebra_simps intro!: exI [of _ q2])
qed


text \<open>Creating a pipe when there is room: what the new kernel state is.\<close>

definition reader_desc :: "ptr \<Rightarrow> bool \<Rightarrow> description" where
  "reader_desc p nonblock = \<lparr>refs = 1, dstatus = plain_status True False nonblock, dobject = PipeRead p\<rparr>"

definition writer_desc :: "ptr \<Rightarrow> bool \<Rightarrow> description" where
  "writer_desc p nonblock = \<lparr>refs = 1, dstatus = plain_status False True nonblock, dobject = PipeWrite p\<rparr>"

lemma createPipe_room:
  assumes "first_free (pipes k) 0 = Some p" "first_free (descriptions k) 0 = Some r"
    "first_free (set_slot r (Some (reader_desc p nonblock)) (descriptions k)) 0 = Some w"
    "free_entry (table k) 0 0 = Some a"
    "free_entry (set_slot a \<lparr>e_desc = Some r, e_cloexec = cloexec\<rparr> (table k)) 0 0 = Some b"
  shows "createPipe nonblock cloexec k =
    (Inr (a, b), k\<lparr>pipes := set_slot p (Some pipe_create) (pipes k),
      descriptions := set_slot w (Some (writer_desc p nonblock)) (set_slot r (Some (reader_desc p nonblock)) (descriptions k)),
      table := set_slot b \<lparr>e_desc = Some w, e_cloexec = cloexec\<rparr> (set_slot a \<lparr>e_desc = Some r, e_cloexec = cloexec\<rparr> (table k))\<rparr>)"
  using assms
  by (simp add: createPipe_def desc_create_def install_def MAX_OPEN_def Let_def reader_desc_def writer_desc_def)

definition K1 :: kernel where
  "K1 = K0\<lparr>pipes := set_slot 0 (Some pipe_create) (pipes K0),
     descriptions := set_slot 4 (Some (writer_desc 0 True)) (set_slot 3 (Some (reader_desc 0 True)) (descriptions K0)),
     table := set_slot 4 \<lparr>e_desc = Some 4, e_cloexec = True\<rparr> (set_slot 3 \<lparr>e_desc = Some 3, e_cloexec = True\<rparr> (table K0))\<rparr>"

lemma pipe2_K1: "sys_pipe2 True True K0 = (Inr (3, 4), K1)"
proof -
  have "first_free (pipes K0) 0 = Some 0" "first_free (descriptions K0) 0 = Some 3"
    "first_free (set_slot 3 (Some (reader_desc 0 True)) (descriptions K0)) 0 = Some 4"
    "free_entry (table K0) 0 0 = Some 3"
    "free_entry (set_slot 3 \<lparr>e_desc = Some 3, e_cloexec = True\<rparr> (table K0)) 0 0 = Some 4" by code_simp+
  from createPipe_room [OF this] show ?thesis by (simp add: sys_pipe2_def errno_of_def K1_def)
qed

lemma closing_K1:
  "passes_to K0 (sysc (sys_close 3 (K1\<lparr>pipes := [Some \<lparr>buffer = b, head = h, len = 0, readers = 1, writers = 1\<rparr>, None, None, None]\<rparr>))
     (\<lambda>_ k. sysc (sys_close 4 k) (\<lambda>_ k. Pass k)))"
  by code_simp

lemma K1_table: "\<not> bad_index 3" "\<not> bad_index 4" "e_desc (entry_of K1 3) = Some 3" "e_cloexec (entry_of K1 3)"
  "e_desc (entry_of K1 4) = Some 4"
  by code_simp+

lemma K1_descriptions: "deref (descriptions K1) 3 = Some (reader_desc 0 True)"
  "deref (descriptions K1) 4 = Some (writer_desc 0 True)"
  by code_simp+

lemma K1_pipes: "pipes K1 = [Some pipe_create, None, None, None]"
proof -
  have "pipes K0 = [None, None, None, None]" by (simp add: start_kernel_def numeral_eq_Suc)
  then show ?thesis by (simp add: K1_def)
qed

lemma K1_ends: "pipe_end (PipeRead 0) True 3 0 pipe_create K1" "pipe_end (PipeWrite 0) True 4 0 pipe_create K1"
  using K1_table K1_descriptions K1_pipes
  by (auto simp: pipe_end_def deref_def reader_desc_def writer_desc_def plain_status_def)

lemma K1_idle: "quiet 0 K1"
  by code_simp

lemma set_pipe_K1: "set_pipe 0 q (set_pipe 0 q' K1) = K1\<lparr>pipes := [Some q, None, None, None]\<rparr>"
  by (simp add: set_pipe_def K1_pipes)

lemma pipe_nonblocking_passes: "pipe_nonblocking K0 = Pass K0"
proof -
  have fl: "fcntl_getfl 3 K1 = (Inr (plain_status True False True), K1)" "fcntl_getfd 3 K1 = (Inr True, K1)"
    using getfl_open [OF K1_table(1,3) K1_descriptions(1)] getfd_open [OF K1_table(1,3) K1_descriptions(1)] K1_table(4)
    by (simp_all add: reader_desc_def)
  have "read_attempt 1 True False pipe_create = (Fails PWouldBlock, pipe_create)"
    by (simp add: read_attempt_def pipe_create_def)
  from sys_read_pipe(2) [OF K1_ends(1) _ _ K1_idle this]
  have r: "sys_read 3 1 K1 = (Done (Inl EAGAIN), K1)" by simp
  obtain q1 where q1: "fill_loop 4 (replicate 4096 0x5c) 0 K1 = Some (65536, EAGAIN, set_pipe 0 q1 K1)" "pipe_ok q1"
    "len q1 = CAPACITY" "readers q1 = 1" "writers q1 = 1"
    using fill_loop_result [OF K1_ends(2) contents_create(2) _ K1_idle, of "replicate 4096 0x5c" 16 0]
    by (auto simp: pipe_create_def CAPACITY_def)
  have e: "quiet 0 (set_pipe 0 q1 K1)" using K1_idle by simp
  obtain q2 where q2: "drain_loop 3 0 (set_pipe 0 q1 K1) = Some (65536, set_pipe 0 q2 (set_pipe 0 q1 K1))"
    "len q2 = 0" "readers q2 = 1" "writers q2 = 1"
    using drain_loop_result [OF pipe_end_set_pipe [OF K1_ends(1)] q1(2) _ e, of 16 0] q1 by (auto simp: CAPACITY_def)
  have "q2 = \<lparr>buffer = buffer q2, head = head q2, len = 0, readers = 1, writers = 1\<rparr>" using q2(2-4) by (cases q2) simp
  with closing_K1 [of "buffer q2" "head q2"]
  have "sysc (sys_close 3 (K1\<lparr>pipes := [Some q2, None, None, None]\<rparr>)) (\<lambda>_ k. sysc (sys_close 4 k) (\<lambda>_ k. Pass k)) = Pass K0"
    using passes_toD by metis
  then show ?thesis
    using pipe2_K1 fl r q1(1) q2(1)
    by (simp add: pipe_nonblocking_def CHECKED_def CHECK_def call_def sysc_def flag_set_def plain_status_def set_pipe_K1)
qed

section \<open>The descriptor limit\<close>

text \<open>The kernel with descriptors \<open>3 + a\<close> to \<open>3 + b - 1\<close> open on \<open>/etc/motd\<close>.\<close>

definition motd_desc :: description where
  "motd_desc = \<lparr>refs = 1, dstatus = \<lparr>st_read = True, st_write = False, st_append = False, st_nonblock = False\<rparr>,
     dobject = NodeFile \<lparr>nf_node = Citrus \<lparr>nd_ino = 3, nd_data = MOTD, nd_dir = False\<rparr>, nf_offset = 0, nf_path = None\<rparr>\<rparr>"

definition no_entry :: entry where "no_entry = \<lparr>e_desc = None, e_cloexec = False\<rparr>"

definition an_entry :: "int \<Rightarrow> entry" where "an_entry d = \<lparr>e_desc = Some d, e_cloexec = False\<rparr>"

definition holding :: "nat \<Rightarrow> nat \<Rightarrow> kernel" where
  "holding a b = K0\<lparr>
     descriptions := replicate 3 (Some console_description) @ replicate a None @ replicate (b - a) (Some motd_desc) @
       replicate (297 - b) None,
     table := map an_entry [0, 1, 2] @ replicate a no_entry @ map (\<lambda>i. an_entry (int i + 3)) [a..<b] @
       replicate (253 - b) no_entry\<rparr>"

lemma holding_none: "a \<le> 253 \<Longrightarrow> holding a a = K0"
  by (simp add: holding_def start_kernel_def an_entry_def [abs_def] no_entry_def flip: replicate_add)

lemma open_motd:
  assumes "first_free (descriptions k) 0 = Some d" "fsys k = start_files"
  shows "sys_open ''/etc/motd'' O_RDONLY k =
    errno_of (install_new d 0 False (k\<lparr>descriptions := set_slot d (Some motd_desc) (descriptions k)\<rparr>))"
proof -
  have n: "normalize ''/etc/motd'' = Inr ''/etc/motd''" by code_simp
  have o: "openNode ''/etc/motd'' O_RDONLY start_files =
    (Inr (Citrus \<lparr>nd_ino = 3, nd_data = MOTD, nd_dir = False\<rparr>), start_files)" by code_simp
  have same: "k\<lparr>fsys := start_files\<rparr> = k" using assms(2) by (intro kernel.equality) auto
  show ?thesis
    using assms
    by (simp add: sys_open_def with_path_def copyPath_def absolutePath_def MAX_PATH_def fd_open_def n o desc_create_def motd_desc_def same)
      (simp add: O_RDONLY_def)
qed

lemma holding_first_free:
  assumes "b < 297"
  shows "first_free (descriptions (holding 0 b)) 0 = Some (int b + 3)"
    "set_slot (int b + 3) x (descriptions (holding 0 b)) =
      replicate 3 (Some console_description) @ replicate b (Some motd_desc) @ x # replicate (296 - b) None"
proof -
  let ?pre = "replicate 3 (Some console_description) @ replicate b (Some motd_desc)"
  have d: "descriptions (holding 0 b) = ?pre @ None # replicate (296 - b) None"
    using assms by (simp add: holding_def Suc_diff_le [symmetric] flip: replicate_Suc)
  have l: "int (length ?pre) = int b + 3" by simp
  have "list_all (\<lambda>x. x \<noteq> None) ?pre" by (simp add: list_all_iff)
  from first_free_append [OF this, of "None # replicate (296 - b) None" 0]
  show "first_free (descriptions (holding 0 b)) 0 = Some (int b + 3)" using d l by simp
  show "set_slot (int b + 3) x (descriptions (holding 0 b)) =
      replicate 3 (Some console_description) @ replicate b (Some motd_desc) @ x # replicate (296 - b) None"
    using set_slot_append [of ?pre x None "replicate (296 - b) None"] d l by (simp add: add.commute)
qed


lemma holding_fields [simp]: "fsys (holding a b) = start_files" "rlocks (holding a b) = no_locks" "owner_pid (holding a b) = 7" "pipes (holding a b) = pipes K0"
  "eventfds (holding a b) = eventfds K0" "epolls (holding a b) = epolls K0" "sockets (holding a b) = sockets K0"
  "cwd (holding a b) = cwd K0" "tasks (holding a b) = tasks K0" "next_pid (holding a b) = next_pid K0"
  by (simp_all add: holding_def start_kernel_def)

lemma holding_table:
  assumes "b \<le> 253"
  shows "free_entry (table (holding 0 b)) 0 0 = (if b = 253 then None else Some (int b + 3))"
    "b < 253 \<Longrightarrow> set_slot (int b + 3) e (table (holding 0 b)) =
      map an_entry [0, 1, 2] @ map (\<lambda>i. an_entry (int i + 3)) [0..<b] @ e # replicate (252 - b) no_entry"
proof -
  let ?pre = "map an_entry [0, 1, 2] @ map (\<lambda>i. an_entry (int i + 3)) [0..<b]"
  have t: "table (holding 0 b) = ?pre @ replicate (253 - b) no_entry" by (simp add: holding_def)
  have l: "int (length ?pre) = int b + 3" by simp
  have used: "list_all (\<lambda>e. e_desc e \<noteq> None) ?pre" by (simp add: list_all_iff an_entry_def)
  have rest: "replicate (253 - b) no_entry = no_entry # replicate (252 - b) no_entry" if "b < 253"
    using that by (simp add: Suc_diff_le [symmetric] flip: replicate_Suc)
  show "free_entry (table (holding 0 b)) 0 0 = (if b = 253 then None else Some (int b + 3))"
    using free_entry_append [OF used, of "replicate (253 - b) no_entry" 0 0] t l rest assms
    by (simp add: no_entry_def add.commute)
  show "set_slot (int b + 3) e (table (holding 0 b)) =
      map an_entry [0, 1, 2] @ map (\<lambda>i. an_entry (int i + 3)) [0..<b] @ e # replicate (252 - b) no_entry" if "b < 253"
    using set_slot_append [of ?pre e no_entry "replicate (252 - b) no_entry"] t l rest [OF that] by (simp add: add.commute)
qed

lemma holding_open:
  "b < 253 \<Longrightarrow> sys_open ''/etc/motd'' O_RDONLY (holding 0 b) = (Inr (int b + 3), holding 0 (Suc b))"
  "sys_open ''/etc/motd'' O_RDONLY (holding 0 253) = (Inl EMFILE, holding 0 253)"
proof -
  have o: "sys_open ''/etc/motd'' O_RDONLY (holding 0 b) = errno_of (install_new (int b + 3) 0 False
      ((holding 0 b)\<lparr>descriptions := set_slot (int b + 3) (Some motd_desc) (descriptions (holding 0 b))\<rparr>))" if "b < 297" for b
    by (rule open_motd) (use holding_first_free(1) [OF that] in simp_all)
  show "sys_open ''/etc/motd'' O_RDONLY (holding 0 b) = (Inr (int b + 3), holding 0 (Suc b))" if b: "b < 253"
  proof -
    have "(holding 0 b)\<lparr>descriptions := set_slot (int b + 3) (Some motd_desc) (descriptions (holding 0 b)),
        table := set_slot (int b + 3) (an_entry (int b + 3)) (table (holding 0 b))\<rparr> = holding 0 (Suc b)"
      using b holding_first_free(2) [of b "Some motd_desc"] holding_table(2) [of b "an_entry (int b + 3)"]
      by (intro kernel.equality) (simp_all add: holding_def replicate_append_same flip: replicate_Suc)
    then show ?thesis
      using b o [of b] holding_table(1) [of b]
      by (simp add: install_new_def install_def MAX_OPEN_def errno_of_def an_entry_def)
  qed
  show "sys_open ''/etc/motd'' O_RDONLY (holding 0 253) = (Inl EMFILE, holding 0 253)"
  proof -
    let ?k = "(holding 0 253)\<lparr>descriptions := set_slot 256 (Some motd_desc) (descriptions (holding 0 253))\<rparr>"
    have none: "slot (descriptions (holding 0 253)) 256 = Some None"
      using first_free_bounds [OF holding_first_free(1) [of 253]] by simp
    then have "release 256 ?k = holding 0 253"
      by (simp add: release_def Let_def deref_set_slot description_locks_none) (simp add: motd_desc_def Let_def)
    then show ?thesis
      using o [of 253] holding_table(1) [of 253] by (simp add: install_new_def install_def MAX_OPEN_def errno_of_def)
  qed
qed

lemma holding_close:
  assumes "a < b" "b \<le> 253"
  shows "sys_close (int a + 3) (holding a b) = (Inr (), holding (Suc a) b)"
proof -
  let ?d = "replicate 3 (Some console_description) @ replicate a None"
  let ?t = "map an_entry [0, 1, 2] @ replicate a no_entry"
  have d: "descriptions (holding a b) = ?d @ Some motd_desc # replicate (b - Suc a) (Some motd_desc) @ replicate (297 - b) None"
    using assms by (simp add: holding_def Suc_diff_Suc [symmetric])
  have t: "table (holding a b) = ?t @ an_entry (int a + 3) # map (\<lambda>i. an_entry (int i + 3)) [Suc a..<b] @ replicate (253 - b) no_entry"
    using assms by (simp add: holding_def upt_conv_Cons)
  have l: "int (length ?d) = int a + 3" "int (length ?t) = int a + 3" by simp_all
  have "slot (table (holding a b)) (int a + 3) = Some (an_entry (int a + 3))"
    "slot (descriptions (holding a b)) (int a + 3) = Some (Some motd_desc)"
    using slot_append [of ?t "an_entry (int a + 3) # map (\<lambda>i. an_entry (int i + 3)) [Suc a..<b] @ replicate (253 - b) no_entry"]
      slot_append [of ?d "Some motd_desc # replicate (b - Suc a) (Some motd_desc) @ replicate (297 - b) None"] d t l
    by (simp_all add: add.commute)
  moreover have "descriptions (holding (Suc a) b) = ?d @ None # replicate (b - Suc a) (Some motd_desc) @ replicate (297 - b) None"
    "table (holding (Suc a) b) = ?t @ no_entry # map (\<lambda>i. an_entry (int i + 3)) [Suc a..<b] @ replicate (253 - b) no_entry"
    by (simp_all add: holding_def replicate_app_Cons_same)
  then have "set_slot (int a + 3) None (descriptions (holding a b)) = descriptions (holding (Suc a) b)"
    "set_slot (int a + 3) no_entry (table (holding a b)) = table (holding (Suc a) b)"
    unfolding d t using set_slot_append [of ?d None "Some motd_desc"] set_slot_append [of ?t no_entry "an_entry (int a + 3)"] l
    by (simp_all add: add.commute)
  moreover have "\<not> bad_index (int a + 3)" using assms by (simp add: bad_index_def MAX_OPEN_def)
  ultimately show ?thesis
    by (simp add: sys_close_def fd_close_def errno_of_def entry_of_def an_entry_def release_def deref_def motd_desc_def no_entry_def
        closedLocks_none description_locks_none Let_def)
qed


lemma open_until_full_holding:
  "b \<le> 253 \<Longrightarrow> 253 - b < n \<Longrightarrow>
    open_until_full n (holding 0 b) = (map (\<lambda>i. int i + 3) [b..<253], Inl EMFILE, holding 0 253)"
proof (induction n arbitrary: b)
  case (Suc n)
  show ?case
  proof (cases "b = 253")
    case True
    then show ?thesis by (simp add: holding_open(2))
  next
    case False
    then have "b < 253" using Suc.prems by simp
    with Suc.IH [of "Suc b"] Suc.prems show ?thesis by (simp add: holding_open(1) upt_conv_Cons)
  qed
qed simp

lemma close_all_holding:
  "a \<le> b \<Longrightarrow> b \<le> 253 \<Longrightarrow> close_all (map (\<lambda>i. int i + 3) [a..<b]) (holding a b) = K0"
proof (induction "b - a" arbitrary: a)
  case 0
  then show ?case by (simp add: close_all_def holding_none)
next
  case (Suc n)
  then have "a < b" by simp
  then have "close_all (map (\<lambda>i. int i + 3) [a..<b]) (holding a b) =
      close_all (map (\<lambda>i. int i + 3) [Suc a..<b]) (holding (Suc a) b)"
    using Suc.prems by (simp add: close_all_def upt_conv_Cons holding_close)
  also have "\<dots> = K0" using Suc \<open>a < b\<close> by (intro Suc(1)) auto
  finally show ?case .
qed

lemma descriptor_limit_passes: "descriptor_limit K0 = Pass K0"
proof -
  have o: "open_until_full 300 K0 = (map (\<lambda>i. int i + 3) [0..<253], Inl EMFILE, holding 0 253)"
    using open_until_full_holding [of 0 300] holding_none [of 0] by simp
  have c: "close_all (map (\<lambda>i. int i + 3) [0..<253]) (holding 0 253) = K0"
    by (rule close_all_holding) simp_all
  have "sys_open ''/etc/motd'' O_RDONLY K0 = (Inr 3, holding 0 1)" "sys_close 3 (holding 0 1) = (Inr (), K0)"
    using holding_open(1) [of 0] holding_close [of 0 1] holding_none [of 0] holding_none [of 1] by simp_all
  then show ?thesis
    by (simp add: descriptor_limit_def o c CHECK_def sysc_def number_def Let_def)
qed

text \<open>C17: On this kernel the probe passes: every check of its single-threaded sections holds, with the
  writer thread of the blocking eventfd read running before or during that read, no call hangs,
  and the kernel ends as it began, so no descriptor, description or pipe leaks.\<close>

theorem pipe_probe_passes: "pipe_main before (start_kernel 4) = Pass (start_kernel 4)"
  by (simp add: pipe_main_def next_section_def pipe_basics_passes pipe_epipe_passes pipe_nonblocking_passes
      eventfd_counter_passes eventfd_semaphore_passes eventfd_wake_passes dup_family_passes descriptor_limit_passes)

end
