(* ===== verification/EpollProbe.thy ===== *)
theory EpollProbe
  imports PipeProbe
begin

text \<open>
  \<open>userland/bin/epoll-probe/probe.c\<close> over the kernel's epoll: its level-triggered,
  edge-triggered and oneshot sections, errors, \<open>EPOLLOUT\<close> following the space in a pipe,
  \<open>EPOLLHUP\<close> and \<open>EPOLLERR\<close>, removal on close, waits woken by another thread, timeouts, \<open>poll\<close>
  and \<open>select\<close>. The eventfd pump is in \<open>EventThreads\<close>.
\<close>

unbundle bit_operations_syntax

section \<open>The program\<close>

definition wait_one :: "int \<Rightarrow> int \<Rightarrow> kernel \<Rightarrow> (u32 \<times> int) list call \<times> kernel" where
  "wait_one ep timeout k = sys_epoll_wait ep 1 timeout k"

text \<open>A wait that slept, taken up again.\<close>

definition wait_resumed :: "ptr \<Rightarrow> int \<Rightarrow> int \<Rightarrow> bool \<Rightarrow> kernel \<Rightarrow> (u32 \<times> int) list call \<times> kernel" where
  "wait_resumed d room timeout expired k =
     (case map_option dobject (deref (descriptions k) d) of
        Some (EpollObj ep) \<Rightarrow> wait_turn d ep room timeout expired k
      | _ \<Rightarrow> (Waiting d, k))"

text \<open>A wait of one event beside another thread, which runs before the wait or during it.\<close>

definition wait_beside ::
  "bool \<Rightarrow> int \<Rightarrow> int \<Rightarrow> (kernel \<Rightarrow> 'b \<times> kernel) \<Rightarrow> kernel \<Rightarrow> ((u32 \<times> int) list call \<times> 'b) \<times> kernel" where
  "wait_beside before ep timeout thread k =
     (if before then
        let (t, k1) = thread k; (r, k2) = wait_one ep timeout k1 in ((r, t), k2)
      else
        let (r, k1) = wait_one ep timeout k; (t, k2) = thread k1
        in case r of
             Waiting d \<Rightarrow> let (r', k3) = wait_resumed d 1 timeout False k2 in ((r', t), k3)
           | Done _ \<Rightarrow> ((r, t), k2))"

text \<open>A wait during which nothing happens until its deadline.\<close>

definition wait_timed :: "int \<Rightarrow> int \<Rightarrow> kernel \<Rightarrow> (u32 \<times> int) list call \<times> kernel" where
  "wait_timed ep timeout k =
     (case wait_one ep timeout k of
        (Waiting d, k1) \<Rightarrow> wait_resumed d 1 timeout True k1
      | r \<Rightarrow> r)"

definition late_writer :: "int \<Rightarrow> kernel \<Rightarrow> bool \<times> kernel" where
  "late_writer late_fd k = (case sys_write late_fd (ascii ''!'') k of (w, k1) \<Rightarrow> (w = Done (Inr 1), k1))"

text \<open>\<open>wait_one(...) == n\<close>, and \<open>read(...) == n\<close>.\<close>

definition waited :: "errno + (u32 \<times> int) list \<Rightarrow> nat \<Rightarrow> bool" where
  "waited r n = (case r of Inl _ \<Rightarrow> False | Inr out \<Rightarrow> length out = n)"

definition got_bytes :: "errno + u8 list \<Rightarrow> nat \<Rightarrow> bool" where
  "got_bytes r n = (case r of Inl _ \<Rightarrow> False | Inr bytes \<Rightarrow> length bytes = n)"

definition got_event :: "errno + (u32 \<times> int) list \<Rightarrow> (u32 \<Rightarrow> int \<Rightarrow> bool) \<Rightarrow> bool" where
  "got_event r P = (case r of Inr [(events, udata)] \<Rightarrow> P events udata | _ \<Rightarrow> False)"

definition epoll_level :: "int \<Rightarrow> int \<Rightarrow> int \<Rightarrow> kernel \<Rightarrow> run" where
  "epoll_level ep a0 a1 k =
     sysc (sys_epoll_ctl ep EPOLL_CTL_ADD a0 EPOLLIN 0xabcdef0123 k) (\<lambda>r k. CHECK (r = Inr ()) ''add'' (
     call (wait_one ep 0 k) (\<lambda>r k. CHECK (waited r 0) ''nothing ready yet'' (
     call (sys_write a1 (ascii ''x'') k) (\<lambda>w k. CHECK (w = Inr 1) ''readable with its data'' (
     call (wait_one ep 0 k) (\<lambda>r k.
     CHECK (got_event r (\<lambda>events udata. events = EPOLLIN \<and> udata = 0xabcdef0123)) ''readable with its data'' (
     call (wait_one ep 0 k) (\<lambda>r k. CHECK (waited r 1) ''level-triggered repeats'' (
     call (sys_read a0 1 k) (\<lambda>r k. CHECK (got_bytes r 1) ''drained'' (
     call (wait_one ep 0 k) (\<lambda>r k. CHECK (waited r 0) ''drained'' (Pass k))))))))))))))"

definition epoll_errors :: "int \<Rightarrow> int \<Rightarrow> int \<Rightarrow> kernel \<Rightarrow> run" where
  "epoll_errors ep a0 a1 k =
     sysc (sys_epoll_ctl ep EPOLL_CTL_ADD a0 EPOLLIN 0xabcdef0123 k) (\<lambda>r k. CHECK (r = Inl EEXIST) ''EEXIST'' (
     sysc (sys_epoll_ctl ep EPOLL_CTL_DEL a1 0 0 k) (\<lambda>r k. CHECK (r = Inl ENOENT) ''ENOENT'' (
     sysc (sys_open ''/etc/motd'' O_RDONLY k) (\<lambda>f k. let file = number f in
     sysc (sys_epoll_ctl ep EPOLL_CTL_ADD file EPOLLIN 0xabcdef0123 k) (\<lambda>r k.
     CHECK (r = Inl EPERM) ''EPERM for a regular file'' (
     sysc (sys_epoll_ctl file EPOLL_CTL_ADD a0 EPOLLIN 0xabcdef0123 k) (\<lambda>r k.
     CHECK (r = Inl EINVAL) ''EINVAL for a non-epoll descriptor'' (
     sysc (sys_epoll_ctl ep EPOLL_CTL_ADD ep EPOLLIN 0xabcdef0123 k) (\<lambda>r k. CHECK (r = Inl EINVAL) ''EINVAL for itself'' (
     sysc (sys_close file k) (\<lambda>_ k.
     sysc (sys_epoll_ctl ep EPOLL_CTL_DEL a0 0 0 k) (\<lambda>r k. CHECK (r = Inr ()) ''delete'' (Pass k))))))))))))))"

definition epoll_edge :: "int \<Rightarrow> int \<Rightarrow> int \<Rightarrow> kernel \<Rightarrow> run" where
  "epoll_edge ep a0 a1 k =
     sysc (sys_epoll_ctl ep EPOLL_CTL_ADD a0 (EPOLLIN OR EPOLLET) a0 k) (\<lambda>r k. CHECK (r = Inr ()) ''add edge-triggered'' (
     call (sys_write a1 (ascii ''x'') k) (\<lambda>w k. CHECK (w = Inr 1) ''edge reported'' (
     call (wait_one ep 0 k) (\<lambda>r k. CHECK (got_event r (\<lambda>_ udata. udata = a0)) ''edge reported'' (
     call (wait_one ep 0 k) (\<lambda>r k. CHECK (waited r 0) ''edge not repeated'' (
     call (sys_write a1 (ascii ''y'') k) (\<lambda>w k. CHECK (w = Inr 1) ''new edge reported'' (
     call (wait_one ep 0 k) (\<lambda>r k. CHECK (waited r 1) ''new edge reported'' (
     call (sys_read a0 2 k) (\<lambda>r k. CHECK (got_bytes r 2) ''drain edge'' (Pass k))))))))))))))"

definition epoll_oneshot :: "int \<Rightarrow> int \<Rightarrow> int \<Rightarrow> kernel \<Rightarrow> run" where
  "epoll_oneshot ep a0 a1 k =
     sysc (sys_epoll_ctl ep EPOLL_CTL_MOD a0 (EPOLLIN OR EPOLLONESHOT) a0 k) (\<lambda>r k. CHECK (r = Inr ()) ''mod to oneshot'' (
     call (sys_write a1 (ascii ''z'') k) (\<lambda>w k. CHECK (w = Inr 1) ''oneshot fires once'' (
     call (wait_one ep 0 k) (\<lambda>r k. CHECK (waited r 1) ''oneshot fires once'' (
     call (wait_one ep 0 k) (\<lambda>r k. CHECK (waited r 0) ''oneshot fires once'' (
     sysc (sys_epoll_ctl ep EPOLL_CTL_MOD a0 (EPOLLIN OR EPOLLONESHOT) a0 k) (\<lambda>r k. CHECK (r = Inr ()) ''re-armed'' (
     call (wait_one ep 0 k) (\<lambda>r k. CHECK (waited r 1) ''re-armed'' (
     call (sys_read a0 1 k) (\<lambda>r k. CHECK (got_bytes r 1) ''clean up oneshot'' (
     sysc (sys_epoll_ctl ep EPOLL_CTL_DEL a0 0 0 k) (\<lambda>r k. CHECK (r = Inr ()) ''clean up oneshot'' (Pass k))))))))))))))))"

text \<open>\<open>while (write(...) > 0) {}\<close>; the two reading loops, the second with the error that ended it.\<close>

partial_function (option) write_while :: "int \<Rightarrow> u8 list \<Rightarrow> kernel \<Rightarrow> kernel option" where
  "write_while fd block k =
     (case sys_write fd block k of
        (Done (Inl e), k1) \<Rightarrow> Some k1
      | (Done (Inr w), k1) \<Rightarrow> if w > 0 then write_while fd block k1 else Some k1
      | (Waiting _, _) \<Rightarrow> None)"

partial_function (option) read_while_unwritable :: "int \<Rightarrow> int \<Rightarrow> kernel \<Rightarrow> kernel option" where
  "read_while_unwritable ep fd k =
     (case sys_read fd 4096 k of
        (Done r, k1) \<Rightarrow>
          if got_bytes r 4096 then
            case wait_one ep 0 k1 of
              (Done e, k2) \<Rightarrow> if waited e 0 then read_while_unwritable ep fd k2 else Some k2
            | (Waiting _, _) \<Rightarrow> None
          else Some k1
      | (Waiting _, _) \<Rightarrow> None)"

partial_function (option) read_while :: "int \<Rightarrow> kernel \<Rightarrow> (errno option \<times> kernel) option" where
  "read_while fd k =
     (case sys_read fd 4096 k of
        (Done (Inl e), k1) \<Rightarrow> Some (Some e, k1)
      | (Done (Inr xs), k1) \<Rightarrow> if xs = [] then Some (None, k1) else read_while fd k1
      | (Waiting _, _) \<Rightarrow> None)"

definition epoll_out :: "int \<Rightarrow> int \<Rightarrow> int \<Rightarrow> kernel \<Rightarrow> run" where
  "epoll_out ep a0 a1 k =
     sysc (fcntl_setfl a1 False True k) (\<lambda>r k. CHECK (r = Inr ()) ''nonblocking writer'' (
     sysc (sys_epoll_ctl ep EPOLL_CTL_ADD a1 EPOLLOUT a1 k) (\<lambda>r k. CHECK (r = Inr ()) ''writable'' (
     call (wait_one ep 0 k) (\<lambda>r k. CHECK (got_event r (\<lambda>events _. events = EPOLLOUT)) ''writable'' (
     case write_while a1 (replicate 4096 1) k of None \<Rightarrow> Hang | Some k \<Rightarrow>
     call (wait_one ep 0 k) (\<lambda>r k. CHECK (waited r 0) ''full pipe not writable'' (
     case read_while_unwritable ep a0 k of None \<Rightarrow> Hang | Some k \<Rightarrow>
     call (wait_one ep 0 k) (\<lambda>r k. CHECK (waited r 1) ''writable again after draining'' (
     sysc (sys_epoll_ctl ep EPOLL_CTL_DEL a1 0 0 k) (\<lambda>r k. CHECK (r = Inr ()) ''delete writer'' (
     sysc (fcntl_setfl a0 False True k) (\<lambda>r k. CHECK (r = Inr ()) ''nonblocking drain'' (
     case read_while a0 k of None \<Rightarrow> Hang | Some (e, k) \<Rightarrow>
     CHECK (e = Some EAGAIN) ''drained'' (
     sysc (fcntl_setfl a0 False False k) (\<lambda>r k. CHECK (r = Inr ()) ''drained'' (Pass k)))))))))))))))))"

definition epoll_hangup :: "int \<Rightarrow> kernel \<Rightarrow> run" where
  "epoll_hangup ep k =
     CHECKED (sys_pipe2 False False k) ''hangup pipe'' (\<lambda>(b0, b1) k.
     sysc (sys_epoll_ctl ep EPOLL_CTL_ADD b0 EPOLLIN b0 k) (\<lambda>r k. CHECK (r = Inr ()) ''writer closed'' (
     sysc (sys_close b1 k) (\<lambda>r k. CHECK (r = Inr ()) ''writer closed'' (
     call (wait_one ep 0 k) (\<lambda>r k.
     CHECK (got_event r (\<lambda>events _. events AND EPOLLHUP \<noteq> 0 \<and> events AND EPOLLIN \<noteq> 0)) ''EPOLLHUP after the last writer'' (
     sysc (sys_close b0 k) (\<lambda>r k. CHECK (r = Inr ()) ''close hangup reader'' (
     CHECKED (sys_pipe2 False False k) ''error pipe'' (\<lambda>(b0, b1) k.
     sysc (sys_epoll_ctl ep EPOLL_CTL_ADD b1 EPOLLOUT b1 k) (\<lambda>r k. CHECK (r = Inr ()) ''reader closed'' (
     sysc (sys_close b0 k) (\<lambda>r k. CHECK (r = Inr ()) ''reader closed'' (
     call (wait_one ep 0 k) (\<lambda>r k. CHECK (got_event r (\<lambda>events _. events AND EPOLLERR \<noteq> 0)) ''EPOLLERR after the last reader'' (
     sysc (sys_close b1 k) (\<lambda>r k. CHECK (r = Inr ()) ''close error writer'' (Pass k))))))))))))))))))"

definition epoll_removal :: "int \<Rightarrow> kernel \<Rightarrow> run" where
  "epoll_removal ep k =
     call (wait_one ep 0 k) (\<lambda>r k. CHECK (waited r 0) ''closed interests are gone'' (
     CHECKED (sys_pipe2 False False k) ''reuse pipe'' (\<lambda>(b0, b1) k.
     sysc (sys_epoll_ctl ep EPOLL_CTL_ADD b0 EPOLLIN b0 k) (\<lambda>r k. CHECK (r = Inr ()) ''reused number is a new interest'' (
     sysc (sys_close b0 k) (\<lambda>_ k. sysc (sys_close b1 k) (\<lambda>_ k. Pass k)))))))"

text \<open>The milliseconds the program measures around its waits are parameters.\<close>

definition epoll_blocking :: "bool \<Rightarrow> int \<Rightarrow> int \<Rightarrow> int \<Rightarrow> int \<Rightarrow> int \<Rightarrow> kernel \<Rightarrow> run" where
  "epoll_blocking before woken_ms timed_ms ep a0 a1 k =
     sysc (fcntl_setfl a1 False False k) (\<lambda>r k. CHECK (r = Inr ()) ''blocking writer'' (
     sysc (sys_epoll_ctl ep EPOLL_CTL_ADD a0 EPOLLIN a0 k) (\<lambda>r k. CHECK (r = Inr ()) ''add for blocking wait'' (
     case wait_beside before ep (-1) (late_writer a1) k of
       ((Waiting _, _), _) \<Rightarrow> Hang
     | ((Done r, joined), k) \<Rightarrow>
     CHECK (waited r 1 \<and> woken_ms \<ge> 25) ''blocking wait woken'' (
     CHECK joined ''late writer done'' (
     call (sys_read a0 1 k) (\<lambda>r k. CHECK (got_bytes r 1) ''late writer done'' (
     call (wait_timed ep 50 k) (\<lambda>r k. CHECK (waited r 0 \<and> timed_ms \<ge> 45) ''timeout'' (
     sysc (sys_epoll_ctl ep EPOLL_CTL_DEL a0 0 0 k) (\<lambda>r k. CHECK (r = Inr ()) ''delete blocking'' (Pass k))))))))))))"

definition poll_section :: "bool \<Rightarrow> int \<Rightarrow> int \<Rightarrow> int \<Rightarrow> kernel \<Rightarrow> run" where
  "poll_section before polled_ms a0 a1 k =
     CHECK (sys_poll [(a0, EPOLLIN), (a1, EPOLLOUT), (999, EPOLLIN)] 0 False k = Some (2, [0, EPOLLOUT, POLLNVAL])) ''poll snapshot'' (
     let (joined, k1) = late_writer a1 k;
         first = (if before then None else sys_poll [(a0, EPOLLIN)] (-1) False k);
         polled = (case first of Some r \<Rightarrow> Some r | None \<Rightarrow> sys_poll [(a0, EPOLLIN)] (-1) False k1)
     in case polled of None \<Rightarrow> Hang | Some r \<Rightarrow>
     CHECK (r = (1, [EPOLLIN])) ''blocking poll woken'' (
     call (sys_read a0 1 k1) (\<lambda>r k. CHECK (got_bytes r 1) ''poll writer done'' (
     case sys_poll [] 20 True k of None \<Rightarrow> Hang | Some r \<Rightarrow>
     CHECK (fst r = 0 \<and> polled_ms \<ge> 15) ''poll as a sleep'' (Pass k)))))"

definition select_section :: "int \<Rightarrow> int \<Rightarrow> kernel \<Rightarrow> run" where
  "select_section a0 a1 k =
     (case sys_select (a0 + 1) [a0] 0 False k of None \<Rightarrow> Hang | Some r \<Rightarrow>
     CHECK (r = Inr (0, [])) ''select nothing'' (
     call (sys_write a1 (ascii ''s'') k) (\<lambda>w k. CHECK (w = Inr 1) ''select data'' (
     case sys_select (a0 + 1) [a0] 1000 False k of None \<Rightarrow> Hang | Some r \<Rightarrow>
     CHECK (r = Inr (1, [a0])) ''select readable'' (
     call (sys_read a0 1 k) (\<lambda>r k. CHECK (got_bytes r 1) ''select cleanup'' (
     sysc (sys_close a1 k) (\<lambda>r k. CHECK (r = Inr ()) ''select cleanup'' (
     case sys_poll [(a0, EPOLLIN)] 0 False k of None \<Rightarrow> Hang | Some r \<Rightarrow>
     CHECK (fst r = 1 \<and> hd (snd r) AND EPOLLHUP \<noteq> 0) ''POLLHUP after the writer closes'' (
     sysc (sys_close a0 k) (\<lambda>_ k. Pass k)))))))))))"


definition epoll_main :: "bool \<Rightarrow> bool \<Rightarrow> int \<Rightarrow> int \<Rightarrow> int \<Rightarrow> kernel \<Rightarrow> run" where
  "epoll_main before before' woken_ms timed_ms polled_ms k =
     sysc (sys_epoll_create1 True k) (\<lambda>r k. let ep = number r in
     CHECK (ep \<ge> 0) ''epoll_create1'' (
     sysc (fcntl_getfd ep k) (\<lambda>c k. CHECK (flag_set c (\<lambda>c. c)) ''epoll_create1'' (
     CHECKED (sys_pipe2 False False k) ''pipe'' (\<lambda>(a0, a1) k.
     next_section (next_section (next_section (next_section (next_section (next_section (next_section (next_section (next_section (next_section
       (epoll_level ep a0 a1 k) (epoll_errors ep a0 a1)) (epoll_edge ep a0 a1)) (epoll_oneshot ep a0 a1)) (epoll_out ep a0 a1))
       (epoll_hangup ep)) (epoll_removal ep)) (epoll_blocking before woken_ms timed_ms ep a0 a1))
       (poll_section before' polled_ms a0 a1)) (select_section a0 a1))
       (\<lambda>k. sysc (sys_close ep k) (\<lambda>_ k. Pass k)))))))"

section \<open>It passes\<close>

text \<open>A kernel with room for nine more descriptions.\<close>

definition epoll_kernel :: kernel where
  "epoll_kernel = (start_kernel 4)\<lparr>descriptions := replicate 3 (Some console_description) @ replicate 9 None\<rparr>"

text \<open>The kernel between sections: the epoll instance with its interests, and the pipe with the
  state of its two ends (nonblocking or not) and its ring (head, length).\<close>

record config =
  rn :: bool
  wn :: bool
  hd_pos :: int
  used :: int
  ints :: "interest list"

definition base :: "config \<Rightarrow> (int \<Rightarrow> u8) \<Rightarrow> kernel" where
  "base c b =
     epoll_kernel\<lparr>
       descriptions := set_slot 5 (Some (writer_desc 0 (wn c))) (set_slot 4 (Some (reader_desc 0 (rn c)))
         (set_slot 3 (Some \<lparr>refs = 1, dstatus = plain_status True False False, dobject = EpollObj 0\<rparr>)
           (descriptions epoll_kernel))),
       table := set_slot 5 \<lparr>e_desc = Some 5, e_cloexec = False\<rparr> (set_slot 4 \<lparr>e_desc = Some 4, e_cloexec = False\<rparr>
         (set_slot 3 \<lparr>e_desc = Some 3, e_cloexec = True\<rparr> (table epoll_kernel))),
       pipes := [Some \<lparr>buffer = b, head = hd_pos c, len = used c, readers = 1, writers = 1\<rparr>, None, None, None],
       epolls := [Some (ints c), None, None, None]\<rparr>"

definition at_base :: "config \<Rightarrow> kernel \<Rightarrow> bool" where
  "at_base c k \<longleftrightarrow>
     (let k0 = base c (\<lambda>_. 0) in
     descriptions k = descriptions k0 \<and> table k = table k0 \<and>
     eventfds k = eventfds k0 \<and> fsys k = fsys k0 \<and>
     rlocks k = rlocks k0 \<and> owner_pid k = owner_pid k0 \<and>
     cwd k = cwd k0 \<and> tasks k = tasks k0 \<and> next_pid k = next_pid k0 \<and>
     epolls k = [Some (ints c), None, None, None] \<and> sockets k = sockets k0 \<and>
     map (map_option (\<lambda>_. ())) (pipes k) = [Some (), None, None, None] \<and>
     (case hd (pipes k) of Some q \<Rightarrow> head q = hd_pos c \<and> len q = used c \<and> readers q = 1 \<and> writers q = 1 | None \<Rightarrow> False))"

lemma at_baseD:
  assumes "at_base c k"
  shows "\<exists>b. k = base c b"
proof -
  obtain q where q: "pipes k = [Some q, None, None, None]" "head q = hd_pos c" "len q = used c" "readers q = 1" "writers q = 1"
    using assms by (auto simp: at_base_def Let_def map_eq_Cons_conv split: option.splits)
  have "q = \<lparr>buffer = buffer q, head = hd_pos c, len = used c, readers = 1, writers = 1\<rparr>" using q by (cases q) simp
  then have "k = base c (buffer q)"
    using assms q by (intro kernel.equality) (auto simp: at_base_def Let_def base_def)
  then show ?thesis by blast
qed

definition reaches :: "config \<Rightarrow> run \<Rightarrow> bool" where
  "reaches c r = (case r of Pass k \<Rightarrow> at_base c k | _ \<Rightarrow> False)"

lemma reachesD: "reaches c r \<Longrightarrow> \<exists>b. r = Pass (base c b)"
  using at_baseD by (auto simp: reaches_def split: run.splits)

definition steps_to :: "'a \<Rightarrow> config \<Rightarrow> 'a \<times> kernel \<Rightarrow> bool" where
  "steps_to x c r = (case r of (y, k) \<Rightarrow> y = x \<and> at_base c k)"

lemma steps_toD: "steps_to x c r \<Longrightarrow> \<exists>b. r = (x, base c b)"
  using at_baseD by (auto simp: steps_to_def)

definition watch :: "int \<Rightarrow> bool \<Rightarrow> u32 \<Rightarrow> int \<Rightarrow> interest" where
  "watch n writer events udata = \<lparr>i_number = n, i_desc = n, i_source = Some (PipeSource 0 writer), i_events = events,
     i_data = udata, i_pending = True, i_disabled = False\<rparr>"

abbreviation cfg :: "bool \<Rightarrow> bool \<Rightarrow> int \<Rightarrow> int \<Rightarrow> interest list \<Rightarrow> config" where
  "cfg a b h l is \<equiv> \<lparr>rn = a, wn = b, hd_pos = h, used = l, ints = is\<rparr>"

abbreviation level_watch :: interest where "level_watch \<equiv> watch 4 False EPOLLIN 0xabcdef0123"
abbreviation edge_watch :: interest where "edge_watch \<equiv> watch 4 False (EPOLLIN OR EPOLLET) 4"
abbreviation out_watch :: interest where "out_watch \<equiv> watch 5 True EPOLLOUT 5"

lemma level_passes: "reaches (cfg False False 1 0 [level_watch]) (epoll_level 3 4 5 (base (cfg False False 0 0 []) b))"
  by code_simp

lemma errors_passes:
  "reaches (cfg False False 1 0 []) (epoll_errors 3 4 5 (base (cfg False False 1 0 [level_watch]) b))"
  by code_simp

lemma edge_passes: "reaches (cfg False False 3 0 [edge_watch]) (epoll_edge 3 4 5 (base (cfg False False 1 0 []) b))"
  by code_simp

lemma oneshot_passes: "reaches (cfg False False 4 0 []) (epoll_oneshot 3 4 5 (base (cfg False False 3 0 [edge_watch]) b))"
  by code_simp

lemma hangup_to_blocking_passes:
  "reaches (cfg False False 5 0 [])
     (next_section (next_section (epoll_hangup 3 (base (cfg False True 4 0 []) b)) (epoll_removal 3))
       (epoll_blocking True 30 50 3 4 5))"
  "reaches (cfg False False 5 0 [])
     (next_section (next_section (epoll_hangup 3 (base (cfg False True 4 0 []) b)) (epoll_removal 3))
       (epoll_blocking False 30 50 3 4 5))"
  by code_simp+

lemma poll_passes:
  "reaches (cfg False False 6 0 []) (poll_section True 20 4 5 (base (cfg False False 5 0 []) b))"
  "reaches (cfg False False 6 0 []) (poll_section False 20 4 5 (base (cfg False False 5 0 []) b))"
  by code_simp+

lemma select_passes:
  "passes_to epoll_kernel (next_section (select_section 4 5 (base (cfg False False 6 0 []) b)) (\<lambda>k. sysc (sys_close 3 k) (\<lambda>_ k. Pass k)))"
  by code_simp

text \<open>The steps of the \<open>EPOLLOUT\<close> section that do not loop.\<close>

lemma out_steps:
  "steps_to (Inr ()) (cfg False True 4 0 []) (fcntl_setfl 5 False True (base (cfg False False 4 0 []) b))"
  "steps_to (Inr ()) (cfg False True 4 0 [out_watch]) (sys_epoll_ctl 3 EPOLL_CTL_ADD 5 EPOLLOUT 5 (base (cfg False True 4 0 []) b))"
  "steps_to (Done (Inr [(EPOLLOUT, 5)])) (cfg False True 4 0 [out_watch]) (wait_one 3 0 (base (cfg False True 4 0 [out_watch]) b))"
  "steps_to (Done (Inr [])) (cfg False True 4 65536 [out_watch]) (wait_one 3 0 (base (cfg False True 4 65536 [out_watch]) b))"
  "steps_to (Done (Inr [(EPOLLOUT, 5)])) (cfg False True 4100 61440 [out_watch]) (wait_one 3 0 (base (cfg False True 4100 61440 [out_watch]) b))"
  "steps_to (Inr ()) (cfg False True 4100 61440 []) (sys_epoll_ctl 3 EPOLL_CTL_DEL 5 0 0 (base (cfg False True 4100 61440 [out_watch]) b))"
  "steps_to (Inr ()) (cfg True True 4100 61440 []) (fcntl_setfl 4 False True (base (cfg False True 4100 61440 []) b))"
  "steps_to (Inr ()) (cfg False True 4 0 []) (fcntl_setfl 4 False False (base (cfg True True 4 0 []) b))"
  by code_simp+

lemma start_passes:
  "fst (sys_epoll_create1 True epoll_kernel) = Inr 3"
  "fst (fcntl_getfd 3 (snd (sys_epoll_create1 True epoll_kernel))) = Inr True"
  "passes_to (snd (sys_epoll_create1 True epoll_kernel)) (Pass (snd (fcntl_getfd 3 (snd (sys_epoll_create1 True epoll_kernel)))))"
  "steps_to (Inr (4, 5)) (cfg False False 0 0 []) (sys_pipe2 False False (snd (sys_epoll_create1 True epoll_kernel)))"
  by code_simp+

lemma start_state:
  "\<exists>b k. sys_epoll_create1 True epoll_kernel = (Inr 3, k) \<and> fcntl_getfd 3 k = (Inr True, k) \<and>
    sys_pipe2 False False k = (Inr (4, 5), base (cfg False False 0 0 []) b)"
  using start_passes(1,2) passes_toD [OF start_passes(3)] steps_toD [OF start_passes(4)]
  by (metis prod.collapse run.inject(1))

lemma next_Pass: "next_section (Pass k) f = f k"
  by (simp add: next_section_def)

subsection \<open>The loops of the \<open>EPOLLOUT\<close> section\<close>

abbreviation ring :: "config \<Rightarrow> (int \<Rightarrow> u8) \<Rightarrow> pipe" where
  "ring c b \<equiv> \<lparr>buffer = b, head = hd_pos c, len = used c, readers = 1, writers = 1\<rparr>"

lemma base_pipes: "pipes (base c b) = [Some (ring c b), None, None, None]"
  by (simp add: base_def)

lemma base_table:
  "\<not> bad_index 4" "\<not> bad_index 5" "e_desc (entry_of (base c b) 4) = Some 4" "e_desc (entry_of (base c b) 5) = Some 5"
  by code_simp+

lemma base_descriptions:
  "deref (descriptions (base c b)) 4 = Some (reader_desc 0 (rn c))"
  "deref (descriptions (base c b)) 5 = Some (writer_desc 0 (wn c))"
  by code_simp+

lemma base_ends:
  "pipe_end (PipeRead 0) (rn c) 4 0 (ring c b) (base c b)" "pipe_end (PipeWrite 0) (wn c) 5 0 (ring c b) (base c b)"
  using base_table(1,2) base_table(3,4) [of c b] base_descriptions [of c b]
  by (auto simp: pipe_end_def base_pipes deref_def reader_desc_def writer_desc_def plain_status_def)

lemma set_pipe_base:
  "readers q = 1 \<Longrightarrow> writers q = 1 \<Longrightarrow> set_pipe 0 q (base c b) = base (c\<lparr>hd_pos := head q, used := len q\<rparr>) (buffer q)"
  by (cases q) (simp add: set_pipe_def base_def)

lemma quiet_base:
  "list_all i_pending (ints c) \<Longrightarrow> quiet 0 (base c b)"
  by (auto simp: quiet_def told_def base_def list_all_iff)

text \<open>One write of a block when there is room, and when there is none.\<close>

lemma write_block:
  assumes "wn c" "0 \<le> hd_pos c" "hd_pos c < CAPACITY" "0 \<le> used c" "list_all i_pending (ints c)" "length block = 4096"
  shows "used c + 4096 \<le> CAPACITY \<Longrightarrow> \<exists>b'. sys_write 5 block (base c b) = (Done (Inr 4096), base (c\<lparr>used := used c + 4096\<rparr>) b')"
    and "used c = CAPACITY \<Longrightarrow> sys_write 5 block (base c b) = (Done (Inl EAGAIN), base c b)"
proof -
  let ?q = "ring c b"
  have e: "pipe_end (PipeWrite 0) True 5 0 ?q (base c b)" using base_ends(2) [of c b] assms(1) by simp
  have quiet: "quiet 0 (base c b)" by (rule quiet_base) (rule assms(5))
  have bl: "block \<noteq> []" "length block \<le> 4096" "0 < length block" using assms(6) by auto
  show "\<exists>b'. sys_write 5 block (base c b) = (Done (Inr 4096), base (c\<lparr>used := used c + 4096\<rparr>) b')" if u: "used c + 4096 \<le> CAPACITY"
  proof -
    have ok: "pipe_ok ?q" using assms u by (simp add: pipe_ok_def)
    have a: "accepts block 0 ?q" using bl u assms(6) by (simp add: accepts_def ATOMIC_WRITE_def)
    have n: "min (nat (CAPACITY - len ?q)) (length block - 0) = 4096" using u assms(6) by simp
    from write_attempt_accepted [OF ok bl(3) a, of True False] assms(6) n obtain q' where
      q': "write_attempt block 0 True False ?q = (Returns 4096, q')" "contents q' = contents ?q @ block" "pipe_ok q'"
      "readers q' = 1" "writers q' = 1" by auto
    have "head q' = hd_pos c" using write_attempt_head [of block 0 True False ?q] q'(1) by simp
    moreover have "nat (len q') = nat (used c) + 4096"
      using arg_cong [OF q'(2), of length] assms(6) by (simp add: length_contents)
    then have "len q' = used c + 4096" using q'(3) assms(4) by (simp add: pipe_ok_def)
    ultimately show ?thesis
      using sys_write_pipe(1) [OF e bl(1,2) quiet q'(1)] set_pipe_base [OF q'(4,5), of c b] by auto
  qed
  show "sys_write 5 block (base c b) = (Done (Inl EAGAIN), base c b)" if u: "used c = CAPACITY"
  proof -
    have "\<not> accepts block 0 ?q" using u assms(6) by (simp add: accepts_def ATOMIC_WRITE_def)
    from write_attempt_refused [OF bl(3) this, of True False]
    have "write_attempt block 0 True False ?q = (Fails PWouldBlock, ?q)" by (simp add: prod_eq_iff)
    from sys_write_pipe(2) [OF e bl(1,2) quiet this] show ?thesis by simp
  qed
qed

lemma write_while_fills:
  assumes "wn c" "0 \<le> hd_pos c" "hd_pos c < CAPACITY" "used c = CAPACITY - int n * 4096" "n \<le> 16"
    "list_all i_pending (ints c)" "length block = 4096"
  shows "\<exists>b'. write_while 5 block (base c b) = Some (base (c\<lparr>used := CAPACITY\<rparr>) b')"
  using assms
proof (induction n arbitrary: c b)
  case 0
  then have "sys_write 5 block (base c b) = (Done (Inl EAGAIN), base c b)" by (intro write_block(2)) (simp_all add: CAPACITY_def)
  moreover have "c\<lparr>used := CAPACITY\<rparr> = c" using 0(4) by simp
  ultimately show ?case by (subst write_while.simps) auto
next
  case (Suc n)
  have u: "0 \<le> used c" "used c + 4096 \<le> CAPACITY" using Suc.prems by (auto simp: CAPACITY_def)
  from write_block(1) [OF Suc(2-4) u(1) Suc(7,8) u(2)] obtain b1 where
    b1: "sys_write 5 block (base c b) = (Done (Inr 4096), base (c\<lparr>used := used c + 4096\<rparr>) b1)" by blast
  have "\<exists>b'. write_while 5 block (base (c\<lparr>used := used c + 4096\<rparr>) b1) = Some (base ((c\<lparr>used := used c + 4096\<rparr>)\<lparr>used := CAPACITY\<rparr>) b')"
    by (rule Suc.IH) (use Suc.prems in auto)
  then show ?case using b1 by (subst write_while.simps) auto
qed

text \<open>One read of a block from a pipe that has one, and of an empty nonblocking pipe.\<close>

lemma read_block:
  assumes "0 \<le> hd_pos c" "hd_pos c < CAPACITY" "used c \<le> CAPACITY" "list_all i_pending (ints c)"
  shows "4096 \<le> used c \<Longrightarrow> \<exists>b' xs. length xs = 4096 \<and> sys_read 4 4096 (base c b) =
      (Done (Inr xs), base (c\<lparr>hd_pos := (hd_pos c + 4096) mod CAPACITY, used := used c - 4096\<rparr>) b')"
    and "rn c \<Longrightarrow> used c = 0 \<Longrightarrow> sys_read 4 4096 (base c b) = (Done (Inl EAGAIN), base c b)"
proof -
  let ?q = "ring c b"
  have e: "pipe_end (PipeRead 0) (rn c) 4 0 ?q (base c b)" by (rule base_ends)
  have quiet: "quiet 0 (base c b)" by (rule quiet_base) (rule assms(4))
  show "\<exists>b' xs. length xs = 4096 \<and> sys_read 4 4096 (base c b) =
      (Done (Inr xs), base (c\<lparr>hd_pos := (hd_pos c + 4096) mod CAPACITY, used := used c - 4096\<rparr>) b')" if u: "4096 \<le> used c"
  proof -
    have ok: "pipe_ok ?q" using assms u by (simp add: pipe_ok_def)
    from read_attempt_contents [OF ok, of 4096 "rn c" False] u obtain q' where
      q': "read_attempt 4096 (rn c) False ?q = (Returns (take 4096 (contents ?q)), q')"
      "contents q' = drop 4096 (contents ?q)" "pipe_ok q'" "readers q' = 1" "writers q' = 1" by auto
    have l: "length (contents ?q) = nat (used c)" by (simp add: length_contents)
    have xs: "length (take 4096 (contents ?q)) = 4096" using u l by simp
    then have ne: "take 4096 (contents ?q) \<noteq> []" by auto
    have "head q' = (hd_pos c + 4096) mod CAPACITY"
      using read_attempt_head [of 4096 ?q "rn c" False] q'(1) u by (simp add: min_absorb1)
    moreover have "nat (len q') = nat (used c) - 4096" using arg_cong [OF q'(2), of length] by (simp add: length_contents)
    then have "len q' = used c - 4096" using q'(3) u unfolding pipe_ok_def by linarith
    ultimately show ?thesis
      using sys_read_pipe(1) [OF e _ _ quiet q'(1) ne] set_pipe_base [OF q'(4,5), of c b] xs by auto
  qed
  show "sys_read 4 4096 (base c b) = (Done (Inl EAGAIN), base c b)" if "rn c" "used c = 0"
  proof -
    have "read_attempt 4096 (rn c) False ?q = (Fails PWouldBlock, ?q)" using that by (simp add: read_attempt_def)
    from sys_read_pipe(2) [OF e _ _ quiet this] show ?thesis by simp
  qed
qed

lemma read_while_drains:
  assumes "rn c" "0 \<le> hd_pos c" "hd_pos c < CAPACITY" "used c = int n * 4096" "n \<le> 16" "list_all i_pending (ints c)"
  shows "\<exists>b'. read_while 4 (base c b) =
    Some (Some EAGAIN, base (c\<lparr>hd_pos := (hd_pos c + int n * 4096) mod CAPACITY, used := 0\<rparr>) b')"
  using assms
proof (induction n arbitrary: c b)
  case 0
  then have "sys_read 4 4096 (base c b) = (Done (Inl EAGAIN), base c b)" by (intro read_block(2)) simp_all
  moreover have "c\<lparr>hd_pos := hd_pos c, used := 0\<rparr> = c" using 0(4) by simp
  ultimately show ?case using 0(2,3) by (subst read_while.simps) auto
next
  case (Suc n)
  have u: "used c \<le> CAPACITY" "4096 \<le> used c" using Suc.prems by (auto simp: CAPACITY_def)
  let ?c = "c\<lparr>hd_pos := (hd_pos c + 4096) mod CAPACITY, used := used c - 4096\<rparr>"
  from read_block(1) [OF Suc(3,4) u(1) Suc(7) u(2)] obtain b1 xs where
    b1: "length xs = 4096" "sys_read 4 4096 (base c b) = (Done (Inr xs), base ?c b1)" by blast
  have "\<exists>b'. read_while 4 (base ?c b1) =
      Some (Some EAGAIN, base (?c\<lparr>hd_pos := (hd_pos ?c + int n * 4096) mod CAPACITY, used := 0\<rparr>) b')"
    by (rule Suc.IH) (use Suc.prems in auto)
  moreover have "?c\<lparr>hd_pos := (hd_pos ?c + int n * 4096) mod CAPACITY, used := 0\<rparr> =
      c\<lparr>hd_pos := (hd_pos c + int (Suc n) * 4096) mod CAPACITY, used := 0\<rparr>"
    by (simp add: mod_simps algebra_simps)
  moreover have "xs \<noteq> []" using b1(1) by auto
  ultimately show ?case using b1 by (subst read_while.simps) auto
qed


lemma read_while_unwritable_once:
  "\<exists>b'. read_while_unwritable 3 4 (base (cfg False True 4 65536 [out_watch]) b) = Some (base (cfg False True 4100 61440 [out_watch]) b')"
proof -
  let ?c = "cfg False True 4 65536 [out_watch]"
  have "\<exists>b' xs. length xs = 4096 \<and> sys_read 4 4096 (base ?c b) = (Done (Inr xs), base (cfg False True 4100 61440 [out_watch]) b')"
    using read_block(1) [of ?c b] by (simp add: CAPACITY_def watch_def)
  then obtain b1 xs where r: "length xs = 4096" "sys_read 4 4096 (base ?c b) = (Done (Inr xs), base (cfg False True 4100 61440 [out_watch]) b1)"
    by blast
  from steps_toD [OF out_steps(5) [of b1]] obtain b2 where
    "wait_one 3 0 (base (cfg False True 4100 61440 [out_watch]) b1) = (Done (Inr [(EPOLLOUT, 5)]), base (cfg False True 4100 61440 [out_watch]) b2)"
    by blast
  then show ?thesis using r by (subst read_while_unwritable.simps) (auto simp: got_bytes_def waited_def)
qed

lemma out_passes: "\<exists>b'. epoll_out 3 4 5 (base (cfg False False 4 0 []) b) = Pass (base (cfg False True 4 0 []) b')"
proof -
  let ?w = "[out_watch]"
  obtain b1 where s1: "fcntl_setfl 5 False True (base (cfg False False 4 0 []) b) = (Inr (), base (cfg False True 4 0 []) b1)"
    using steps_toD [OF out_steps(1)] by blast
  obtain b2 where s2: "sys_epoll_ctl 3 EPOLL_CTL_ADD 5 EPOLLOUT 5 (base (cfg False True 4 0 []) b1) = (Inr (), base (cfg False True 4 0 ?w) b2)"
    using steps_toD [OF out_steps(2)] by blast
  obtain b3 where s3: "wait_one 3 0 (base (cfg False True 4 0 ?w) b2) = (Done (Inr [(EPOLLOUT, 5)]), base (cfg False True 4 0 ?w) b3)"
    using steps_toD [OF out_steps(3)] by blast
  obtain b4 where s4: "write_while 5 (replicate 4096 1) (base (cfg False True 4 0 ?w) b3) = Some (base (cfg False True 4 65536 ?w) b4)"
    using write_while_fills [of "cfg False True 4 0 ?w" 16 "replicate 4096 1" b3] by (auto simp: CAPACITY_def watch_def)
  obtain b5 where s5: "wait_one 3 0 (base (cfg False True 4 65536 ?w) b4) = (Done (Inr []), base (cfg False True 4 65536 ?w) b5)"
    using steps_toD [OF out_steps(4)] by blast
  obtain b6 where s6: "read_while_unwritable 3 4 (base (cfg False True 4 65536 ?w) b5) = Some (base (cfg False True 4100 61440 ?w) b6)"
    using read_while_unwritable_once by blast
  obtain b7 where s7: "wait_one 3 0 (base (cfg False True 4100 61440 ?w) b6) = (Done (Inr [(EPOLLOUT, 5)]), base (cfg False True 4100 61440 ?w) b7)"
    using steps_toD [OF out_steps(5)] by blast
  obtain b8 where s8: "sys_epoll_ctl 3 EPOLL_CTL_DEL 5 0 0 (base (cfg False True 4100 61440 ?w) b7) = (Inr (), base (cfg False True 4100 61440 []) b8)"
    using steps_toD [OF out_steps(6)] by blast
  obtain b9 where s9: "fcntl_setfl 4 False True (base (cfg False True 4100 61440 []) b8) = (Inr (), base (cfg True True 4100 61440 []) b9)"
    using steps_toD [OF out_steps(7)] by blast
  obtain b10 where s10: "read_while 4 (base (cfg True True 4100 61440 []) b9) = Some (Some EAGAIN, base (cfg True True 4 0 []) b10)"
    using read_while_drains [of "cfg True True 4100 61440 []" 15 b9] by (auto simp: CAPACITY_def)
  obtain b11 where s11: "fcntl_setfl 4 False False (base (cfg True True 4 0 []) b10) = (Inr (), base (cfg False True 4 0 []) b11)"
    using steps_toD [OF out_steps(8)] by blast
  show ?thesis
    by (simp add: epoll_out_def sysc_def call_def CHECK_def got_event_def waited_def s1 s2 s3 s4 s5 s6 s7 s8 s9 s10 s11) blast
qed

text \<open>The measured times matter only through their lower bounds.\<close>

lemma epoll_blocking_times:
  assumes "woken \<ge> 25" "timed \<ge> 45"
  shows "epoll_blocking before woken timed = epoll_blocking before 30 50"
proof -
  have "(woken \<ge> 25) = ((30::int) \<ge> 25)" "(timed \<ge> 45) = ((50::int) \<ge> 45)" using assms by simp_all
  then show ?thesis by (intro ext) (simp only: epoll_blocking_def)
qed

lemma poll_section_times:
  assumes "polled \<ge> 15"
  shows "poll_section before polled = poll_section before 20"
proof -
  have "(polled \<ge> 15) = ((20::int) \<ge> 15)" using assms by simp
  then show ?thesis by (intro ext) (unfold poll_section_def, simp only:)
qed



end
