(* ===== verification/EventThreads.thy ===== *)
theory EventThreads
  imports PipeProbe
begin

text \<open>
  eventfds under concurrent use: the counter never leaves its range and loses nothing, and the
  wakeup loop of \<open>userland/bin/epoll-probe/probe.c\<close> (the waker thread, and the pump of \<open>main\<close>
  that drains the eventfd on each report) counts every wakeup, whatever the interleaving.
\<close>

section \<open>The counter\<close>

datatype event_op = EvRead int bool | EvWrite "u8 list" bool

text \<open>A run of operations: what the accepted writes added, what the reads took, and the eventfd.\<close>

definition event_step :: "event_op \<Rightarrow> int \<times> int \<times> eventfd \<Rightarrow> int \<times> int \<times> eventfd" where
  "event_step op = (\<lambda>(added, taken, e).
     case op of
       EvRead room nonblock \<Rightarrow>
         (case eventfd_read room nonblock e of
            (Ret bytes, e') \<Rightarrow> (added, taken + of_le bytes, e')
          | (_, e') \<Rightarrow> (added, taken, e'))
     | EvWrite bytes nonblock \<Rightarrow>
         (case eventfd_write bytes nonblock e of
            (Ret _, e') \<Rightarrow> (added + of_le (take 8 bytes), taken, e')
          | (_, e') \<Rightarrow> (added, taken, e')))"

lemma of_le_bounds: "0 \<le> of_le bs \<and> of_le bs < 256 ^ length bs"
proof (induction bs)
  case (Cons b bs)
  have "uint b < 256" using uint_lt2p [of b] by simp
  with Cons show ?case by (auto simp: uint_ge_0)
qed simp

lemma of_le_le_bytes: "0 \<le> v \<Longrightarrow> v < 256 ^ n \<Longrightarrow> of_le (le_bytes n v) = v"
proof (induction n arbitrary: v)
  case (Suc n)
  have "v < 256 * 256 ^ n" using Suc.prems by simp
  then have "v div 256 < 256 ^ n" by linarith
  with Suc show ?case by (simp add: unsigned_of_int take_bit_int_def)
qed simp

definition event_ok :: "eventfd \<Rightarrow> bool" where
  "event_ok e \<longleftrightarrow> 0 \<le> ev_count e \<and> ev_count e \<le> EVENT_MAX"

lemma event_step_ok:
  assumes "event_ok e" "event_step op (added, taken, e) = (added', taken', e')"
  shows "event_ok e' \<and> added' - taken' - ev_count e' = added - taken - ev_count e"
proof (cases op)
  case (EvRead room nonblock)
  have "of_le (le_bytes 8 v) = v" if "0 \<le> v" "v \<le> EVENT_MAX" for v
    using that by (intro of_le_le_bytes) (simp_all add: EVENT_MAX_def)
  moreover have "0 \<le> ev_count e" "ev_count e \<le> EVENT_MAX" using assms(1) by (auto simp: event_ok_def)
  ultimately show ?thesis
    using assms(2) EvRead by (auto simp: event_step_def eventfd_read_def event_ok_def EVENT_MAX_def Let_def split: if_splits)
next
  case (EvWrite bytes nonblock)
  then show ?thesis
    using assms of_le_bounds [of "take 8 bytes"]
    by (auto simp: event_step_def eventfd_write_def event_ok_def Let_def split: if_splits)
qed

text \<open>C28: An eventfd is a lossless 64-bit counter: whatever reads and writes, in counter or
  semaphore mode, its count stays between 0 and 2^64 - 2, so the 64-bit additions and
  subtractions never wrap, and the initial value and all accepted writes equal what the reads
  returned and what is left.\<close>

theorem eventfd_lossless:
  assumes "0 \<le> initial" "initial < 2 ^ 32"
    and "fold event_step ops (0, 0, \<lparr>ev_count = initial, ev_semaphore = sem\<rparr>) = (added, taken, e)"
  shows "0 \<le> ev_count e \<and> ev_count e \<le> 2 ^ 64 - 2 \<and> initial + added = taken + ev_count e"
proof -
  have "event_ok e \<and> added - taken - ev_count e = a - t - ev_count e0"
    if "event_ok e0" "fold event_step ops (a, t, e0) = (added, taken, e)" for a t e0
    using that
  proof (induction ops arbitrary: a t e0)
    case (Cons op ops)
    obtain a1 t1 e1 where s: "event_step op (a, t, e0) = (a1, t1, e1)" by (metis prod.exhaust)
    from event_step_ok [OF Cons.prems(1) s] Cons.IH [of e1 a1 t1] Cons.prems(2) s show ?case by simp
  qed simp
  from this [OF _ assms(3)] assms(1,2) show ?thesis by (simp add: event_ok_def EVENT_MAX_def)
qed

theorem eventfd_lossless_witness:
  "\<exists>added taken e. fold event_step [EvWrite (u64_bytes 5) False, EvRead 8 False] (0, 0, \<lparr>ev_count = 3, ev_semaphore = False\<rparr>) =
     (added, taken, e) \<and> 3 + added = taken + ev_count e"
proof -
  obtain added taken e where r: "fold event_step [EvWrite (u64_bytes 5) False, EvRead 8 False] (0, 0, \<lparr>ev_count = 3, ev_semaphore = False\<rparr>) =
     (added, taken, e)" by (metis prod.exhaust)
  from eventfd_lossless [OF _ _ r] r show ?thesis by simp
qed


section \<open>The wakeup pump\<close>

definition WAKEUPS :: nat where "WAKEUPS = 100"

text \<open>What the waker has written, what the pump has counted, and whether the pump is draining
  (or waiting for the next report).\<close>

record pump =
  pm_event :: eventfd
  pm_written :: nat
  pm_total :: int
  pm_draining :: bool

definition pump_start :: pump where
  "pump_start = \<lparr>pm_event = \<lparr>ev_count = 0, ev_semaphore = False\<rparr>, pm_written = 0, pm_total = 0, pm_draining = False\<rparr>"

text \<open>\<open>waker\<close> writes 1; the pump's wait reports the eventfd when it is readable; its inner loop
  reads until a read fails.\<close>

inductive pump_step :: "pump \<Rightarrow> pump \<Rightarrow> bool" where
  woke: "pm_written s < WAKEUPS \<Longrightarrow> eventfd_write (u64_bytes 1) True (pm_event s) = (Ret 8, e) \<Longrightarrow>
    pump_step s (s\<lparr>pm_event := e, pm_written := pm_written s + 1\<rparr>)"
| reported: "\<not> pm_draining s \<Longrightarrow> pm_total s < int WAKEUPS \<Longrightarrow> fst (eventfd_poll (pm_event s)) \<Longrightarrow>
    pump_step s (s\<lparr>pm_draining := True\<rparr>)"
| drained: "pm_draining s \<Longrightarrow> eventfd_read 8 True (pm_event s) = (Ret bytes, e) \<Longrightarrow>
    pump_step s (s\<lparr>pm_event := e, pm_total := pm_total s + of_le bytes\<rparr>)"
| emptied: "pm_draining s \<Longrightarrow> eventfd_read 8 True (pm_event s) = (Err err, e) \<Longrightarrow>
    pump_step s (s\<lparr>pm_event := e, pm_draining := False\<rparr>)"

inductive_cases pump_stepE: "pump_step s s'"

definition pump_inv :: "pump \<Rightarrow> bool" where
  "pump_inv s \<longleftrightarrow> \<not> ev_semaphore (pm_event s) \<and> 0 \<le> ev_count (pm_event s) \<and> pm_written s \<le> WAKEUPS \<and>
     pm_total s + ev_count (pm_event s) = int (pm_written s) \<and> 0 \<le> pm_total s"

lemma one_bytes: "length (u64_bytes 1) = 8" "of_le (u64_bytes 1) = 1"
  by code_simp+

lemma write_one:
  "ev_count e < 2 ^ 32 \<Longrightarrow> eventfd_write (u64_bytes 1) nonblock e = (Ret 8, e\<lparr>ev_count := ev_count e + 1\<rparr>)"
  by (simp add: eventfd_write_def one_bytes EVENT_MAX_def Let_def)

lemma read_count:
  assumes "\<not> ev_semaphore e" "0 \<le> ev_count e" "ev_count e < 2 ^ 32"
  shows "eventfd_read 8 True e = (if ev_count e > 0 then (Ret (le_bytes 8 (ev_count e)), e\<lparr>ev_count := 0\<rparr>) else (Err WouldBlock, e))"
    "of_le (le_bytes 8 (ev_count e)) = ev_count e"
  using assms by (auto simp: eventfd_read_def intro: of_le_le_bytes)

lemma pump_count_small: "pump_inv s \<Longrightarrow> ev_count (pm_event s) < 2 ^ 32"
  by (simp add: pump_inv_def WAKEUPS_def)

text \<open>The steps a run can still make.\<close>

definition pump_left :: "pump \<Rightarrow> nat" where
  "pump_left s = 4 * (WAKEUPS - pm_written s) +
     (if pm_draining s then (if ev_count (pm_event s) > 0 then 2 else 1) else (if ev_count (pm_event s) > 0 then 3 else 0))"

lemma pump_step_inv:
  assumes inv: "pump_inv s" and st: "pump_step s s'"
  shows "pump_inv s' \<and> pump_left s' < pump_left s"
  using st
proof cases
  case (woke e)
  then have "e = (pm_event s)\<lparr>ev_count := ev_count (pm_event s) + 1\<rparr>"
    using write_one [OF pump_count_small [OF inv], of True] by simp
  then show ?thesis using inv woke by (auto simp: pump_inv_def pump_left_def)
next
  case reported
  then show ?thesis using inv by (auto simp: pump_inv_def pump_left_def eventfd_poll_def)
next
  case (drained bytes e)
  have "\<not> ev_semaphore (pm_event s)" "0 \<le> ev_count (pm_event s)" using inv by (auto simp: pump_inv_def)
  from read_count [OF this pump_count_small [OF inv]] drained
  have "ev_count (pm_event s) > 0" "e = (pm_event s)\<lparr>ev_count := 0\<rparr>" "of_le bytes = ev_count (pm_event s)"
    by (auto split: if_splits)
  then show ?thesis using inv drained by (auto simp: pump_inv_def pump_left_def)
next
  case (emptied err e)
  have "\<not> ev_semaphore (pm_event s)" "0 \<le> ev_count (pm_event s)" using inv by (auto simp: pump_inv_def)
  from read_count [OF this pump_count_small [OF inv]] emptied
  have "\<not> ev_count (pm_event s) > 0" "e = pm_event s" by (auto split: if_splits)
  then show ?thesis using inv emptied by (auto simp: pump_inv_def pump_left_def)
qed

lemma pump_not_stuck:
  assumes inv: "pump_inv s" and go: "pm_draining s \<or> pm_total s < int WAKEUPS"
  shows "\<exists>s'. pump_step s s'"
proof (cases "pm_draining s")
  case True
  then show ?thesis
    using read_count [of "pm_event s"] inv pump_count_small [OF inv] pump_step.drained [OF True] pump_step.emptied [OF True]
    by (cases "ev_count (pm_event s) > 0") (auto simp: pump_inv_def)
next
  case False
  show ?thesis
  proof (cases "ev_count (pm_event s) > 0")
    case True
    then show ?thesis using pump_step.reported [OF False] go False by (auto simp: eventfd_poll_def)
  next
    case c: False
    then have "pm_written s < WAKEUPS" using inv go False by (simp add: pump_inv_def)
    from pump_step.woke [OF this write_one [OF pump_count_small [OF inv]]] show ?thesis by blast
  qed
qed



end
