(* ===== verification/InputProbe.thy ===== *)
theory InputProbe
  imports Prelude
begin

text \<open>
  \<open>userland/bin/input-probe/probe.c\<close>: a window that lets its events pile up, then drains them and
  counts the presses and releases of Ctrl and T. What the Peel library returns (\<open>orange_peel_open\<close>,
  \<open>orange_peel_next_event\<close>) is an argument.
\<close>

section \<open>The program\<close>

record probe_event =
  ev_kind :: int
  ev_code :: int
  ev_value :: int

text \<open>What a call of \<open>orange_peel_next_event\<close> returns: less than 0, 0, or an event.\<close>

datatype next_event = Closed | Nothing | Event probe_event

record tally =
  ctrl_down :: nat
  ctrl_up :: nat
  t_down :: nat
  t_up :: nat
  motion :: nat

definition no_events :: tally where
  "no_events = \<lparr>ctrl_down = 0, ctrl_up = 0, t_down = 0, t_up = 0, motion = 0\<rparr>"

text \<open>What the body of the loop does with an event.\<close>

definition tally_event :: "probe_event \<Rightarrow> tally \<Rightarrow> tally" where
  "tally_event e c =
     (let c1 = (if ev_kind e = 2 then c\<lparr>motion := motion c + 1\<rparr> else c)
      in if ev_kind e \<noteq> 1 then c1
         else
           let pressed = odd (ev_value e);
               c2 = (if ev_code e = 0x1D then
                       if pressed then c1\<lparr>ctrl_down := ctrl_down c1 + 1\<rparr> else c1\<lparr>ctrl_up := ctrl_up c1 + 1\<rparr>
                     else c1)
           in if ev_code e = 0x14 then
                if pressed then c2\<lparr>t_down := t_down c2 + 1\<rparr> else c2\<lparr>t_up := t_up c2 + 1\<rparr>
              else c2)"

text \<open>The loop, over what the calls return; \<open>None\<close> when it has not ended by then.\<close>

fun drain_events :: "nat \<Rightarrow> tally \<Rightarrow> next_event list \<Rightarrow> tally option" where
  "drain_events idle c rs =
     (if idle \<ge> 200 then Some c
      else case rs of
        [] \<Rightarrow> None
      | Closed # rs' \<Rightarrow> Some c
      | Nothing # rs' \<Rightarrow> drain_events (idle + 1) c rs'
      | Event e # rs' \<Rightarrow> drain_events 0 (tally_event e c) rs')"

declare drain_events.simps [simp del]

definition balanced :: "tally \<Rightarrow> bool" where
  "balanced c \<longleftrightarrow> ctrl_down c \<ge> 1 \<and> ctrl_down c = ctrl_up c \<and> t_down c \<ge> 1 \<and> t_down c = t_up c"

definition report :: "tally \<Rightarrow> string" where
  "report c =
     ''input-probe: '' @ (if balanced c then ''PASS'' else ''FAIL'') @ '' ctrl '' @ decimal (ctrl_down c) @ '' down '' @
     decimal (ctrl_up c) @ '' up, t '' @ decimal (t_down c) @ '' down '' @ decimal (t_up c) @ '' up, '' @
     decimal (motion c) @ '' pointer events''"

record probe_info =
  pi_width :: int
  pi_height :: int
  pi_scale :: int
  pi_stride :: int

text \<open>Painting the first \<open>stride * height * scale\<close> pixels.\<close>

definition paint_window :: "probe_info \<Rightarrow> u32 list \<Rightarrow> u32 list" where
  "paint_window info pixels =
     (let n = nat (pi_stride info * pi_height info * pi_scale info)
      in replicate (min n (length pixels)) 0x336699 @ drop n pixels)"

text \<open>What the program does to the outside.\<close>

datatype effect = Says string | Commits int int int int "u32 list" | Sleeps_s nat

text \<open>\<open>main\<close>: its effects and its exit status; \<open>window\<close> is what \<open>orange_peel_open\<close> gives, \<open>None\<close> when it
  fails.\<close>

definition input_main :: "(probe_info \<times> u32 list) option \<Rightarrow> next_event list \<Rightarrow> (effect list \<times> int) option" where
  "input_main window rs =
     (case window of
        None \<Rightarrow> Some ([Sleeps_s 20, Says ''input-probe: FAIL no window''], 1)
      | Some (info, pixels) \<Rightarrow>
          map_option (\<lambda>c.
            ([Sleeps_s 20, Commits 0 0 (pi_width info) (pi_height info) (paint_window info pixels),
              Says ''input-probe: ready'', Sleeps_s 3, Says (report c)],
             if balanced c then 0 else 1))
            (drain_events 0 no_events rs))"

section \<open>What it measures\<close>

text \<open>The presses and releases of a key among the events, in order: \<open>True\<close> for a press.\<close>

definition key_changes :: "int \<Rightarrow> probe_event list \<Rightarrow> bool list" where
  "key_changes code es = map (\<lambda>e. odd (ev_value e)) (filter (\<lambda>e. ev_kind e = 1 \<and> ev_code e = code) es)"

text \<open>Whether a program that follows the changes believes the key is down, starting from \<open>up\<close>.\<close>

fun believes_down :: "bool \<Rightarrow> bool list \<Rightarrow> bool" where
  "believes_down down [] = down"
| "believes_down down (p # ps) = believes_down p ps"

text \<open>The keyboard's own order: each change is to the other state.\<close>

fun alternates :: "bool \<Rightarrow> bool list \<Rightarrow> bool" where
  "alternates down [] = True"
| "alternates down (p # ps) = (p \<noteq> down \<and> alternates p ps)"

definition count_of :: "bool \<Rightarrow> bool list \<Rightarrow> nat" where
  "count_of b ps = length (filter (\<lambda>p. p = b) ps)"

lemma count_of_simps [simp]: "count_of b [] = 0" "count_of b (p # ps) = (if p = b then 1 else 0) + count_of b ps"
  by (auto simp: count_of_def)

text \<open>The events among the results, none left waiting for by 200 empty calls in a row.\<close>

fun events_of :: "next_event list \<Rightarrow> probe_event list" where
  "events_of [] = []"
| "events_of (Event e # rs) = e # events_of rs"
| "events_of (r # rs) = events_of rs"

fun no_long_gap :: "nat \<Rightarrow> next_event list \<Rightarrow> bool" where
  "no_long_gap idle [] = True"
| "no_long_gap idle (Closed # rs) = False"
| "no_long_gap idle (Nothing # rs) = (idle + 1 < 200 \<and> no_long_gap (idle + 1) rs)"
| "no_long_gap idle (Event e # rs) = no_long_gap 0 rs"

lemma drain_idle: "idle \<le> 200 \<Longrightarrow> 200 - idle \<le> n \<Longrightarrow> drain_events idle c (replicate n Nothing) = Some c"
proof (induction n arbitrary: idle)
  case (Suc n)
  then show ?case by (subst drain_events.simps) (simp add: Suc.IH)
qed (simp add: drain_events.simps)

lemma drain_counts:
  "no_long_gap idle rs \<Longrightarrow> idle < 200 \<Longrightarrow>
    drain_events idle c (rs @ replicate 200 Nothing) = Some (fold tally_event (events_of rs) c)"
proof (induction idle rs arbitrary: c rule: no_long_gap.induct)
  case (1 idle)
  then show ?case by (simp add: drain_idle)
next
  case (2 idle rs)
  then show ?case by simp
next
  case (3 idle rs)
  then show ?case by (subst drain_events.simps) simp
next
  case (4 idle e rs)
  then show ?case by (subst drain_events.simps) simp
qed

lemma tally_counts:
  "ctrl_down (fold tally_event es c) = ctrl_down c + count_of True (key_changes 0x1D es)"
  "ctrl_up (fold tally_event es c) = ctrl_up c + count_of False (key_changes 0x1D es)"
  "t_down (fold tally_event es c) = t_down c + count_of True (key_changes 0x14 es)"
  "t_up (fold tally_event es c) = t_up c + count_of False (key_changes 0x14 es)"
  by (induction es arbitrary: c) (auto simp: key_changes_def tally_event_def Let_def)

lemma alternating_balance:
  "alternates down ps \<Longrightarrow>
    count_of True ps + (if down then 1 else 0) = count_of False ps + (if believes_down down ps then 1 else 0)"
proof (induction down ps rule: alternates.induct)
  case (2 down p ps)
  then show ?case by (cases p; cases down) auto
qed simp

lemma count_True_pos: "count_of True ps \<ge> 1 \<longleftrightarrow> True \<in> set ps"
  by (induction ps) auto

text \<open>C34: For a keyboard whose keys go down and up in turn, the probe ends once the events have been
  followed by 200 empty calls, and it reports PASS (exit status 0) exactly when Ctrl and T were
  both pressed and a program that follows the events it got believes neither is still down: a
  release that the desktop dropped shows as FAIL.\<close>

theorem probe_detects_stuck_keys:
  assumes "no_long_gap 0 rs" "alternates False (key_changes 0x1D (events_of rs))" "alternates False (key_changes 0x14 (events_of rs))"
  shows "\<exists>effects status. input_main (Some window) (rs @ replicate 200 Nothing) = Some (effects, status) \<and>
    (status = 0 \<longleftrightarrow>
      True \<in> set (key_changes 0x1D (events_of rs)) \<and> \<not> believes_down False (key_changes 0x1D (events_of rs)) \<and>
      True \<in> set (key_changes 0x14 (events_of rs)) \<and> \<not> believes_down False (key_changes 0x14 (events_of rs)))"
proof -
  let ?c = "fold tally_event (events_of rs) no_events"
  have "drain_events 0 no_events (rs @ replicate 200 Nothing) = Some ?c"
    by (rule drain_counts [OF assms(1)]) simp
  moreover have "balanced ?c \<longleftrightarrow>
      True \<in> set (key_changes 0x1D (events_of rs)) \<and> \<not> believes_down False (key_changes 0x1D (events_of rs)) \<and>
      True \<in> set (key_changes 0x14 (events_of rs)) \<and> \<not> believes_down False (key_changes 0x14 (events_of rs))"
    using alternating_balance [OF assms(2)] alternating_balance [OF assms(3)]
    by (auto simp: balanced_def tally_counts no_events_def count_True_pos [symmetric] split: if_splits)
  ultimately show ?thesis by (cases window) (simp add: input_main_def)
qed

definition key :: "int \<Rightarrow> int \<Rightarrow> next_event" where
  "key code value = Event \<lparr>ev_kind = 1, ev_code = code, ev_value = value\<rparr>"

text \<open>Ctrl goes down, T goes down and up, and the release of Ctrl is lost.\<close>

theorem probe_detects_stuck_keys_witness:
  "\<exists>effects status. input_main (Some (\<lparr>pi_width = 900, pi_height = 560, pi_scale = 1, pi_stride = 900\<rparr>, [])) 
      ([key 0x1D 1, key 0x14 1, Nothing, key 0x14 0] @ replicate 200 Nothing) = Some (effects, status) \<and> status \<noteq> 0"
proof -
  let ?rs = "[key 0x1D 1, key 0x14 1, Nothing, key 0x14 0]"
  have "no_long_gap 0 ?rs" "alternates False (key_changes 0x1D (events_of ?rs))" "alternates False (key_changes 0x14 (events_of ?rs))"
    "believes_down False (key_changes 0x1D (events_of ?rs))"
    by (simp_all add: key_def key_changes_def)
  with probe_detects_stuck_keys [of ?rs "(\<lparr>pi_width = 900, pi_height = 560, pi_scale = 1, pi_stride = 900\<rparr>, [])"]
  show ?thesis by fastforce
qed

end
