(* ===== verification/KProcess.thy ===== *)
theory KProcess
  imports Probe
begin

text \<open>
  System calls on files (\<open>kernel/syscall/syscall.zig\<close>), and record locks as \<open>fcntl\<close> takes them.
\<close>

section \<open>Files\<close>

definition on_files :: "(fsys \<Rightarrow> (kerror + 'a) \<times> fsys) \<Rightarrow> kernel \<Rightarrow> (errno + 'a) \<times> kernel" where
  "on_files f k = (case f (fsys k) of (r, fs) \<Rightarrow> errno_of (r, k\<lparr>fsys := fs\<rparr>))"

definition sys_mkdir :: "string \<Rightarrow> kernel \<Rightarrow> (errno + unit) \<times> kernel" where
  "sys_mkdir path = with_path path (\<lambda>name. on_files (vfs_mkdir name))"

definition sys_unlink :: "string \<Rightarrow> kernel \<Rightarrow> (errno + unit) \<times> kernel" where
  "sys_unlink path = with_path path (\<lambda>name. on_files (vfs_remove name False))"

definition sys_rmdir :: "string \<Rightarrow> kernel \<Rightarrow> (errno + unit) \<times> kernel" where
  "sys_rmdir path = with_path path (\<lambda>name. on_files (vfs_remove name True))"

definition sys_rename :: "string \<Rightarrow> string \<Rightarrow> kernel \<Rightarrow> (errno + unit) \<times> kernel" where
  "sys_rename from to = with_path from (\<lambda>source. with_path to (\<lambda>target. on_files (vfs_rename source target)))"

text \<open>\<open>stat\<close>: the size of what a path names, whether it is a directory, and whether its filesystem
  can be written; \<open>access\<close> asks for the last when it is given \<open>W_OK\<close>.\<close>

definition sys_stat :: "string \<Rightarrow> kernel \<Rightarrow> (errno + int \<times> bool \<times> bool) \<times> kernel" where
  "sys_stat path = with_path path (\<lambda>name. on_files (\<lambda>fs.
     case resolve name fs of
       (Inl e, fs1) \<Rightarrow> (Inl e, fs1)
     | (Inr n, fs1) \<Rightarrow> (Inr (node_size n fs1, isDir n fs1, node_writable n), vfs_release n fs1)))"

definition sys_access :: "string \<Rightarrow> bool \<Rightarrow> kernel \<Rightarrow> (errno + unit) \<times> kernel" where
  "sys_access path w_ok k =
     (case sys_stat path k of
        (Inl e, k1) \<Rightarrow> (Inl e, k1)
      | (Inr (_, _, can_write), k1) \<Rightarrow> (if w_ok \<and> \<not> can_write then Inl EROFS else Inr (), k1))"

definition sys_pread :: "int \<Rightarrow> int \<Rightarrow> int \<Rightarrow> kernel \<Rightarrow> (errno + u8 list) \<times> kernel" where
  "sys_pread fd room offset = with_desc fd (\<lambda>d k.
     if room = 0 then (Inr [], k)
     else if offset < 0 then (Inl EINVAL, k)
     else errno_of (readAtOffset d offset (min room 4096) k, k))"

definition sys_pwrite :: "int \<Rightarrow> u8 list \<Rightarrow> int \<Rightarrow> kernel \<Rightarrow> (errno + int) \<times> kernel" where
  "sys_pwrite fd bytes offset = with_desc fd (\<lambda>d k.
     if bytes = [] then (Inr 0, k)
     else if offset < 0 then (Inl EINVAL, k)
     else errno_of (writeAtOffset d offset (take (nat 4096) bytes) k))"

definition sys_ftruncate :: "int \<Rightarrow> int \<Rightarrow> kernel \<Rightarrow> (errno + unit) \<times> kernel" where
  "sys_ftruncate fd length' = with_desc fd (\<lambda>d k.
     if length' < 0 then (Inl EINVAL, k) else errno_of (desc_truncate d length' k))"

section \<open>Record locks\<close>

text \<open>\<open>struct flock\<close>. The commands are the kernel's 8 to 13: get, set and wait for process locks, then
  for those of open file descriptions.\<close>

record flock =
  l_type :: int
  l_whence :: int
  l_start :: int
  l_len :: int
  l_pid :: int

definition F_RDLCK :: int where "F_RDLCK = 0"
definition F_WRLCK :: int where "F_WRLCK = 1"
definition F_UNLCK :: int where "F_UNLCK = 2"

datatype lock_command = F_GETLK | F_SETLK | F_SETLKW | F_OFD_GETLK | F_OFD_SETLK | F_OFD_SETLKW

definition description_owned :: "lock_command \<Rightarrow> bool" where
  "description_owned command = (command \<in> {F_OFD_GETLK, F_OFD_SETLK, F_OFD_SETLKW})"

text \<open>The first and last byte a request covers, or the error it is refused with.\<close>

definition lock_range :: "int \<Rightarrow> flock \<Rightarrow> errno + int \<times> int" where
  "lock_range base request =
     (let start = base + l_start request; len' = l_len request;
          first = (if len' < 0 then start + len' else start);
          until = (if len' > 0 then start + len' - 1 else if len' = 0 then TO_END else start - 1)
      in if first < 0 then Inl EINVAL
         else if until > 2 ^ 63 - 1 \<and> len' \<noteq> 0 then Inl EOVERFLOW
         else Inr (first, until))"

fun lockErrno :: "lerror \<Rightarrow> errno" where
  "lockErrno LWouldBlock = EAGAIN"
| "lockErrno LDeadlock = EDEADLK"
| "lockErrno LInterrupted = EINTR_e"
| "lockErrno LOutOfMemory = ENOLCK"
| "lockErrno LInvalidArgument = EINVAL"

text \<open>What a waiting request needs when it is woken: the description it holds, its note, and the
  arguments of \<open>set\<close>.\<close>

record lock_wait =
  w_desc :: ptr
  w_note :: "nat option"
  w_key :: int
  w_owner :: owner
  w_pid :: int
  w_first :: int
  w_until :: int
  w_kind :: "lkind option"

datatype lock_call = LDone "errno + flock" | LWaits lock_wait | LPanics

definition end_set :: "lock_wait \<Rightarrow> flock \<Rightarrow> set_result \<times> locktab \<Rightarrow> kernel \<Rightarrow> lock_call \<times> kernel" where
  "end_set w request r k =
     (case r of (res, t) \<Rightarrow>
        let k1 = k\<lparr>rlocks := t\<rparr>
        in case res of
             SetDone \<Rightarrow> (LDone (Inr request), release (w_desc w) k1)
           | SetErr e \<Rightarrow> (LDone (Inl (lockErrno e)), release (w_desc w) k1)
           | SetSleep note \<Rightarrow> (LWaits (w\<lparr>w_note := note\<rparr>), k1)
           | SetPanic \<Rightarrow> (LPanics, k1))"

text \<open>The kind a request asks for, \<open>Inr None\<close> to unlock, and where its offsets count from.\<close>

definition lock_kind :: "flock \<Rightarrow> errno + lkind option" where
  "lock_kind request =
     (if l_type request = 0 then Inr (Some LRead) else if l_type request = 1 then Inr (Some LWrite)
      else if l_type request = 2 then Inr None else Inl EINVAL)"

definition lock_base :: "node_file \<Rightarrow> flock \<Rightarrow> kernel \<Rightarrow> errno + int" where
  "lock_base f request k =
     (if l_whence request = 0 then Inr 0 else if l_whence request = 1 then Inr (nf_offset f)
      else if l_whence request = 2 then Inr (node_size (nf_node f) (fsys k)) else Inl EINVAL)"

text \<open>What \<open>F_GETLK\<close> answers.\<close>

definition lock_answer :: "flock \<Rightarrow> (lkind \<times> int \<times> int \<times> int) option \<Rightarrow> flock" where
  "lock_answer request found =
     (case found of
        None \<Rightarrow> request\<lparr>l_type := F_UNLCK\<rparr>
      | Some (kind, first, until, pid) \<Rightarrow>
          \<lparr>l_type = (if kind = LRead then 0 else 1), l_whence = 0, l_start = first,
           l_len = (if until = TO_END then 0 else until - first + 1), l_pid = pid\<rparr>)"

text \<open>\<open>recordLockControl\<close>, the caller holding a reference to \<open>d\<close>: an error or an answer at once, or
  the call of \<open>set\<close>.\<close>

definition recordLockControl :: "ptr \<Rightarrow> lock_command \<Rightarrow> flock \<Rightarrow> kernel \<Rightarrow> (errno + flock) + lock_wait" where
  "recordLockControl d command request k =
     (case deref (descriptions k) d of
        None \<Rightarrow> Inl (Inl EBADF)
      | Some x \<Rightarrow>
          (case dobject x of
             NodeFile f \<Rightarrow>
               if description_owned command \<and> l_pid request \<noteq> 0 then Inl (Inl EINVAL)
               else (case lock_kind request of
                 Inl e \<Rightarrow> Inl (Inl e)
               | Inr kind \<Rightarrow>
                   (case lock_base f request k of
                      Inl e \<Rightarrow> Inl (Inl e)
                    | Inr base \<Rightarrow>
                        (case lock_range base request of
                           Inl e \<Rightarrow> Inl (Inl e)
                         | Inr (first, until) \<Rightarrow>
                             let key = keyOf (nf_node f);
                                 owner = (if description_owned command then Description d else Process (owner_pid k))
                             in if command = F_GETLK \<or> command = F_OFD_GETLK then
                                  (case kind of
                                     None \<Rightarrow> Inl (Inl EINVAL)
                                   | Some wanted \<Rightarrow>
                                       Inl (Inr (lock_answer request (find_lock key owner first until wanted (rlocks k)))))
                                else if kind = Some LRead \<and> \<not> st_read (dstatus x) then Inl (Inl EBADF)
                                else if kind = Some LWrite \<and> \<not> st_write (dstatus x) then Inl (Inl EBADF)
                                else Inr \<lparr>w_desc = d, w_note = None, w_key = key, w_owner = owner,
                                       w_pid = (if description_owned command then -1 else owner_pid k),
                                       w_first = first, w_until = until, w_kind = kind\<rparr>)))
           | _ \<Rightarrow> Inl (Inl EINVAL)))"

text \<open>\<open>fcntl\<close> with a lock command, up to its end or its first sleep. Memory for the records never
  runs out and no signal arrives.\<close>

definition fcntl_lock :: "int \<Rightarrow> lock_command \<Rightarrow> flock \<Rightarrow> kernel \<Rightarrow> lock_call \<times> kernel" where
  "fcntl_lock fd command request k =
     (case lookup fd k of
        (None, k1) \<Rightarrow> (LDone (Inl EBADF), k1)
      | (Some d, k1) \<Rightarrow>
          (case recordLockControl d command request k1 of
             Inl r \<Rightarrow> (LDone r, release d k1)
           | Inr w \<Rightarrow>
               end_set w request (lock_set True (w_key w) (w_owner w) (w_pid w) (w_first w) (w_until w) (w_kind w)
                   (command = F_SETLKW \<or> command = F_OFD_SETLKW) False (rlocks k1)) k1))"

text \<open>A waiting call, woken.\<close>

definition lock_woken :: "lock_wait \<Rightarrow> flock \<Rightarrow> kernel \<Rightarrow> lock_call \<times> kernel" where
  "lock_woken w request k =
     end_set w request (set_again (w_note w) (w_key w) (w_owner w) (w_pid w) (w_first w) (w_until w) (w_kind w) False (rlocks k)) k"

end
