(* ===== verification/KSpawn.thy ===== *)
theory KSpawn
  imports KProcess
begin

text \<open>
  Processes: working directories and paths relative to a directory, what \<open>posix_spawn\<close>
  (\<open>userland/libs/musl-orange/orange.zig\<close>) gives a new program, how a program is started
  (\<open>kernel/sched/process.zig\<close>), what its exit takes back, and how its parent collects it
  (\<open>kernel/sched/sched.zig\<close>).
\<close>

section \<open>Directories\<close>

definition sys_chdir :: "string \<Rightarrow> kernel \<Rightarrow> (errno + unit) \<times> kernel" where
  "sys_chdir path = with_path path (\<lambda>name k.
     case resolve name (fsys k) of
       (Inl e, fs) \<Rightarrow> (Inl (vfsErrno e), k\<lparr>fsys := fs\<rparr>)
     | (Inr n, fs) \<Rightarrow>
         let k1 = k\<lparr>fsys := vfs_release n fs\<rparr>
         in if isDir n fs then (Inr (), k1\<lparr>cwd := name\<rparr>) else (Inl ENOTDIR, k1))"

text \<open>\<open>getcwd\<close>: the directory, without the NUL that the kernel adds and counts.\<close>

definition sys_getcwd :: "int \<Rightarrow> kernel \<Rightarrow> errno + string" where
  "sys_getcwd room k = (if room < int (length (cwd k)) + 1 then Inl ERANGE else Inr (cwd k))"

definition directoryPath :: "int \<Rightarrow> kernel \<Rightarrow> (kerror + string) \<times> kernel" where
  "directoryPath fd k =
     (case lookup fd k of
        (None, k1) \<Rightarrow> (Inl BadFd, k1)
      | (Some d, k1) \<Rightarrow>
          ((case map_option dobject (deref (descriptions k1) d) of
              Some (NodeFile f) \<Rightarrow> (case nf_path f of Some path \<Rightarrow> Inr path | None \<Rightarrow> Inl NotDirectory)
            | _ \<Rightarrow> Inl NotDirectory), release d k1))"

text \<open>The canonical form of a path relative to a directory's descriptor or, for -1, to the working
  directory.\<close>

definition sysResolvePath :: "int \<Rightarrow> string \<Rightarrow> int \<Rightarrow> kernel \<Rightarrow> (errno + string) \<times> kernel" where
  "sysResolvePath dirfd path capacity k =
     (if path = [] \<or> length path > MAX_PATH then (Inl ENAMETOOLONG, k)
      else
        let finish = (\<lambda>base k. case absolutePath base path k of
              Inl e \<Rightarrow> (Inl (vfsErrno e), k)
            | Inr canonical \<Rightarrow> (if capacity < int (length canonical) then Inl ERANGE else Inr canonical, k))
        in if dirfd = -1 \<or> hd path = CHR ''/'' then finish None k
           else case directoryPath dirfd k of
             (Inl e, k1) \<Rightarrow> (Inl (vfsErrno e), k1)
           | (Inr dir, k1) \<Rightarrow> finish (Some dir) k1)"

text \<open>The path argument of an \<open>*at\<close> call.\<close>

definition AT_FDCWD :: int where "AT_FDCWD = -100"

definition pathAt :: "int \<Rightarrow> string \<Rightarrow> kernel \<Rightarrow> (errno + string) \<times> kernel" where
  "pathAt dirfd path k =
     (if path = [] then (Inl ENOENT, k)
      else if length path > MAX_PATH then (Inl ENAMETOOLONG, k)
      else if hd path = CHR ''/'' \<or> dirfd = AT_FDCWD then (Inr path, k)
      else sysResolvePath dirfd path 256 k)"

definition at_path :: "int \<Rightarrow> string \<Rightarrow> (string \<Rightarrow> kernel \<Rightarrow> (errno + 'a) \<times> kernel) \<Rightarrow> kernel \<Rightarrow> (errno + 'a) \<times> kernel" where
  "at_path dirfd path f k =
     (case pathAt dirfd path k of (Inl e, k1) \<Rightarrow> (Inl e, k1) | (Inr full, k1) \<Rightarrow> f full k1)"

definition openat :: "int \<Rightarrow> string \<Rightarrow> open_flags \<Rightarrow> kernel \<Rightarrow> (errno + int) \<times> kernel" where
  "openat dirfd path fl = at_path dirfd path (\<lambda>full. sys_open full fl)"

definition mkdirat :: "int \<Rightarrow> string \<Rightarrow> kernel \<Rightarrow> (errno + unit) \<times> kernel" where
  "mkdirat dirfd path = at_path dirfd path sys_mkdir"

definition fstatat :: "int \<Rightarrow> string \<Rightarrow> kernel \<Rightarrow> (errno + int \<times> bool \<times> bool) \<times> kernel" where
  "fstatat dirfd path = at_path dirfd path sys_stat"

definition chdir :: "string \<Rightarrow> kernel \<Rightarrow> (errno + unit) \<times> kernel" where
  "chdir path = at_path AT_FDCWD path sys_chdir"

definition fchdir :: "int \<Rightarrow> kernel \<Rightarrow> (errno + unit) \<times> kernel" where
  "fchdir fd k =
     (case sysResolvePath fd ''.'' 256 k of
        (Inl e, k1) \<Rightarrow> (Inl e, k1)
      | (Inr dir, k1) \<Rightarrow> sys_chdir dir k1)"

section \<open>Starting a program\<close>

text \<open>A process that does not run: its number, its table and its working directory.\<close>

type_synonym process = "int \<times> entry list \<times> string"

text \<open>The processor goes to another process; what was running is set aside.\<close>

definition switch :: "process \<Rightarrow> kernel \<Rightarrow> process \<times> kernel" where
  "switch c k =
     ((owner_pid k, table k, cwd k), k\<lparr>table := fst (snd c), owner_pid := fst c, cwd := snd (snd c)\<rparr>)"

datatype file_action =
    AddDup2 int int | AddClose int | AddOpen int string open_flags | AddChdir string | AddFchdir int

text \<open>The child's table as \<open>posix_spawn\<close> works it out: for each number the parent's descriptor and
  its close-on-exec flag.\<close>

definition spawn_slots :: "kernel \<Rightarrow> (int \<times> bool) option list" where
  "spawn_slots k =
     map (\<lambda>fd. case fst (fcntl_getfd (int fd) k) of Inl _ \<Rightarrow> None | Inr cloexec \<Rightarrow> Some (int fd, cloexec)) [0..<256]"

text \<open>Asking each number for its flags comes to reading the table.\<close>

fun table_slots :: "int \<Rightarrow> entry list \<Rightarrow> (int \<times> bool) option list" where
  "table_slots i [] = []"
| "table_slots i (e # es) = (if e_desc e = None then None else Some (i, e_cloexec e)) # table_slots (i + 1) es"

lemma getfd_result:
  "fst (fcntl_getfd fd k) =
    (if bad_index fd \<or> e_desc (entry_of k fd) = None then Inl EBADF else Inr (e_cloexec (entry_of k fd)))"
  by (auto simp: fcntl_getfd_def with_desc_def lookup_def cloexecOf_def errno_of_def entry_of_def retain_def upd_desc_def
      split: option.splits)

lemma table_slots_eq:
  "table_slots i es = map (\<lambda>n. case slot es (int n) of
     Some e \<Rightarrow> if e_desc e = None then None else Some (i + int n, e_cloexec e) | None \<Rightarrow> None) [0..<length es]"
proof (induction i es rule: table_slots.induct)
  case (2 i e es)
  have "[0..<length (e # es)] = 0 # map Suc [0..<length es]" by (simp add: upt_conv_Cons map_Suc_upt del: upt_Suc)
  then show ?case using 2 by (auto simp: add.assoc split: option.split)
qed simp

lemma spawn_slots_table [code]:
  "spawn_slots k =
    (if length (table k) = 256 then table_slots 0 (table k)
     else map (\<lambda>fd. case fst (fcntl_getfd (int fd) k) of Inl _ \<Rightarrow> None | Inr cloexec \<Rightarrow> Some (int fd, cloexec)) [0..<256])"
  by (auto simp: spawn_slots_def table_slots_eq getfd_result bad_index_def MAX_OPEN_def entry_of_def split: option.splits)

text \<open>A path of an action, relative to the directory that earlier actions chose.\<close>

definition join_path :: "string \<Rightarrow> string \<Rightarrow> kernel \<Rightarrow> (errno + string) \<times> kernel" where
  "join_path base path k =
     (if path \<noteq> [] \<and> hd path = CHR ''/'' then sysResolvePath (-1) path 256 k
      else if int (length base) + 1 + int (length path) > 520 then (Inl ENAMETOOLONG, k)
      else sysResolvePath (-1) (base @ CHR ''/'' # path) 256 k)"

definition action_base :: "string option \<Rightarrow> kernel \<Rightarrow> errno + string" where
  "action_base chosen k = (case chosen of Some dir \<Rightarrow> Inr dir | None \<Rightarrow> sys_getcwd 256 k)"

text \<open>The actions in order: the slots, the descriptors opened for the child so far, and the directory
  chosen. An error leaves the opened descriptors to be closed.\<close>

record spawn_plan =
  sp_slots :: "(int \<times> bool) option list"
  sp_opened :: "int list"
  sp_cwd :: "string option"

definition spawn_action :: "file_action \<Rightarrow> spawn_plan \<times> kernel \<Rightarrow> (errno + unit) \<times> spawn_plan \<times> kernel" where
  "spawn_action a = (\<lambda>(p, k).
     case a of
       AddClose fd \<Rightarrow>
         if bad_index fd then (Inl EBADF, p, k)
         else (Inr (), p\<lparr>sp_slots := set_slot fd None (sp_slots p)\<rparr>, k)
     | AddDup2 source fd \<Rightarrow>
         if bad_index fd then (Inl EBADF, p, k)
         else (case deref (sp_slots p) source of
                 None \<Rightarrow> (Inl EBADF, p, k)
               | Some (parent, _) \<Rightarrow> (Inr (), p\<lparr>sp_slots := set_slot fd (Some (parent, False)) (sp_slots p)\<rparr>, k))
     | AddOpen fd path fl \<Rightarrow>
         if bad_index fd then (Inl EBADF, p, k)
         else (case action_base (sp_cwd p) k of
                 Inl e \<Rightarrow> (Inl e, p, k)
               | Inr base \<Rightarrow>
                   (case join_path base path k of
                      (Inl e, k1) \<Rightarrow> (Inl e, p, k1)
                    | (Inr full, k1) \<Rightarrow>
                        (case openat AT_FDCWD full (fl\<lparr>o_cloexec := True\<rparr>) k1 of
                           (Inl e, k2) \<Rightarrow> (Inl e, p, k2)
                         | (Inr opened, k2) \<Rightarrow>
                             (Inr (), p\<lparr>sp_slots := set_slot fd (Some (opened, False)) (sp_slots p),
                                        sp_opened := sp_opened p @ [opened]\<rparr>, k2))))
     | AddChdir path \<Rightarrow>
         (case action_base (sp_cwd p) k of
            Inl e \<Rightarrow> (Inl e, p, k)
          | Inr base \<Rightarrow>
              (case join_path base path k of
                 (Inl e, k1) \<Rightarrow> (Inl e, p, k1)
               | (Inr dir, k1) \<Rightarrow> (Inr (), p\<lparr>sp_cwd := Some dir\<rparr>, k1)))
     | AddFchdir fd \<Rightarrow>
         if bad_index fd then (Inl EBADF, p, k)
         else (case deref (sp_slots p) fd of
                 None \<Rightarrow> (Inl EBADF, p, k)
               | Some (parent, _) \<Rightarrow>
                   (case sysResolvePath parent ''.'' 256 k of
                      (Inl e, k1) \<Rightarrow> (Inl e, p, k1)
                    | (Inr dir, k1) \<Rightarrow> (Inr (), p\<lparr>sp_cwd := Some dir\<rparr>, k1))))"

fun spawn_actions :: "file_action list \<Rightarrow> spawn_plan \<times> kernel \<Rightarrow> (errno + unit) \<times> spawn_plan \<times> kernel" where
  "spawn_actions [] pk = (Inr (), pk)"
| "spawn_actions (a # rest) pk =
     (case spawn_action a pk of (Inl e, pk') \<Rightarrow> (Inl e, pk') | (Inr _, pk') \<Rightarrow> spawn_actions rest pk')"

text \<open>The pairs of numbers of the request: the child's and the parent's.\<close>

fun spawn_pairs :: "int \<Rightarrow> (int \<times> bool) option list \<Rightarrow> (int \<times> int) list" where
  "spawn_pairs i [] = []"
| "spawn_pairs i (s # ss) =
     (let rest = spawn_pairs (i + 1) ss
      in case s of None \<Rightarrow> rest | Some (parent, cloexec) \<Rightarrow> if cloexec then rest else (i, parent) # rest)"

text \<open>The kernel takes a reference on each granted description, or drops those it has taken.\<close>

fun take_grants :: "(int \<times> int) list \<Rightarrow> (int \<times> ptr) list \<Rightarrow> kernel \<Rightarrow> (errno + (int \<times> ptr) list) \<times> kernel" where
  "take_grants [] taken k = (Inr taken, k)"
| "take_grants ((i, parent) # rest) taken k =
     (case lookup parent k of
        (None, k1) \<Rightarrow> (Inl EBADF, fold (\<lambda>(_, d). release d) taken k1)
      | (Some d, k1) \<Rightarrow> take_grants rest (taken @ [(i, d)]) k1)"

definition empty_table :: "entry list" where
  "empty_table = replicate 256 \<lparr>e_desc = None, e_cloexec = False\<rparr>"

lemma empty_table_code [code]:
  "empty_table = concat (replicate 16 (replicate 16 \<lparr>e_desc = None, e_cloexec = False\<rparr>))"
  by (simp add: empty_table_def numeral_eq_Suc)

definition install_grants :: "(int \<times> ptr) list \<Rightarrow> entry list" where
  "install_grants grants = fold (\<lambda>(i, d). set_slot i \<lparr>e_desc = Some d, e_cloexec = False\<rparr>) grants empty_table"

text \<open>The kernel's part: the directory and the program must exist, the grants be the parent's, and the
  new task gets the next number. The program itself is looked up by its path.\<close>

definition check_directory :: "string \<Rightarrow> kernel \<Rightarrow> (errno + string) \<times> kernel" where
  "check_directory dir = with_path dir (\<lambda>name k.
     case resolve name (fsys k) of
       (Inl e, fs) \<Rightarrow> (Inl (vfsErrno e), k\<lparr>fsys := fs\<rparr>)
     | (Inr n, fs) \<Rightarrow> (if isDir n fs then Inr name else Inl ENOTDIR, k\<lparr>fsys := vfs_release n fs\<rparr>))"

definition spawn_path :: "string \<Rightarrow> string \<Rightarrow> (int \<times> ptr) list \<Rightarrow> kernel \<Rightarrow> (errno + process) \<times> kernel" where
  "spawn_path name dir grants k =
     (case resolve name (fsys k) of
        (Inl _, fs) \<Rightarrow> (Inl ENOENT, fold (\<lambda>(_, d). release d) grants (k\<lparr>fsys := fs\<rparr>))
      | (Inr n, fs) \<Rightarrow>
          let k1 = k\<lparr>fsys := vfs_release n fs\<rparr>
          in if isDir n fs \<or> node_size n fs = 0 then (Inl ENOEXEC, fold (\<lambda>(_, d). release d) grants k1)
             else (Inr (next_pid k, install_grants grants, dir),
                   k1\<lparr>tasks := tasks k @ [\<lparr>t_pid = next_pid k, t_parent = owner_pid k, t_exit = None\<rparr>],
                      next_pid := next_pid k + 1\<rparr>))"

definition sysSpawnProcess :: "string \<Rightarrow> (int \<times> int) list \<Rightarrow> string option \<Rightarrow> kernel \<Rightarrow> (errno + process) \<times> kernel" where
  "sysSpawnProcess path pairs dir = with_path path (\<lambda>name k.
     let go = (\<lambda>dir k. case take_grants pairs [] k of
           (Inl e, k1) \<Rightarrow> (Inl e, k1)
         | (Inr grants, k1) \<Rightarrow> spawn_path name dir grants k1)
     in case dir of
          None \<Rightarrow> go (cwd k) k
        | Some d \<Rightarrow> (case check_directory d k of (Inl e, k1) \<Rightarrow> (Inl e, k1) | (Inr dir, k1) \<Rightarrow> go dir k1))"

text \<open>\<open>posix_spawn\<close>: the descriptors opened for the child are closed again in every case.\<close>

definition close_opened :: "int list \<Rightarrow> kernel \<Rightarrow> kernel" where
  "close_opened = fold (\<lambda>fd k. snd (sys_close fd k))"

definition posix_spawn :: "string \<Rightarrow> file_action list \<Rightarrow> kernel \<Rightarrow> (errno + process) \<times> kernel" where
  "posix_spawn path actions k =
     (case spawn_actions actions (\<lparr>sp_slots = spawn_slots k, sp_opened = [], sp_cwd = None\<rparr>, k) of
        (Inl e, p, k1) \<Rightarrow> (Inl e, close_opened (sp_opened p) k1)
      | (Inr _, p, k1) \<Rightarrow>
          (case sysSpawnProcess path (spawn_pairs 0 (sp_slots p)) (sp_cwd p) k1 of
             (r, k2) \<Rightarrow> (r, close_opened (sp_opened p) k2)))"

text \<open>\<open>posix_spawnp\<close>: the directories of \<open>PATH\<close> in turn, where the file exists.\<close>

fun spawn_search :: "string list \<Rightarrow> string \<Rightarrow> file_action list \<Rightarrow> errno + process \<Rightarrow> kernel \<Rightarrow> (errno + process) \<times> kernel" where
  "spawn_search [] name actions result k = (result, k)"
| "spawn_search (dir # dirs) name actions result k =
     (let base = (if dir = [] then ''.'' else dir); candidate = base @ CHR ''/'' # name
      in if int (length candidate) > 256 then spawn_search dirs name actions result k
         else case sys_stat candidate k of
           (Inl _, k1) \<Rightarrow> spawn_search dirs name actions result k1
         | (Inr _, k1) \<Rightarrow>
             (case posix_spawn candidate actions k1 of
                (Inl ENOENT, k2) \<Rightarrow> spawn_search dirs name actions (Inl ENOENT) k2
              | (r, k2) \<Rightarrow> (r, k2)))"

definition posix_spawnp :: "string list \<Rightarrow> string \<Rightarrow> file_action list \<Rightarrow> kernel \<Rightarrow> (errno + process) \<times> kernel" where
  "posix_spawnp path_dirs file actions k =
     (if file = [] then (Inl ENOENT, k)
      else if CHR ''/'' \<in> set file then posix_spawn file actions k
      else spawn_search path_dirs file actions (Inl ENOENT) k)"

section \<open>Exit and wait\<close>

text \<open>\<open>FileTable.clear\<close>, the release of the process's locks, and the orphaning of its children, as the
  last thread exits with a code.\<close>

fun table_descs :: "entry list \<Rightarrow> ptr list" where
  "table_descs [] = []"
| "table_descs (e # es) = (case e_desc e of None \<Rightarrow> table_descs es | Some d \<Rightarrow> d # table_descs es)"

definition orphanChildrenLocked :: "int \<Rightarrow> task list \<Rightarrow> task list" where
  "orphanChildrenLocked pid = map (\<lambda>t. if t_parent t = pid then t\<lparr>t_parent := 0\<rparr> else t)"

definition process_exit :: "int \<Rightarrow> kernel \<Rightarrow> kernel" where
  "process_exit code k =
     (let pid = owner_pid k;
          k1 = fold release (table_descs (table k)) (k\<lparr>table := empty_table\<rparr>)
      in k1\<lparr>rlocks := releaseAll (Process pid) (rlocks k1),
            tasks := orphanChildrenLocked pid (map (\<lambda>t. if t_pid t = pid then t\<lparr>t_exit := Some code\<rparr> else t) (tasks k1))\<rparr>)"

datatype collected = Exited int | Running | Missing

definition collectChild :: "int \<Rightarrow> int \<Rightarrow> kernel \<Rightarrow> collected \<times> kernel" where
  "collectChild pid parent k =
     (case find (\<lambda>t. t_pid t = pid \<and> t_parent t = parent) (tasks k) of
        None \<Rightarrow> (Missing, k)
      | Some t \<Rightarrow>
          (case t_exit t of
             None \<Rightarrow> (Running, k)
           | Some code \<Rightarrow> (Exited code, k\<lparr>tasks := filter (\<lambda>u. t_pid u \<noteq> pid) (tasks k)\<rparr>)))"

text \<open>The kernel's result is a number: the code, or an error's. \<open>None\<close> is a wait that sleeps.\<close>

definition sys_wait :: "int \<Rightarrow> bool \<Rightarrow> kernel \<Rightarrow> int option \<times> kernel" where
  "sys_wait pid nohang k =
     (if pid = 0 \<or> pid > 2 ^ 32 - 1 then (Some (-10), k)
      else case collectChild pid (owner_pid k) k of
        (Exited code, k1) \<Rightarrow> (Some code, k1)
      | (Missing, k1) \<Rightarrow> (Some (-10), k1)
      | (Running, k1) \<Rightarrow> (if nohang then Some (-11) else None, k1))"

text \<open>\<open>wait4\<close> in libc: the errno or the pid, 0 for a child that still runs, with the exit status.\<close>

datatype wait_result = WaitErr int | WaitPid int int | WaitNone | WaitSleeps

definition waitpid :: "int \<Rightarrow> bool \<Rightarrow> kernel \<Rightarrow> wait_result \<times> kernel" where
  "waitpid pid nohang k =
     (if pid \<le> 0 then (WaitErr 38, k)
      else case sys_wait pid nohang k of
        (None, k1) \<Rightarrow> (WaitSleeps, k1)
      | (Some r, k1) \<Rightarrow>
          (if r = -11 then WaitNone
           else if r < 0 \<and> r > -4096 then WaitErr (- r)
           else WaitPid pid (r mod 256), k1))"

section \<open>Programs\<close>

text \<open>A program as far as it runs without waiting: it exits; it lets others run, since it has
  written a line that another process may read, sleeps, or waits for a message, and then goes on; it
  sleeps for a lock, with what it does once the call returns; or it waits for something else.\<close>

datatype program =
    Exits int kernel
  | Turns kernel "kernel \<Rightarrow> program"
  | Blocks kernel lock_wait flock "errno + flock \<Rightarrow> kernel \<Rightarrow> program"
  | Hangs

text \<open>A sleeping program is woken; it may have to sleep again.\<close>

definition wake :: "kernel \<Rightarrow> lock_wait \<Rightarrow> flock \<Rightarrow> (errno + flock \<Rightarrow> kernel \<Rightarrow> program) \<Rightarrow> program" where
  "wake k w request rest =
     (case lock_woken w request k of
        (LDone r, k1) \<Rightarrow> rest r k1
      | (LWaits w', k1) \<Rightarrow> Blocks k1 w' request rest
      | (LPanics, k1) \<Rightarrow> Hangs)"

text \<open>One program at a time runs here. A child that has run until it must wait, or may:\<close>

datatype child =
    CExit int
  | CTurn process "kernel \<Rightarrow> program"
  | CBlock process lock_wait flock "errno + flock \<Rightarrow> kernel \<Rightarrow> program"
  | CHang

definition run_child :: "process \<Rightarrow> (kernel \<Rightarrow> program) \<Rightarrow> kernel \<Rightarrow> child \<times> kernel" where
  "run_child c f k =
     (case switch c k of (me, k1) \<Rightarrow>
        case f k1 of
          Exits code k2 \<Rightarrow> (CExit code, snd (switch me k2))
        | Turns k2 rest \<Rightarrow> (case switch me k2 of (c', k3) \<Rightarrow> (CTurn c' rest, k3))
        | Blocks k2 w request rest \<Rightarrow> (case switch me k2 of (c', k3) \<Rightarrow> (CBlock c' w request rest, k3))
        | Hangs \<Rightarrow> (CHang, snd (switch me k1)))"

text \<open>The child goes on: from a turn, or woken.\<close>

definition continue_child :: "child \<Rightarrow> kernel \<Rightarrow> child \<times> kernel" where
  "continue_child c k =
     (case c of
        CTurn p rest \<Rightarrow> run_child p rest k
      | CBlock p w request rest \<Rightarrow> run_child p (\<lambda>k. wake k w request rest) k
      | _ \<Rightarrow> (c, k))"

end
