(* ===== verification/SocketCalls.thy ===== *)
theory SocketCalls
  imports KSyscall
begin

text \<open>
  The calls on local sockets: \<open>socketpair\<close>, \<open>sendmsg\<close>, \<open>recvmsg\<close> and \<open>shutdown\<close> of
  \<open>kernel/syscall/syscall.zig\<close>, and what \<open>userland/libs/musl-orange/orange.zig\<close> makes of the C
  library's calls. A message's data is given buffer by buffer; a control buffer is its length and the
  control messages in it.
\<close>

section \<open>The kernel\<close>

text \<open>A call's flags, which the kernel and the C library number differently; \<open>mf_other\<close>: some bit that has
  no name here.\<close>

record msg_flags =
  mf_dontwait :: bool
  mf_cloexec :: bool
  mf_peek :: bool
  mf_trunc :: bool
  mf_nosignal :: bool
  mf_other :: bool

definition NO_FLAGS :: msg_flags where
  "NO_FLAGS = \<lparr>mf_dontwait = False, mf_cloexec = False, mf_peek = False, mf_trunc = False, mf_nosignal = False, mf_other = False\<rparr>"

definition MSG_DONTWAIT :: msg_flags where "MSG_DONTWAIT = NO_FLAGS\<lparr>mf_dontwait := True\<rparr>"
definition MSG_CMSG_CLOEXEC :: msg_flags where "MSG_CMSG_CLOEXEC = NO_FLAGS\<lparr>mf_cloexec := True\<rparr>"

definition socket_kind :: "int \<Rightarrow> sock_kind option" where
  "socket_kind n = (if n = 1 then Some Stream else if n = 2 then Some Datagram else if n = 5 then Some Seqpacket else None)"

definition sys_socketpair :: "int \<Rightarrow> bool \<Rightarrow> bool \<Rightarrow> kernel \<Rightarrow> (errno + int \<times> int) \<times> kernel" where
  "sys_socketpair kind nonblock cloexec k =
     (case socket_kind kind of
        None \<Rightarrow> (Inl EINVAL, k)
      | Some s \<Rightarrow> errno_of (createSocketPair s nonblock cloexec k))"

text \<open>The socket behind a descriptor, referenced through its description.\<close>

definition socketOf :: "int \<Rightarrow> kernel \<Rightarrow> (errno + ptr \<times> ptr \<times> bool) \<times> kernel" where
  "socketOf fd k =
     (case lookup fd k of
        (None, k1) \<Rightarrow> (Inl EBADF, k1)
      | (Some d, k1) \<Rightarrow>
          (case map_option dobject (deref (descriptions k1) d) of
             Some (SocketObj p e) \<Rightarrow> (Inr (d, p, e), k1)
           | _ \<Rightarrow> (Inl ENOTSOCK, release d k1)))"

definition MAX_IOV :: int where "MAX_IOV = 1024"

text \<open>Gathering up to \<open>room\<close> bytes from the buffers, and scattering bytes over buffers of given sizes: an
  empty turn ends either loop.\<close>

fun gather :: "int \<Rightarrow> u8 list list \<Rightarrow> u8 list" where
  "gather room [] = []"
| "gather room (v # vs) =
     (let part = take (nat room) v in if part = [] then [] else part @ gather (room - int (length part)) vs)"

fun scatter :: "int list \<Rightarrow> u8 list \<Rightarrow> u8 list list" where
  "scatter [] bytes = []"
| "scatter (n # ns) bytes =
     (let part = take (nat n) bytes in if part = [] then [] else part # scatter ns (drop (length part) bytes))"

text \<open>References to the descriptions that are sent along: all of them, or none.\<close>

fun take_rights :: "ptr list \<Rightarrow> int list \<Rightarrow> kernel \<Rightarrow> ptr list option \<times> kernel" where
  "take_rights held [] k = (Some held, k)"
| "take_rights held (fd # fds) k =
     (case lookup fd k of
        (None, k1) \<Rightarrow> (None, fold release held k1)
      | (Some d, k1) \<Rightarrow> take_rights (held @ [d]) fds k1)"

definition desc_nonblock :: "ptr \<Rightarrow> kernel \<Rightarrow> bool" where
  "desc_nonblock d k = (case deref (descriptions k) d of Some x \<Rightarrow> st_nonblock (dstatus x) | None \<Rightarrow> False)"

text \<open>A send that waits keeps its data and the references it took.\<close>

datatype send_call = SendDone "errno + int" | SendWaits ptr "u8 list" "ptr list"

definition send_turn :: "ptr \<Rightarrow> ptr \<Rightarrow> bool \<Rightarrow> u8 list \<Rightarrow> ptr list \<Rightarrow> bool \<Rightarrow> kernel \<Rightarrow> send_call \<times> kernel" where
  "send_turn d p e bytes rights nonblock k =
     (case socket_send p e bytes rights nonblock k of
        (Ret n, k1) \<Rightarrow> (SendDone (Inr n), release d k1)
      | (Err err, k1) \<Rightarrow> (SendDone (Inl (vfsErrno err)), release d (fold release rights k1))
      | (Sleep, k1) \<Rightarrow> (SendWaits d bytes rights, k1))"

definition sys_sendmsg :: "int \<Rightarrow> u8 list list \<Rightarrow> int list \<Rightarrow> bool \<Rightarrow> msg_flags \<Rightarrow> kernel \<Rightarrow> send_call \<times> kernel" where
  "sys_sendmsg fd iov fds named flags k =
     (if mf_cloexec flags \<or> mf_peek flags \<or> mf_trunc flags \<or> mf_other flags then (SendDone (Inl EINVAL), k)
      else case socketOf fd k of
        (Inl err, k1) \<Rightarrow> (SendDone (Inl err), k1)
      | (Inr (d, p, e), k1) \<Rightarrow>
          let requested = int (length (concat iov)); fail = (\<lambda>err k. (SendDone (Inl err), release d k))
          in if int (length iov) > MAX_IOV then fail EINVAL k1
             else if map_option sk_kind (deref (sockets k1) p) \<noteq> Some Stream \<and> requested > SOCKET_CAPACITY then fail EMSGSIZE k1
             else if named then fail EISCONN k1
             else if int (length fds) > MAX_RIGHTS then fail EINVAL k1
             else case take_rights [] fds k1 of
               (None, k2) \<Rightarrow> fail EBADF k2
             | (Some rights, k2) \<Rightarrow>
                 send_turn d p e (gather (min requested SOCKET_CAPACITY) iov) rights (mf_dontwait flags \<or> desc_nonblock d k2) k2)"

text \<open>What arrived is installed; what does not fit is closed.\<close>

fun install_rights :: "int \<Rightarrow> bool \<Rightarrow> ptr list \<Rightarrow> kernel \<Rightarrow> int list \<times> bool \<times> kernel" where
  "install_rights room cloexec [] k = ([], False, k)"
| "install_rights room cloexec (d # ds) k =
     (let attempt = (if room > 0 then install d 0 cloexec k else (Inl TooManyOpen, k))
      in case attempt of
           (Inr n, k1) \<Rightarrow> (case install_rights (room - 1) cloexec ds k1 of (ns, dropped, k2) \<Rightarrow> (n # ns, dropped, k2))
         | (Inl _, k1) \<Rightarrow> (case install_rights room cloexec ds (release d k1) of (ns, dropped, k2) \<Rightarrow> (ns, True, k2)))"

text \<open>What \<open>recvmsg\<close> gives back: the filled buffers, descriptors, and whether data was cut or descriptors were
  dropped.\<close>

record arrived =
  ar_iov :: "u8 list list"
  ar_count :: int
  ar_fds :: "int list"
  ar_truncated :: bool
  ar_dropped :: bool

definition receive_turn :: "ptr \<Rightarrow> ptr \<Rightarrow> bool \<Rightarrow> int list \<Rightarrow> int \<Rightarrow> bool \<Rightarrow> bool \<Rightarrow> kernel \<Rightarrow> arrived call \<times> kernel" where
  "receive_turn d p e lens room cloexec nonblock k =
     (case socket_receive p e (min (sum_list lens) SOCKET_CAPACITY) nonblock k of
        (Sleep, k1) \<Rightarrow> (Waiting d, k1)
      | (Err err, k1) \<Rightarrow> (Done (Inl (vfsErrno err)), release d k1)
      | (Ret r, k1) \<Rightarrow>
          (case install_rights room cloexec (rc_rights r) k1 of (ns, dropped, k2) \<Rightarrow>
             (Done (Inr \<lparr>ar_iov = scatter lens (rc_bytes r), ar_count = int (length (rc_bytes r)), ar_fds = ns,
                ar_truncated = rc_truncated r, ar_dropped = dropped\<rparr>), release d k2)))"

text \<open>Asking for a peek or for the whole length of a datagram is for internet sockets.\<close>

definition sys_recvmsg :: "int \<Rightarrow> int list \<Rightarrow> int \<Rightarrow> msg_flags \<Rightarrow> kernel \<Rightarrow> arrived call \<times> kernel" where
  "sys_recvmsg fd lens room flags k =
     (if mf_nosignal flags \<or> mf_other flags then (Done (Inl EINVAL), k)
      else if mf_peek flags \<or> mf_trunc flags then (Done (Inl EINVAL), k)
      else case socketOf fd k of
        (Inl err, k1) \<Rightarrow> (Done (Inl err), k1)
      | (Inr (d, p, e), k1) \<Rightarrow>
          if int (length lens) > MAX_IOV then (Done (Inl EINVAL), release d k1)
          else receive_turn d p e lens room (mf_cloexec flags) (mf_dontwait flags \<or> desc_nonblock d k1) k1)"

definition sys_shutdown :: "int \<Rightarrow> int \<Rightarrow> kernel \<Rightarrow> (errno + unit) \<times> kernel" where
  "sys_shutdown fd how k =
     (if how < 0 \<or> how > 2 then (Inl EINVAL, k)
      else case socketOf fd k of
        (Inl err, k1) \<Rightarrow> (Inl err, k1)
      | (Inr (d, p, e), k1) \<Rightarrow>
          (Inr (), release d (case deref (sockets k1) p of
             None \<Rightarrow> k1 | Some x \<Rightarrow> socket_changed p (set_socket p (Some (sock_shutdown how e x)) k1))))"

section \<open>The C library\<close>

datatype domain = AF_UNIX | AF_INET

definition socketpair :: "domain \<Rightarrow> int \<Rightarrow> bool \<Rightarrow> bool \<Rightarrow> int \<Rightarrow> kernel \<Rightarrow> (errno + int \<times> int) \<times> kernel" where
  "socketpair domain base nonblock cloexec protocol k =
     (if domain \<noteq> AF_UNIX then (Inl EAFNOSUPPORT, k)
      else if protocol \<noteq> 0 then (Inl EPROTONOSUPPORT, k)
      else if base \<noteq> 1 \<and> base \<noteq> 2 \<and> base \<noteq> 5 then (Inl ESOCKTNOSUPPORT, k)
      else sys_socketpair base nonblock cloexec k)"

text \<open>Which flags a send accepts; a receive accepts all that have a name.\<close>

definition send_flags_ok :: "msg_flags \<Rightarrow> bool" where
  "send_flags_ok f \<longleftrightarrow> \<not> mf_cloexec f \<and> \<not> mf_peek f \<and> \<not> mf_trunc f \<and> \<not> mf_other f"

text \<open>A control message: its length with the header of 16 bytes, whether it is \<open>SOL_SOCKET\<close> and
  \<open>SCM_RIGHTS\<close>, and the numbers in it.\<close>

record cmsg =
  cm_len :: int
  cm_rights :: bool
  cm_fds :: "int list"

definition CMSG_HEADER :: int where "CMSG_HEADER = 16"

definition align8 :: "int \<Rightarrow> int" where "align8 n = (n + 7) div 8 * 8"

definition CMSG_LEN :: "int \<Rightarrow> int" where "CMSG_LEN n = CMSG_HEADER + n"
definition CMSG_SPACE :: "int \<Rightarrow> int" where "CMSG_SPACE n = CMSG_HEADER + align8 n"

text \<open>The loop over the control buffer of \<open>sendmsg\<close>.\<close>

fun control_rights :: "int \<Rightarrow> int \<Rightarrow> int list \<Rightarrow> cmsg list \<Rightarrow> errno + int list" where
  "control_rights controllen offset got [] = Inr got"
| "control_rights controllen offset got (c # cs) =
     (if offset + CMSG_HEADER > controllen then Inr got
      else if cm_len c < CMSG_HEADER \<or> offset + cm_len c > controllen then Inl EINVAL
      else if \<not> cm_rights c then Inl EINVAL
      else
        let n = (cm_len c - CMSG_HEADER) div 4; got' = got @ take (nat n) (cm_fds c)
        in if int (length got) + n > MAX_RIGHTS then Inl EINVAL
           else control_rights controllen (offset + align8 (cm_len c)) got' cs)"

definition sendmsg :: "int \<Rightarrow> u8 list list \<Rightarrow> int \<Rightarrow> cmsg list \<Rightarrow> msg_flags \<Rightarrow> kernel \<Rightarrow> send_call \<times> kernel" where
  "sendmsg fd iov controllen ctl flags k =
     (if \<not> send_flags_ok flags then (SendDone (Inl EOPNOTSUPP), k)
      else case control_rights controllen 0 [] ctl of
        Inl err \<Rightarrow> (SendDone (Inl err), k)
      | Inr fds \<Rightarrow> sys_sendmsg fd iov fds False flags k)"

definition send :: "int \<Rightarrow> u8 list \<Rightarrow> msg_flags \<Rightarrow> kernel \<Rightarrow> send_call \<times> kernel" where
  "send fd bytes flags = sendmsg fd [bytes] 0 [] flags"

text \<open>The room for descriptors in a control buffer, and what is put there.\<close>

definition rights_room :: "bool \<Rightarrow> int \<Rightarrow> int" where
  "rights_room has_control controllen =
     (if has_control \<and> controllen > CMSG_HEADER then min ((controllen - CMSG_HEADER) div 4) MAX_RIGHTS else 0)"

record delivery =
  dl_iov :: "u8 list list"
  dl_count :: int
  dl_control :: "cmsg option"
  dl_controllen :: int
  dl_trunc :: bool
  dl_ctrunc :: bool

definition delivered :: "arrived \<Rightarrow> delivery" where
  "delivered a =
     (let n = int (length (ar_fds a)); size' = CMSG_HEADER + n * 4
      in \<lparr>dl_iov = ar_iov a, dl_count = ar_count a,
          dl_control = (if n > 0 then Some \<lparr>cm_len = size', cm_rights = True, cm_fds = ar_fds a\<rparr> else None),
          dl_controllen = (if n > 0 then align8 size' else 0),
          dl_trunc = ar_truncated a, dl_ctrunc = ar_dropped a\<rparr>)"

definition map_call :: "('a \<Rightarrow> 'b) \<Rightarrow> 'a call \<times> kernel \<Rightarrow> 'b call \<times> kernel" where
  "map_call f r = (case r of
     (Done (Inr x), k) \<Rightarrow> (Done (Inr (f x)), k) | (Done (Inl e), k) \<Rightarrow> (Done (Inl e), k) | (Waiting d, k) \<Rightarrow> (Waiting d, k))"

definition recvmsg :: "int \<Rightarrow> int list \<Rightarrow> bool \<Rightarrow> int \<Rightarrow> msg_flags \<Rightarrow> kernel \<Rightarrow> delivery call \<times> kernel" where
  "recvmsg fd lens has_control controllen flags k =
     (if mf_other flags then (Done (Inl EOPNOTSUPP), k)
      else map_call delivered (sys_recvmsg fd lens (rights_room has_control controllen) flags k))"

definition recv :: "int \<Rightarrow> int \<Rightarrow> msg_flags \<Rightarrow> kernel \<Rightarrow> u8 list call \<times> kernel" where
  "recv fd room flags k = map_call (\<lambda>r. concat (dl_iov r)) (recvmsg fd [room] False 0 flags k)"

text \<open>The C library lets \<open>MSG_NOSIGNAL\<close> pass on a receive, as Linux does, but the kernel refuses it.\<close>

lemma recv_nosignal: "mf_nosignal flags \<Longrightarrow> \<not> mf_other flags \<Longrightarrow> recv fd room flags k = (Done (Inl EINVAL), k)"
  by (simp add: recv_def recvmsg_def sys_recvmsg_def map_call_def)

text \<open>A \<open>recvmsg\<close> that waited, going on.\<close>

definition recvmsg_again :: "ptr \<Rightarrow> int list \<Rightarrow> bool \<Rightarrow> int \<Rightarrow> msg_flags \<Rightarrow> kernel \<Rightarrow> delivery call \<times> kernel" where
  "recvmsg_again d lens has_control controllen flags k =
     (case map_option dobject (deref (descriptions k) d) of
        Some (SocketObj p e) \<Rightarrow>
          map_call delivered (receive_turn d p e lens (rights_room has_control controllen) (mf_cloexec flags)
            (mf_dontwait flags \<or> desc_nonblock d k) k)
      | _ \<Rightarrow> (Done (Inl EBADF), k))"

end
