(* ===== verification/SpawnChild.thy ===== *)
theory SpawnChild
  imports KSpawn SocketCalls
begin

text \<open>
  \<open>userland/bin/spawn-child/child.c\<close>, the program that \<open>spawn-probe\<close> and \<open>file-probe\<close> start: its first
  argument picks what it does. The modes over shared memory and signals are arguments of
  \<open>spawn_child_main\<close>, since the kernel behind them is not modelled.
\<close>

section \<open>The C library\<close>

text \<open>\<open>%d\<close> and \<open>%ld\<close>.\<close>

definition show_int :: "int \<Rightarrow> string" where
  "show_int i = (if i < 0 then CHR ''-'' # decimal (nat (- i)) else decimal (nat i))"

definition newline :: string where "newline = [CHR 0x0A]"

text \<open>\<open>fflush(stdout)\<close> of a few bytes, and the flush at exit, after which the process is gone.\<close>

definition flush :: "string \<Rightarrow> kernel \<Rightarrow> kernel" where
  "flush out k = snd (sys_write 1 (ascii out) k)"

definition exits :: "int \<Rightarrow> string \<Rightarrow> kernel \<Rightarrow> program" where
  "exits code out k = Exits code (process_exit code (flush out k))"

text \<open>\<open>toupper\<close> in the C locale.\<close>

definition toupper :: "u8 \<Rightarrow> u8" where
  "toupper c = (if 97 \<le> c \<and> c \<le> 122 then c - 32 else c)"

fun digits_value :: "int \<Rightarrow> string \<Rightarrow> int" where
  "digits_value n [] = n"
| "digits_value n (c # cs) =
     (if 48 \<le> (of_char c :: nat) \<and> (of_char c :: nat) \<le> 57 then digits_value (10 * n + of_char c - 48) cs else n)"

text \<open>\<open>atoi\<close> and \<open>atol\<close> on strings whose number fits.\<close>

definition is_space :: "char \<Rightarrow> bool" where
  "is_space c \<longleftrightarrow> (let n = of_char c :: nat in n = 32 \<or> 9 \<le> n \<and> n \<le> 13)"

definition atoi :: "string \<Rightarrow> int" where
  "atoi s =
     (case dropWhile is_space s of
        [] \<Rightarrow> 0
      | c # cs \<Rightarrow>
          if c = CHR ''-'' then - digits_value 0 cs
          else if c = CHR ''+'' then digits_value 0 cs
          else digits_value 0 (c # cs))"

section \<open>What it does\<close>

definition echo :: "string list \<Rightarrow> (string \<times> string) list \<Rightarrow> kernel \<Rightarrow> program" where
  "echo argv env k =
     (let shown = (\<lambda>name. case map_of env name of Some v \<Rightarrow> v | None \<Rightarrow> ''(unset)'')
      in exits 0
           (''argc='' @ show_int (int (length argv)) @ newline @
            concat (map (\<lambda>a. ''['' @ a @ '']'' @ newline) argv) @
            ''FOO='' @ shown ''FOO'' @ '' EMPTY='' @ shown ''EMPTY'' @
            '' MISSING='' @ (if map_of env ''MISSING'' \<noteq> None then ''set'' else ''(unset)'') @ newline) k)"

text \<open>The numbers below 64 that are open, each asked with \<open>F_GETFD\<close>.\<close>

fun open_fds :: "int list \<Rightarrow> kernel \<Rightarrow> int list \<times> kernel" where
  "open_fds [] k = ([], k)"
| "open_fds (fd # fds) k =
     (case fcntl_getfd fd k of (r, k1) \<Rightarrow>
        case open_fds fds k1 of (found, k2) \<Rightarrow> (case r of Inl _ \<Rightarrow> found | Inr _ \<Rightarrow> fd # found, k2))"

definition list_fds :: "kernel \<Rightarrow> program" where
  "list_fds k =
     (case open_fds (map int [0..<64]) k of (found, k1) \<Rightarrow>
        exits 0 (''open:'' @ concat (map (\<lambda>fd. CHR '' '' # show_int fd) found) @ newline) k1)"

text \<open>Asking the numbers in turn comes to reading the table, where every open entry has its description.\<close>

fun taken :: "int \<Rightarrow> entry list \<Rightarrow> int list" where
  "taken i [] = []"
| "taken i (e # es) = (if e_desc e = None then taken (i + 1) es else i # taken (i + 1) es)"

definition entry_ok :: "kernel \<Rightarrow> entry \<Rightarrow> bool" where
  "entry_ok k e \<longleftrightarrow> (case e_desc e of None \<Rightarrow> True
     | Some d \<Rightarrow> (case deref (descriptions k) d of Some x \<Rightarrow> 1 \<le> refs x | None \<Rightarrow> False))"

lemma getfd_keeps:
  "entry_ok k (entry_of k fd) \<Longrightarrow> \<not> bad_index fd \<Longrightarrow>
    fcntl_getfd fd k = (if e_desc (entry_of k fd) = None then Inl EBADF else Inr (e_cloexec (entry_of k fd)), k)"
  by (auto simp: entry_ok_def getfd_open split: option.splits)
    (simp add: fcntl_getfd_def with_desc_def lookup_def entry_of_def)

lemma open_fds_taken:
  "list_all (entry_ok k) es \<Longrightarrow> \<forall>j < length es. slot (table k) (int (n + j)) = Some (es ! j) \<Longrightarrow> n + length es \<le> 256 \<Longrightarrow>
    open_fds (map int [n..<n + length es]) k = (taken (int n) es, k)"
proof (induction es arbitrary: n)
  case (Cons e es)
  have e: "entry_of k (int n) = e" using Cons.prems(2)[rule_format, of 0] by (simp add: entry_of_def)
  have "\<not> bad_index (int n)" using Cons.prems(3) by (simp add: bad_index_def MAX_OPEN_def)
  then have g: "fcntl_getfd (int n) k = (if e_desc e = None then Inl EBADF else Inr (e_cloexec e), k)"
    using getfd_keeps [of k "int n"] Cons.prems(1) by (simp add: e)
  have "\<forall>j < length es. slot (table k) (int (Suc n + j)) = Some (es ! j)"
    using Cons.prems(2) by (metis Suc_less_eq add_Suc add_Suc_right length_Cons nth_Cons_Suc)
  then have "open_fds (map int [Suc n..<Suc n + length es]) k = (taken (int (Suc n)) es, k)"
    using Cons.prems(1,3) by (intro Cons.IH) auto
  moreover have "[n..<n + length (e # es)] = n # [Suc n..<Suc n + length es]"
    using upt_conv_Cons [of n "n + length (e # es)"] by (simp del: upt_Suc)
  ultimately show ?case using g by (simp add: add.commute)
qed simp

lemma list_fds_table [code]:
  "list_fds k =
    (let es = take 64 (table k)
     in if length (table k) = 256 \<and> list_all (entry_ok k) es
        then exits 0 (''open:'' @ concat (map (\<lambda>fd. CHR '' '' # show_int fd) (taken 0 es)) @ newline) k
        else case open_fds (map int [0..<64]) k of (found, k1) \<Rightarrow>
          exits 0 (''open:'' @ concat (map (\<lambda>fd. CHR '' '' # show_int fd) found) @ newline) k1)"
proof -
  have s: "slot xs (int j) = Some (xs ! j)" if "j < length xs" for j and xs :: "entry list"
    using that by (induction xs arbitrary: j) (auto simp: less_Suc_eq_0_disj)
  have "open_fds (map int [0..<64]) k = (taken 0 (take 64 (table k)), k)"
    if "length (table k) = 256" "list_all (entry_ok k) (take 64 (table k))"
    using open_fds_taken [OF that(2), of 0] that(1) by (simp add: s)
  then show ?thesis by (simp add: list_fds_def Let_def)
qed

text \<open>\<open>None\<close> while it waits for input or for room.\<close>

partial_function (option) upper :: "kernel \<Rightarrow> (int \<times> kernel) option" where
  "upper k =
     (case sys_read 0 256 k of
        (Waiting _, _) \<Rightarrow> None
      | (Done (Inl _), k1) \<Rightarrow> Some (3, k1)
      | (Done (Inr bytes), k1) \<Rightarrow>
          if bytes = [] then Some (0, k1)
          else case sys_write 1 (map toupper bytes) k1 of
            (Waiting _, _) \<Rightarrow> None
          | (Done r, k2) \<Rightarrow> if r = Inr (int (length bytes)) then upper k2 else Some (2, k2))"

declare upper.simps [code]

definition write_lock :: "int \<Rightarrow> int \<Rightarrow> flock" where
  "write_lock start n = \<lparr>l_type = F_WRLCK, l_whence = 0, l_start = start, l_len = n, l_pid = 0\<rparr>"

definition O_RDWR :: open_flags where "O_RDWR = O_RDONLY\<lparr>o_write := True\<rparr>"

text \<open>\<open>F_SETLKW\<close>, exiting with \<open>code\<close> when it fails and saying so when it is granted.\<close>

definition acquire :: "int \<Rightarrow> flock \<Rightarrow> int \<Rightarrow> kernel \<Rightarrow> program" where
  "acquire fd lock code k =
     (let rest = (\<lambda>r k. case r of Inl _ \<Rightarrow> exits code [] k | Inr _ \<Rightarrow> exits 0 (''acquired'' @ newline) k)
      in case fcntl_lock fd F_SETLKW lock k of
           (LDone r, k1) \<Rightarrow> rest r k1
         | (LWaits w, k1) \<Rightarrow> Blocks k1 w lock rest
         | (LPanics, k1) \<Rightarrow> Hangs)"

definition granted_now :: "lock_call \<Rightarrow> bool" where
  "granted_now r = (case r of LDone (Inr _) \<Rightarrow> True | _ \<Rightarrow> False)"

definition lock_child_probe :: "int \<Rightarrow> kernel \<Rightarrow> program" where
  "lock_child_probe fd k =
     (let lock = write_lock 0 10
      in case fcntl_lock fd F_SETLK lock k of (refused, k1) \<Rightarrow>
           if refused \<noteq> LDone (Inl EAGAIN) then exits 21 [] k1
           else case fcntl_lock fd F_GETLK lock k1 of
             (LDone (Inr query), k2) \<Rightarrow>
               Turns (flush (''held by '' @ show_int (l_pid query) @ '' '' @
                        (if l_type query = F_WRLCK then ''write'' else ''other'') @ '' '' @
                        show_int (l_start query) @ '' '' @ show_int (l_len query) @ newline) k2)
                 (\<lambda>k. case fcntl_lock fd F_SETLK (\<lparr>l_type = F_RDLCK, l_whence = 0, l_start = 100, l_len = 10, l_pid = 0\<rparr>) k of
                    (r, k3) \<Rightarrow> if granted_now r then acquire fd lock 24 k3 else exits 23 [] k3)
           | (_, k2) \<Rightarrow> exits 22 [] k2)"

definition lock_child_deadlock :: "int \<Rightarrow> kernel \<Rightarrow> program" where
  "lock_child_deadlock fd k =
     (case fcntl_lock fd F_SETLK (write_lock 200 1) k of (r, k1) \<Rightarrow>
        if \<not> granted_now r then exits 25 [] k1
        else Turns (flush (''waiting'' @ newline) k1) (acquire fd (write_lock 300 1) 26))"

definition lock_child :: "string \<Rightarrow> string \<Rightarrow> kernel \<Rightarrow> program" where
  "lock_child path stage k =
     (case sys_open path O_RDWR k of
        (Inl _, k1) \<Rightarrow> exits 20 [] k1
      | (Inr fd, k1) \<Rightarrow>
          if stage = ''probe'' then lock_child_probe fd k1
          else if stage = ''deadlock'' then lock_child_deadlock fd k1
          else exits 27 [] k1)"

text \<open>Reading the line left at descriptor 20, and writing where standard output is closed.\<close>

definition motd20 :: "kernel \<Rightarrow> program" where
  "motd20 k =
     (case sys_read 20 64 k of
        (Waiting _, _) \<Rightarrow> Hangs
      | (Done (Inl _), k1) \<Rightarrow> exits 8 [] k1
      | (Done (Inr line), k1) \<Rightarrow>
          if line = [] then exits 8 [] k1
          else case sys_write 1 line k1 of
            (Waiting _, _) \<Rightarrow> Hangs
          | (Done r, k2) \<Rightarrow> exits (if r = Inr (int (length line)) then 0 else 8) [] k2)"

fun errno_number :: "errno \<Rightarrow> int" where
  "errno_number EPERM = 1" | "errno_number ENOENT = 2" | "errno_number EINTR_e = 4" | "errno_number EIO = 5"
| "errno_number ENXIO = 6" | "errno_number EBADF = 9" | "errno_number EAGAIN = 11" | "errno_number ENOMEM = 12"
| "errno_number EBUSY = 16" | "errno_number EEXIST = 17" | "errno_number EXDEV = 18" | "errno_number ENOTDIR = 20"
| "errno_number EISDIR = 21" | "errno_number EINVAL = 22" | "errno_number EMFILE = 24" | "errno_number EFBIG = 27"
| "errno_number ENOSPC = 28" | "errno_number ESPIPE = 29" | "errno_number EROFS = 30" | "errno_number EPIPE = 32"
| "errno_number EDEADLK = 35" | "errno_number ENAMETOOLONG = 36" | "errno_number ENOLCK = 37"
| "errno_number ENOTEMPTY = 39" | "errno_number EOVERFLOW = 75" | "errno_number EMSGSIZE = 90"
| "errno_number ERANGE = 34" | "errno_number ECHILD = 10" | "errno_number ENOEXEC = 8" | "errno_number ENOTSOCK = 88"
| "errno_number EPROTONOSUPPORT = 93" | "errno_number ESOCKTNOSUPPORT = 94" | "errno_number EOPNOTSUPP = 95"
| "errno_number EAFNOSUPPORT = 97" | "errno_number EISCONN = 106"

definition stdout_closed :: "kernel \<Rightarrow> program" where
  "stdout_closed k =
     (case sys_write 1 (ascii ''x'') k of
        (Waiting _, _) \<Rightarrow> Hangs
      | (Done (Inl e), k1) \<Rightarrow> exits (errno_number e) [] k1
      | (Done (Inr _), k1) \<Rightarrow> exits 0 [] k1)"

text \<open>A descriptor arrives over the socket at 3, and a line goes out through it. Woken without a message,
  the receive would wait again; nothing wakes it so here.\<close>

definition socket_finish :: "delivery call \<Rightarrow> kernel \<Rightarrow> program" where
  "socket_finish r k =
     (case r of
        Waiting _ \<Rightarrow> Hangs
      | Done (Inl _) \<Rightarrow> exits 4 [] k
      | Done (Inr m) \<Rightarrow>
          if dl_count m \<noteq> 1 then exits 4 [] k
          else case dl_control m of
            None \<Rightarrow> exits 5 [] k
          | Some c \<Rightarrow>
              if \<not> cm_rights c then exits 5 [] k
              else case sys_write (hd (cm_fds c)) (ascii (''from child'' @ newline)) k of
                (Waiting _, _) \<Rightarrow> Hangs
              | (Done r, k1) \<Rightarrow> exits (if r = Inr 11 then 0 else 6) [] k1)"

definition socket_child :: "kernel \<Rightarrow> program" where
  "socket_child k =
     (case recvmsg 3 [1] True (CMSG_SPACE 4) NO_FLAGS k of
        (Waiting d, k1) \<Rightarrow> Turns k1 (\<lambda>k. case recvmsg_again d [1] True (CMSG_SPACE 4) NO_FLAGS k of (r, k2) \<Rightarrow> socket_finish r k2)
      | (r, k1) \<Rightarrow> socket_finish r k1)"

text \<open>\<open>main\<close>. A sleep lets other processes run; \<open>abort\<close> ends the process with \<open>SIGABRT\<close>, whose default
  action is an exit with 128 and the signal's number.\<close>

definition spawn_child_main ::
  "(kernel \<Rightarrow> program) \<Rightarrow> (kernel \<Rightarrow> program) \<Rightarrow> (string \<times> string) list \<Rightarrow>
   string list \<Rightarrow> kernel \<Rightarrow> program" where
  "spawn_child_main shared_memory_child trap_term env argv k =
     (let argc = length argv
      in if argc < 2 then exits 100 [] k
         else
           let mode = argv ! 1
           in if mode = ''echo'' then echo argv env k
              else if mode = ''fds'' then list_fds k
              else if mode = ''cwd'' then (case sys_getcwd 256 k of Inr d \<Rightarrow> exits 0 (d @ newline) k | Inl _ \<Rightarrow> exits 7 [] k)
              else if mode = ''upper'' then
                (case upper k of None \<Rightarrow> Hangs | Some (code, k1) \<Rightarrow> exits code [] k1)
              else if mode = ''motd20'' then motd20 k
              else if mode = ''lock'' \<and> argc > 3 then lock_child (argv ! 2) (argv ! 3) k
              else if mode = ''socket'' then socket_child k
              else if mode = ''shm'' then shared_memory_child k
              else if mode = ''trap-term'' then trap_term k
              else if mode = ''abort'' then Exits 134 (process_exit 134 k)
              else if mode = ''exit'' \<and> argc > 2 then exits (atoi (argv ! 2)) [] k
              else if mode = ''sleep'' \<and> argc > 2 then Turns k (exits 3 [])
              else if mode = ''stdout-closed'' then stdout_closed k
              else exits 101 [] k)"

section \<open>Upper case through pipes\<close>

lemma pipe_end_other:
  "pipe_end ob nonblock fd p q k \<Longrightarrow> p \<noteq> p' \<Longrightarrow> pipe_end ob nonblock fd p q (set_pipe p' q' k)"
  by (auto simp: pipe_end_def set_pipe_def deref_set_slot entry_of_def split: fd_object.splits)

lemma set_pipe_same: "deref (pipes k) p = Some q \<Longrightarrow> set_pipe p q k = k"
  by (intro kernel.equality) (auto simp: set_pipe_def deref_Some)

lemma set_pipe_again:
  "p \<noteq> p' \<Longrightarrow> set_pipe p' b (set_pipe p a (set_pipe p' b' (set_pipe p a' k))) = set_pipe p' b (set_pipe p a k)"
  by (simp add: set_pipe_def set_slot_swap [of p p'])

lemma sys_read_eof:
  assumes e: "pipe_end (PipeRead p) nonblock fd p q k" and c: "0 < count" and eof: "len q = 0" "writers q = 0"
  shows "sys_read fd count k = (Done (Inr []), k)"
proof -
  obtain d x where d: "\<not> bad_index fd" "deref (pipes k) p = Some q" "e_desc (entry_of k fd) = Some d"
    "deref (descriptions k) d = Some x" "1 \<le> refs x" "dobject x = PipeRead p" "st_nonblock (dstatus x) = nonblock"
    "st_read (dstatus x)" using e by (auto simp: pipe_end_def)
  have r: "deref (descriptions (retain d k)) d = Some (x\<lparr>refs := refs x + 1\<rparr>)" "pipes (retain d k) = pipes k"
    using d by (auto simp: retain_eq deref_set_slot deref_Some)
  have a: "read_attempt (min count 4096) nonblock False q = (Returns [], q)"
    using c eof by (simp add: read_attempt_def)
  have "min count 4096 \<noteq> 0" using c by simp
  then show ?thesis
    using d r a release_retain [OF d(4,5)]
    by (simp add: sys_read_def lookup_def read_turn_def end_turn_def desc_read_def Let_def)
qed

lemma upper_result:
  assumes "pipe_end (PipeRead p) False 0 p q k" "writers q = 0" "pipe_ok q" "quiet p k"
    "pipe_end (PipeWrite p') False 1 p' q' k" "0 < readers q'" "pipe_ok q'" "quiet p' k"
    "p \<noteq> p'" "len q + len q' \<le> CAPACITY"
  shows "\<exists>r w. upper k = Some (0, set_pipe p' w (set_pipe p r k)) \<and> contents r = [] \<and>
    contents w = contents q' @ map toupper (contents q)"
  using assms
proof (induction "nat (len q)" arbitrary: k q q' rule: less_induct)
  case less
  note e = less.prems
  show ?case
  proof (cases "len q = 0")
    case True
    have "upper k = Some (0, k)"
      using sys_read_eof [OF e(1) _ True e(2), of 256] by (subst upper.simps) simp
    moreover have "set_pipe p' q' (set_pipe p q k) = k"
      using e(1,5) by (simp add: set_pipe_same pipe_end_def)
    moreover have "contents q = []" using True by (simp add: contents_def)
    ultimately show ?thesis by (intro exI [of _ q] exI [of _ q']) simp
  next
    case False
    then have pos: "0 < len q" using e(3) by (simp add: pipe_ok_def)
    let ?xs = "take 256 (contents q)"
    obtain q1 where r: "read_attempt 256 False False q = (Returns ?xs, q1)" "contents q1 = drop 256 (contents q)"
      "pipe_ok q1" "writers q1 = writers q"
      using read_attempt_contents [OF e(3) _ pos, of 256 False False] by auto
    have "contents q \<noteq> []" using pos length_contents [of q] by auto
    then have len: "len q1 = len q - int (length ?xs)" "?xs \<noteq> []"
      using arg_cong [OF r(2), of length] r(3) e(3) pos by (auto simp: length_contents pipe_ok_def)
    let ?k1 = "set_pipe p q1 k"
    have read: "sys_read 0 256 k = (Done (Inr ?xs), ?k1)"
      using sys_read_pipe(1) [OF e(1) _ _ e(4) r(1) len(2)] by simp
    let ?ys = "map toupper ?xs"
    have room: "int (length ?ys) \<le> CAPACITY - len q'"
      using e(10) len r(3) by (auto simp: pipe_ok_def)
    have "accepts ?ys 0 q'" using room e(6) len(2) by (simp add: accepts_def ATOMIC_WRITE_def)
    moreover have "min (nat (CAPACITY - len q')) (length ?ys - 0) = length ?ys" using room by linarith
    ultimately obtain q1' where w: "write_attempt ?ys 0 False False q' = (Returns (length ?ys), q1')"
      "contents q1' = contents q' @ ?ys" "pipe_ok q1'" "readers q1' = readers q'"
      using write_attempt_accepted [OF e(7), of 0 ?ys False False] len(2) by auto
    let ?k2 = "set_pipe p' q1' ?k1"
    have out: "pipe_end (PipeWrite p') False 1 p' q' ?k1" by (rule pipe_end_other [OF e(5)]) (use e(9) in simp)
    have wrote: "sys_write 1 ?ys ?k1 = (Done (Inr (int (length ?ys))), ?k2)"
      using sys_write_pipe(1) [OF out _ _ _ w(1)] len(2) e(8) by simp
    have len': "len q1' = len q' + int (length ?ys)"
      using arg_cong [OF w(2), of length] w(3) e(7) by (auto simp: length_contents pipe_ok_def)
    have "\<exists>r w. upper ?k2 = Some (0, set_pipe p' w (set_pipe p r ?k2)) \<and> contents r = [] \<and>
        contents w = contents q1' @ map toupper (contents q1)"
    proof (rule less.hyps)
      show "nat (len q1) < nat (len q)" using len pos by (cases ?xs) auto
      show "pipe_end (PipeRead p) False 0 p q1 ?k2"
        by (rule pipe_end_other [OF pipe_end_set_pipe [OF e(1)]]) (use e(9) in simp)
      show "pipe_end (PipeWrite p') False 1 p' q1' ?k2" by (rule pipe_end_set_pipe [OF out])
    qed (use e r w len len' in simp_all)
    then obtain a b where "upper ?k2 = Some (0, set_pipe p' b (set_pipe p a ?k2))" "contents a = []"
      "contents b = contents q1' @ map toupper (contents q1)" by blast
    moreover have "upper k = upper ?k2" using read wrote len(2) by (subst upper.simps) simp
    ultimately show ?thesis
      using w(2) r(2) e(9)
      by (intro exI [of _ a] exI [of _ b]) (simp add: set_pipe_again flip: map_append)
  qed
qed

text \<open>\<open>upper\<close>, given a pipe that nobody writes any more and another with room for what the first
  holds, ends with status 0, the first pipe empty, and the second holding what it held and then
  every byte of the first in upper case, none lost or repeated.\<close>

theorem upper_translates:
  assumes "pipe_end (PipeRead p) False 0 p q k" "writers q = 0" "pipe_ok q" "quiet p k"
    "pipe_end (PipeWrite p') False 1 p' q' k" "0 < readers q'" "pipe_ok q'" "quiet p' k"
    "p \<noteq> p'" "len q + len q' \<le> CAPACITY"
  shows "\<exists>r w. upper k = Some (0, set_pipe p' w (set_pipe p r k)) \<and> contents r = [] \<and>
    contents w = contents q' @ map toupper (contents q)"
  by (rule upper_result [OF assms])

text \<open>A program started with ''hi'' on a pipe at 0 and an empty pipe at 1.\<close>

definition hi_pipe :: pipe where
  "hi_pipe = pipe_create\<lparr>buffer := (\<lambda>i. if i = 0 then 104 else 105), len := 2, writers := 0\<rparr>"

definition upper_kernel :: kernel where
  "upper_kernel =
     \<lparr>descriptions = [Some \<lparr>refs = 1, dstatus = plain_status True False False, dobject = PipeRead 0\<rparr>,
        Some \<lparr>refs = 1, dstatus = plain_status False True False, dobject = PipeWrite 1\<rparr>],
      pipes = [Some hi_pipe, Some pipe_create], eventfds = [], epolls = [], sockets = [],
      table = [\<lparr>e_desc = Some 0, e_cloexec = False\<rparr>, \<lparr>e_desc = Some 1, e_cloexec = False\<rparr>],
      fsys = start_files, rlocks = no_locks, owner_pid = 8, cwd = ''/'', tasks = [], next_pid = 9\<rparr>"

theorem upper_translates_witness:
  "\<exists>r w. upper upper_kernel = Some (0, set_pipe 1 w (set_pipe 0 r upper_kernel)) \<and> contents w = [72, 73]"
proof -
  have e: "pipe_end (PipeRead 0) False 0 0 hi_pipe upper_kernel" "pipe_end (PipeWrite 1) False 1 1 pipe_create upper_kernel"
    by (auto simp: pipe_end_def upper_kernel_def bad_index_def MAX_OPEN_def deref_def entry_of_def plain_status_def)
  have q: "quiet p upper_kernel" for p by (simp add: quiet_def told_def upper_kernel_def)
  have h: "writers hi_pipe = 0" "pipe_ok hi_pipe" "len hi_pipe + len pipe_create \<le> CAPACITY" "0 < readers pipe_create"
    by (simp_all add: hi_pipe_def pipe_ok_def pipe_create_def CAPACITY_def)
  have c: "map toupper (contents hi_pipe) = [72, 73]" by code_simp
  from upper_translates [OF e(1) h(1,2) q e(2) h(4) contents_create(2) q _ h(3)] c show ?thesis by fastforce
qed

end
