(* ===== verification/LockProbe.thy ===== *)
theory LockProbe
  imports SpawnChild
begin

text \<open>
  The record lock tests of \<open>userland/bin/file-probe/probe.c\<close>: one process sets, splits and drops
  locks on a file and starts \<open>spawn-child\<close> as a second process that runs into them. The two
  processes take turns where the code lets either run first.
\<close>

section \<open>Helpers\<close>

definition LOCK_PATH :: string where "LOCK_PATH = ''/tmp/lock-probe''"

definition set_lock :: "int \<Rightarrow> lock_command \<Rightarrow> int \<Rightarrow> int \<Rightarrow> int \<Rightarrow> kernel \<Rightarrow> lock_call \<times> kernel" where
  "set_lock fd command type start n k =
     fcntl_lock fd command \<lparr>l_type = type, l_whence = 0, l_start = start, l_len = n, l_pid = 0\<rparr> k"

text \<open>What \<open>F_OFD_GETLK\<close> reports for an exclusive lock over the range; type -1 when it fails.\<close>

definition probe_lock :: "int \<Rightarrow> int \<Rightarrow> int \<Rightarrow> kernel \<Rightarrow> flock \<times> kernel" where
  "probe_lock fd start n k =
     (case fcntl_lock fd F_OFD_GETLK (write_lock start n) k of
        (LDone (Inr lock), k1) \<Rightarrow> (lock, k1)
      | (_, k1) \<Rightarrow> ((write_lock start n)\<lparr>l_type := -1\<rparr>, k1))"

text \<open>\<open>lock_child\<close>: the process started, with its standard output on a pipe whose other end is
  returned.\<close>

definition start_lock_child :: "kernel \<Rightarrow> (process \<times> int) option \<times> kernel" where
  "start_lock_child k =
     (case sys_pipe2 False False k of
        (Inl _, k1) \<Rightarrow> (None, k1)
      | (Inr (r, w), k1) \<Rightarrow>
          (case posix_spawn ''/bin/spawn-child'' [AddDup2 w 1, AddClose r] k1 of (spawned, k2) \<Rightarrow>
             case sys_close w k2 of (_, k3) \<Rightarrow>
               case spawned of
                 Inl _ \<Rightarrow> (None, snd (sys_close r k3))
               | Inr c \<Rightarrow> (Some (c, r), k3)))"

text \<open>\<open>read_line\<close>: bytes up to a newline, \<open>room\<close> of them at most. \<open>None\<close> while it waits.\<close>

fun read_line :: "nat \<Rightarrow> int \<Rightarrow> kernel \<Rightarrow> (u8 list \<times> kernel) option" where
  "read_line 0 fd k = Some ([], k)"
| "read_line (Suc room) fd k =
     (case sys_read fd 1 k of
        (Waiting _, _) \<Rightarrow> None
      | (Done (Inr [c]), k1) \<Rightarrow>
          if c = 10 then Some ([c], k1) else map_option (\<lambda>(cs, k2). (c # cs, k2)) (read_line room fd k1)
      | (Done _, k1) \<Rightarrow> Some ([], k1))"

text \<open>\<open>child_status\<close>: the exit status, or -1; \<open>None\<close> while the child runs.\<close>

definition child_status :: "int \<Rightarrow> kernel \<Rightarrow> (int \<times> kernel) option" where
  "child_status pid k =
     (case waitpid pid False k of
        (WaitSleeps, _) \<Rightarrow> None
      | (WaitPid p code, k1) \<Rightarrow> Some (if p = pid then code else -1, k1)
      | (_, k1) \<Rightarrow> Some (-1, k1))"

definition lock_program :: "string \<Rightarrow> kernel \<Rightarrow> program" where
  "lock_program stage =
     spawn_child_main (\<lambda>_. Hangs) (\<lambda>_. Hangs) [] [''spawn-child'', ''lock'', LOCK_PATH, stage]"

section \<open>The tests\<close>

text \<open>\<open>CHECK(read_line(...), strcmp(line, expected) == 0)\<close>.\<close>

definition expect_line :: "int \<Rightarrow> string \<Rightarrow> string \<Rightarrow> (kernel \<Rightarrow> run) \<Rightarrow> kernel \<Rightarrow> run" where
  "expect_line fd expected what rest k =
     (case read_line 95 fd k of
        None \<Rightarrow> Hang
      | Some (line, k1) \<Rightarrow> CHECK (line = ascii expected) what (rest k1))"

definition O_LOCKFILE :: open_flags where
  "O_LOCKFILE = O_RDWR\<lparr>o_create := True, o_truncate := True\<rparr>"

definition refused :: "errno \<Rightarrow> lock_call \<Rightarrow> bool" where
  "refused e r \<longleftrightarrow> r = LDone (Inl e)"

definition failed :: "lock_call \<Rightarrow> bool" where
  "failed r = (case r of LDone (Inl _) \<Rightarrow> True | _ \<Rightarrow> False)"

text \<open>The file, and a process's own locks, which never block it. Lines 146 to 155.\<close>

definition locks_own :: "(int \<Rightarrow> kernel \<Rightarrow> run) \<Rightarrow> kernel \<Rightarrow> run" where
  "locks_own rest k =
     CHECKED (sys_open LOCK_PATH O_LOCKFILE k) ''open lock file'' (\<lambda>fd k.
     call (sys_write fd (replicate 512 108) k) (\<lambda>n k. CHECK (n = Inr 512) ''fill lock file'' (
     sysc (set_lock fd F_SETLK F_WRLCK 0 50 k) (\<lambda>r k. CHECK (granted_now r) ''exclusive lock'' (
     sysc (fcntl_lock fd F_GETLK (write_lock 0 10) k) (\<lambda>own k.
       CHECK (case own of LDone (Inr q) \<Rightarrow> l_type q = F_UNLCK | _ \<Rightarrow> False) ''own lock is not a conflict'' (
     rest fd k)))))))"

text \<open>Another process: refused, told who holds the lock, and granted it after the unlock. With
  \<open>early\<close> the child waits for the lock before the parent unlocks it. Lines 159 to 175.\<close>

definition locks_other_process :: "bool \<Rightarrow> int \<Rightarrow> (kernel \<Rightarrow> run) \<Rightarrow> kernel \<Rightarrow> run" where
  "locks_other_process early fd rest k =
     (case start_lock_child k of
        (None, _) \<Rightarrow> Fail ''spawn lock child''
      | (Some (c, output), k) \<Rightarrow>
          (case run_child c (lock_program ''probe'') k of (child, k) \<Rightarrow>
             expect_line output (''held by '' @ show_int (owner_pid k) @ '' write 0 50'' @ newline) ''lock child saw'' (\<lambda>k.
             case (if early then continue_child child k else (child, k)) of (child, k) \<Rightarrow>
             sysc (set_lock fd F_SETLK F_UNLCK 0 0 k) (\<lambda>r k. CHECK (granted_now r) ''unlock'' (
             case continue_child child k of (child, k) \<Rightarrow>
             expect_line output (''acquired'' @ newline) ''waiting lock granted after unlock'' (\<lambda>k.
             case child_status (fst c) k of
               None \<Rightarrow> Hang
             | Some (code, k) \<Rightarrow> CHECK (code = 0) ''lock child exit'' (rest (snd (sys_close output k)))) k))) k))"

text \<open>Unlocking the middle of a lock leaves two, seen through another description; closing any
  descriptor for the file drops the process's locks. Lines 179 to 192.\<close>

definition locks_split :: "int \<Rightarrow> (int \<Rightarrow> kernel \<Rightarrow> run) \<Rightarrow> kernel \<Rightarrow> run" where
  "locks_split fd rest k =
     CHECKED (sys_open LOCK_PATH O_RDWR k) ''second description'' (\<lambda>other k.
     sysc (set_lock fd F_SETLK F_WRLCK 0 100 k) (\<lambda>r1 k.
     sysc (set_lock fd F_SETLK F_UNLCK 40 20 k) (\<lambda>r2 k. CHECK (granted_now r1 \<and> granted_now r2) ''split lock'' (
     sysc (probe_lock other 45 1 k) (\<lambda>seen k. CHECK (l_type seen = F_UNLCK) ''unlocked middle'' (
     sysc (probe_lock other 10 1 k) (\<lambda>seen k.
       CHECK (l_type seen = F_WRLCK \<and> l_start seen = 0 \<and> l_len seen = 40 \<and> l_pid seen = owner_pid k) ''head of split lock'' (
     sysc (probe_lock other 70 1 k) (\<lambda>seen k.
       CHECK (l_type seen = F_WRLCK \<and> l_start seen = 60 \<and> l_len seen = 40) ''tail of split lock'' (
     sysc (sys_open LOCK_PATH O_RDONLY k) (\<lambda>third k.
     sysc (sys_close (number third) k) (\<lambda>closed k.
       CHECK (number third \<ge> 0 \<and> closed = Inr ()) ''open and close a third descriptor'' (
     sysc (probe_lock other 10 1 k) (\<lambda>seen k. CHECK (l_type seen = F_UNLCK) ''close releases POSIX locks'' (
     rest other k)))))))))))))))"

text \<open>Locks of an open file description: shared by \<open>dup\<close>, and released with it. Lines 195 to 203.\<close>

definition locks_description :: "int \<Rightarrow> int \<Rightarrow> (kernel \<Rightarrow> run) \<Rightarrow> kernel \<Rightarrow> run" where
  "locks_description fd other rest k =
     sysc (set_lock fd F_OFD_SETLK F_WRLCK 0 10 k) (\<lambda>r k. CHECK (granted_now r) ''OFD lock'' (
     sysc (set_lock other F_OFD_SETLK F_WRLCK 5 1 k) (\<lambda>r k.
       CHECK (refused EAGAIN r) ''OFD conflict between descriptions'' (
     sysc (sys_dup fd k) (\<lambda>copy k.
     sysc (set_lock (number copy) F_OFD_SETLK F_WRLCK 5 1 k) (\<lambda>r k. CHECK (granted_now r) ''OFD lock shared by dup'' (
     sysc (sys_close fd k) (\<lambda>_ k.
     sysc (set_lock other F_OFD_SETLK F_WRLCK 5 1 k) (\<lambda>r k.
       CHECK (failed r) ''OFD lock outlives one of its descriptors'' (
     sysc (sys_close (number copy) k) (\<lambda>_ k.
     sysc (set_lock other F_OFD_SETLK F_WRLCK 5 1 k) (\<lambda>r1 k.
     sysc (set_lock other F_OFD_SETLK F_UNLCK 0 0 k) (\<lambda>r2 k.
       CHECK (granted_now r1 \<and> granted_now r2) ''OFD lock released with its description'' (
     rest k))))))))))))))"

text \<open>The child holds 200 and waits for 300, which the parent holds; the parent's wait for 200 is
  refused. \<open>asleep\<close> says that the child has gone to sleep by the end of the parent's pause.
  Lines 207 to 220.\<close>

definition locks_deadlock :: "bool \<Rightarrow> int \<Rightarrow> (kernel \<Rightarrow> run) \<Rightarrow> kernel \<Rightarrow> run" where
  "locks_deadlock asleep other rest k =
     sysc (set_lock other F_SETLK F_WRLCK 300 1 k) (\<lambda>r k. CHECK (granted_now r) ''lock for deadlock test'' (
     case start_lock_child k of
        (None, _) \<Rightarrow> Fail ''spawn deadlock child''
      | (Some (c, output), k) \<Rightarrow>
          (case run_child c (lock_program ''deadlock'') k of (child, k) \<Rightarrow>
             expect_line output (''waiting'' @ newline) ''deadlock child waiting'' (\<lambda>k.
             case (if asleep then continue_child child k else (child, k)) of (child, k) \<Rightarrow>
             sysc (set_lock other F_SETLKW F_WRLCK 200 1 k) (\<lambda>r k. CHECK (refused EDEADLK r) ''deadlock detected'' (
             sysc (set_lock other F_SETLK F_UNLCK 300 1 k) (\<lambda>r k. CHECK (granted_now r) ''release for deadlock child'' (
             case continue_child child k of (child, k) \<Rightarrow>
             expect_line output (''acquired'' @ newline) ''deadlock child finishes'' (\<lambda>k.
             case child_status (fst c) k of
               None \<Rightarrow> Hang
             | Some (code, k) \<Rightarrow> CHECK (code = 0) ''deadlock child finishes'' (
             sysc (sys_close output k) (\<lambda>_ k.
             sysc (set_lock other F_SETLK F_WRLCK 0 0 k) (\<lambda>r k.
               CHECK (granted_now r) ''locks of the exited child released'' (rest k))))) k))))) k)))"

text \<open>Access and argument errors, and the end. Lines 223 to 231.\<close>

definition locks_errors :: "int \<Rightarrow> kernel \<Rightarrow> run" where
  "locks_errors other k =
     sysc (sys_open LOCK_PATH O_RDONLY k) (\<lambda>reader k.
     sysc (set_lock (number reader) F_SETLK F_WRLCK 0 1 k) (\<lambda>r k.
       CHECK (refused EBADF r) ''exclusive lock needs write access'' (
     sysc (set_lock (number reader) F_SETLK F_RDLCK (-5) 1 k) (\<lambda>r k. CHECK (refused EINVAL r) ''negative start'' (
     sysc (sys_close (number reader) k) (\<lambda>_ k.
     sysc (sys_close other k) (\<lambda>_ k.
     sysc (sys_unlink LOCK_PATH k) (\<lambda>r k. CHECK (r = Inr ()) ''remove lock file'' (Pass k)))))))))"

definition record_locks :: "bool \<Rightarrow> bool \<Rightarrow> kernel \<Rightarrow> run" where
  "record_locks early asleep =
     locks_own (\<lambda>fd.
     locks_other_process early fd (
     locks_split fd (\<lambda>other.
     locks_description fd other (
     locks_deadlock asleep other (
     locks_errors other)))))"

section \<open>They pass\<close>

text \<open>A kernel with room for nine more descriptions and one pipe, and its states between the tests:
  the descriptions and descriptors after the console's, the files, the locks and the next process's number.\<close>

definition lock_kernel :: kernel where
  "lock_kernel = (start_kernel 1)\<lparr>descriptions := replicate 3 (Some console_description) @ replicate 9 None\<rparr>"

definition lock_state :: "description option list \<Rightarrow> int option list \<Rightarrow> tmpfs \<Rightarrow> rlock list \<Rightarrow> int \<Rightarrow> kernel" where
  "lock_state ds fds files ls pid =
     lock_kernel\<lparr>descriptions := replicate 3 (Some console_description) @ ds @ replicate (9 - length ds) None,
       table := map (\<lambda>d. \<lparr>e_desc = Some d, e_cloexec = False\<rparr>) [0, 1, 2] @ map (\<lambda>d. \<lparr>e_desc = d, e_cloexec = False\<rparr>) fds @
         replicate (253 - length fds) \<lparr>e_desc = None, e_cloexec = False\<rparr>,
       fsys := (fsys lock_kernel)\<lparr>tmp := files\<rparr>,
       rlocks := no_locks\<lparr>locks := ls\<rparr>, next_pid := pid\<rparr>"

definition lock_file :: "int \<Rightarrow> description option" where
  "lock_file off = Some \<lparr>refs = 1, dstatus = plain_status True True False,
     dobject = NodeFile \<lparr>nf_node = TmpNode 2, nf_offset = off, nf_path = None\<rparr>\<rparr>"

text \<open>The filesystem with the lock file, \<open>n\<close> of whose handles are open, and after it.\<close>

definition lock_files :: "int \<Rightarrow> tmpfs" where
  "lock_files n =
     (let fs = tmp start_files
      in fs\<lparr>inodes := [Some ((empty_root TmpVol)\<lparr>in_children := [2]\<rparr>), Some (empty_root DataVol),
              Some \<lparr>in_dir = False, in_id = 2, in_vol = TmpVol, in_refs = n, in_linked = True, in_parent = Some 0,
                in_children = [], in_name = ''lock-probe'', in_size = 512, in_seals = 0, in_mappings = 0, in_writable = 0,
                in_frames = Some (replicate 512 108) # replicate 15 None\<rparr>] @ replicate 7 None,
            tmp_vol := (tmp_vol fs)\<lparr>v_used := 1\<rparr>, next_id := 3, free_frames := 3999\<rparr>)"

definition process_lock :: "int \<Rightarrow> int \<Rightarrow> rlock" where
  "process_lock first until = \<lparr>lk_key = 2 ^ 63 + 2, lk_owner = Process 7, lk_pid = 7, lk_first = first, lk_last = until, lk_kind = LWrite\<rparr>"

lemma locks_own_passes:
  "locks_own rest lock_kernel = rest 3 (lock_state [lock_file 512] [Some 3] (lock_files 1) [process_lock 0 49] 8)"
  by (rule same_run) code_simp

lemma locks_other_early:
  "locks_other_process True 3 rest (lock_state [lock_file 512] [Some 3] (lock_files 1) [process_lock 0 49] 8) =
    rest (lock_state [lock_file 512] [Some 3] (lock_files 1) [] 9)"
  by (rule same_run) code_simp

lemma locks_other_late:
  "locks_other_process False 3 rest (lock_state [lock_file 512] [Some 3] (lock_files 1) [process_lock 0 49] 8) =
    rest (lock_state [lock_file 512] [Some 3] (lock_files 1) [] 9)"
  by (rule same_run) code_simp

lemma locks_other_passes:
  "locks_other_process early 3 rest (lock_state [lock_file 512] [Some 3] (lock_files 1) [process_lock 0 49] 8) =
    rest (lock_state [lock_file 512] [Some 3] (lock_files 1) [] 9)"
  by (cases early) (simp_all only: locks_other_early locks_other_late)

lemma locks_split_passes:
  "locks_split 3 rest (lock_state [lock_file 512] [Some 3] (lock_files 1) [] 9) =
    rest 4 (lock_state [lock_file 512, lock_file 0] [Some 3, Some 4] (lock_files 2) [] 9)"
  by (rule same_run) code_simp

lemma locks_description_passes:
  "locks_description 3 4 rest (lock_state [lock_file 512, lock_file 0] [Some 3, Some 4] (lock_files 2) [] 9) =
    rest (lock_state [None, lock_file 0] [None, Some 4] (lock_files 1) [] 9)"
  by (rule same_run) code_simp

lemma locks_deadlock_passes:
  "locks_deadlock True 4 rest (lock_state [None, lock_file 0] [None, Some 4] (lock_files 1) [] 9) =
    rest (lock_state [None, lock_file 0] [None, Some 4] (lock_files 1) [process_lock 0 TO_END] 10)"
  by (rule same_run) code_simp

lemma locks_errors_pass:
  "locks_errors 4 (lock_state [None, lock_file 0] [None, Some 4] (lock_files 1) [process_lock 0 TO_END] 10) =
    Pass (lock_state [None, None] [None, None] ((tmp start_files)\<lparr>next_id := 3\<rparr>) [] 10)"
  by (rule same_run) code_simp

text \<open>C12: The record lock test passes against the kernel, whether its first child reaches its wait
  before or after the parent unlocks, as long as the second child has gone to sleep by the time
  the parent would wait for it; and it leaves no lock, no waiting process, no descriptor and no
  file behind.\<close>

theorem record_locks_pass:
  assumes "asleep"
  shows "record_locks early asleep lock_kernel =
    Pass (lock_state [None, None] [None, None] ((tmp start_files)\<lparr>next_id := 3\<rparr>) [] 10)"
  using assms
  by (simp add: record_locks_def locks_own_passes locks_other_passes locks_split_passes locks_description_passes
      locks_deadlock_passes locks_errors_pass)

theorem record_locks_pass_witness:
  "record_locks False True lock_kernel = Pass (lock_state [None, None] [None, None] ((tmp start_files)\<lparr>next_id := 3\<rparr>) [] 10)"
  by (rule record_locks_pass) simp

end
