(* ===== verification/SpawnProbe.thy ===== *)
theory SpawnProbe
  imports SpawnChild
begin

text \<open>
  \<open>userland/bin/spawn-probe/probe.c\<close>: the working directory and paths relative to a directory, what a
  spawned program is given, and collecting it. A child runs, at the latest, when its parent waits
  for it; with \<open>eager\<close> it runs as soon as it is started. The \<open>fork\<close> that is refused (lines 207 to 209) is not
  modelled.
\<close>

section \<open>Helpers\<close>

definition CHILD :: string where "CHILD = ''/bin/spawn-child''"

definition spawned_program :: "(string \<times> string) list \<Rightarrow> string list \<Rightarrow> kernel \<Rightarrow> program" where
  "spawned_program = spawn_child_main (\<lambda>_. Hangs) (\<lambda>_. Hangs)"

text \<open>\<open>slurp\<close>: everything up to end of file, or what fits. A read that waits lets the child run.
  \<open>None\<close> when it waits for ever.\<close>

definition read_letting :: "int \<Rightarrow> int \<Rightarrow> child \<Rightarrow> kernel \<Rightarrow> u8 list call \<times> child \<times> kernel" where
  "read_letting fd room c k =
     (case sys_read fd room k of
        (Waiting d, k1) \<Rightarrow>
          (case continue_child c k1 of (c1, k2) \<Rightarrow> case read_turn d room k2 of (r, k3) \<Rightarrow> (r, c1, k3))
      | (r, k1) \<Rightarrow> (r, c, k1))"

function slurp :: "nat \<Rightarrow> int \<Rightarrow> child \<Rightarrow> kernel \<Rightarrow> ((errno + u8 list) \<times> child \<times> kernel) option" where
  "slurp room fd c k =
     (if room = 0 then Some (Inr [], c, k)
      else case read_letting fd (int room) c k of
        (Waiting _, _, _) \<Rightarrow> None
      | (Done (Inl e), c1, k1) \<Rightarrow> Some (Inl e, c1, k1)
      | (Done (Inr bytes), c1, k1) \<Rightarrow>
          if bytes = [] then Some (Inr [], c1, k1)
          else map_option (\<lambda>(r, c2, k2). (map_sum id (\<lambda>more. bytes @ more) r, c2, k2))
                 (slurp (room - length bytes) fd c1 k1))"
  by pat_completeness simp
termination by (relation "measure (\<lambda>(room, _). room)") auto

text \<open>\<open>waitpid\<close> without flags, while the child takes its turns, \<open>rounds\<close> of them at most.\<close>

fun wait_child :: "nat \<Rightarrow> int \<Rightarrow> child \<Rightarrow> kernel \<Rightarrow> wait_result \<times> kernel" where
  "wait_child rounds pid c k =
     (case waitpid pid False k of
        (WaitSleeps, k1) \<Rightarrow>
          (case rounds of
             0 \<Rightarrow> (WaitSleeps, k1)
           | Suc n \<Rightarrow> (case continue_child c k1 of (c1, k2) \<Rightarrow> wait_child n pid c1 k2))
      | (r, k1) \<Rightarrow> (r, k1))"

declare wait_child.simps [simp del]

definition start_child :: "bool \<Rightarrow> process \<Rightarrow> (kernel \<Rightarrow> program) \<Rightarrow> kernel \<Rightarrow> child \<times> kernel" where
  "start_child eager p program k = (if eager then run_child p program k else (CTurn p program, k))"

text \<open>\<open>run\<close>: the child's standard output and exit status, or failure; \<open>None\<close> when it hangs.\<close>

definition run_spawned ::
  "bool \<Rightarrow> file_action list \<Rightarrow> (kernel \<Rightarrow> program) \<Rightarrow> kernel \<Rightarrow> ((u8 list \<times> int) option \<times> kernel) option" where
  "run_spawned eager extra program k =
     (case sys_pipe2 False True k of
        (Inl _, k1) \<Rightarrow> Some (None, k1)
      | (Inr (r, w), k1) \<Rightarrow>
          (let (spawned, k2) = posix_spawn CHILD (extra @ [AddDup2 w 1]) k1; (_, k3) = sys_close w k2
           in case spawned of
                Inl _ \<Rightarrow> Some (None, snd (sys_close r k3))
              | Inr p \<Rightarrow>
                  (let (c, k4) = start_child eager p program k3
                   in case slurp 1023 r c k4 of
                        None \<Rightarrow> None
                      | Some (out, c1, k5) \<Rightarrow>
                          (let (_, k6) = sys_close r k5
                           in case out of
                                Inl _ \<Rightarrow> Some (None, k6)
                              | Inr bytes \<Rightarrow>
                                  (case wait_child 2 (fst p) c1 k6 of
                                     (WaitSleeps, _) \<Rightarrow> None
                                   | (WaitPid pid status, k7) \<Rightarrow> Some (if pid = fst p then Some (bytes, status) else None, k7)
                                   | (_, k7) \<Rightarrow> Some (None, k7))))))"

text \<open>\<open>CHECK(run(...) == 0 && ..., what)\<close>, with the output and the status for what follows.\<close>

definition CHECK_RUN ::
  "((u8 list \<times> int) option \<times> kernel) option \<Rightarrow> string \<Rightarrow> (u8 list \<Rightarrow> int \<Rightarrow> kernel \<Rightarrow> run) \<Rightarrow> run" where
  "CHECK_RUN r what rest =
     (case r of
        None \<Rightarrow> Hang
      | Some (None, _) \<Rightarrow> Fail what
      | Some (Some (out, status), k) \<Rightarrow> rest out status k)"

text \<open>\<open>CHECK(waitpid(...) == pid && good(status), what)\<close>.\<close>

definition CHECK_WAIT :: "int \<Rightarrow> wait_result \<times> kernel \<Rightarrow> (int \<Rightarrow> bool) \<Rightarrow> string \<Rightarrow> (kernel \<Rightarrow> run) \<Rightarrow> run" where
  "CHECK_WAIT pid w good what rest =
     (case w of
        (WaitSleeps, _) \<Rightarrow> Hang
      | (WaitPid p status, k) \<Rightarrow> CHECK (p = pid \<and> good status) what (rest k)
      | (_, _) \<Rightarrow> Fail what)"

section \<open>The tests\<close>

text \<open>The console is a description like any other. Lines 80 to 83.\<close>

definition spawn_console :: "(kernel \<Rightarrow> run) \<Rightarrow> kernel \<Rightarrow> run" where
  "spawn_console rest k =
     sysc (sys_dup 1 k) (\<lambda>saved k.
     sysc (sys_fstat (number saved) k) (\<lambda>st k.
       CHECK (number saved \<ge> 3 \<and> (case st of Inr (_, kind) \<Rightarrow> kind = KConsole | Inl _ \<Rightarrow> False)) ''dup of stdout'' (
     sysc (sys_close (number saved) k) (\<lambda>_ k. rest k))))"

definition cwd_is :: "string \<Rightarrow> kernel \<Rightarrow> bool" where
  "cwd_is dir k \<longleftrightarrow> sys_getcwd 256 k = Inr dir"

definition O_WRONLY :: open_flags where "O_WRONLY = O_RDONLY\<lparr>o_read := False, o_write := True\<rparr>"

text \<open>The working directory, and paths relative to it. Lines 86 to 92.\<close>

definition spawn_cwd :: "(kernel \<Rightarrow> run) \<Rightarrow> kernel \<Rightarrow> run" where
  "spawn_cwd rest k =
     CHECK (cwd_is ''/'' k) ''starts at /'' (
     CHECKED (mkdirat AT_FDCWD ''/tmp/spawn'' k) ''chdir'' (\<lambda>_ k.
     CHECKED (chdir ''/tmp/spawn'' k) ''chdir'' (\<lambda>_ k.
     CHECK (cwd_is ''/tmp/spawn'' k) ''getcwd after chdir'' (
     CHECKED (openat AT_FDCWD ''relative.txt'' (O_WRONLY\<lparr>o_create := True\<rparr>) k) ''create relative to the working directory'' (\<lambda>file k.
     call (sys_write file (ascii ''rel'') k) (\<lambda>n k. CHECK (n = Inr 3) ''create relative to the working directory'' (
     CHECKED (sys_close file k) ''create relative to the working directory'' (\<lambda>_ k.
     CHECKED (fstatat AT_FDCWD ''/tmp/spawn/relative.txt'' k) ''relative path landed in the directory'' (\<lambda>st k.
     CHECK (fst st = 3) ''relative path landed in the directory'' (
     CHECKED (mkdirat AT_FDCWD ''sub'' k) ''relative mkdir'' (\<lambda>_ k. rest k)))))))))))"

text \<open>Paths relative to a directory's descriptor, and changing to it. Lines 93 to 105.\<close>

definition spawn_at :: "(int \<Rightarrow> kernel \<Rightarrow> run) \<Rightarrow> kernel \<Rightarrow> run" where
  "spawn_at rest k =
     CHECKED (openat AT_FDCWD ''sub'' (O_RDONLY\<lparr>o_directory := True, o_cloexec := True\<rparr>) k) ''open a directory'' (\<lambda>dir k.
     CHECKED (openat dir ''../relative.txt'' O_RDONLY k) ''openat relative to a directory descriptor'' (\<lambda>through k.
     call (sys_read through 3 k) (\<lambda>bytes k. CHECK (bytes = Inr (ascii ''rel'')) ''openat relative to a directory descriptor'' (
     sysc (sys_close through k) (\<lambda>_ k.
     CHECKED (fstatat dir ''..'' k) ''fstatat relative to a directory descriptor'' (\<lambda>st k.
     CHECK (fst (snd st)) ''fstatat relative to a directory descriptor'' (
     CHECKED (mkdirat dir ''deeper'' k) ''mkdirat'' (\<lambda>_ k.
     CHECKED (fstatat AT_FDCWD ''/tmp/spawn/sub/deeper'' k) ''mkdirat'' (\<lambda>_ k.
     CHECKED (fchdir dir k) ''fchdir'' (\<lambda>_ k.
     CHECK (cwd_is ''/tmp/spawn/sub'' k) ''fchdir'' (
     sysc (chdir ''/missing'' k) (\<lambda>r k. CHECK (r = Inl ENOENT) ''chdir to nothing'' (
     sysc (chdir ''/etc/motd'' k) (\<lambda>r k. CHECK (r = Inl ENOTDIR) ''chdir to a file'' (
     CHECKED (chdir ''..'' k) ''chdir ..'' (\<lambda>_ k.
     CHECK (cwd_is ''/tmp/spawn'' k) ''chdir ..'' (
     rest dir k)))))))))))))))))"

text \<open>Arguments and environment arrive intact. Lines 108 to 111.\<close>

definition ECHO_ENV :: "(string \<times> string) list" where "ECHO_ENV = [(''FOO'', ''bar baz''), (''EMPTY'', '''')]"
definition ECHO_ARGS :: "string list" where "ECHO_ARGS = [''spawn-child'', ''echo'', ''two words'', '''', ''last'']"

definition ECHO_OUTPUT :: string where
  "ECHO_OUTPUT = ''argc=5'' @ newline @ ''[spawn-child]'' @ newline @ ''[echo]'' @ newline @ ''[two words]'' @ newline @
     ''[]'' @ newline @ ''[last]'' @ newline @ ''FOO=bar baz EMPTY= MISSING=(unset)'' @ newline"

definition spawn_echo :: "bool \<Rightarrow> (kernel \<Rightarrow> run) \<Rightarrow> kernel \<Rightarrow> run" where
  "spawn_echo eager rest k =
     CHECK_RUN (run_spawned eager [] (spawned_program ECHO_ENV ECHO_ARGS) k) ''spawn echo'' (\<lambda>out status k.
     CHECK (status = 0) ''spawn echo'' (
     CHECK (out = ascii ECHO_OUTPUT) ''argv and environment arrive intact'' (rest k)))"

text \<open>The descriptors without close-on-exec are inherited, and no others. Lines 114 to 124.\<close>

definition spawn_fds :: "bool \<Rightarrow> (kernel \<Rightarrow> run) \<Rightarrow> kernel \<Rightarrow> run" where
  "spawn_fds eager rest k =
     CHECKED (sys_pipe2 False False k) ''pipes for inheritance'' (\<lambda>(keep0, keep1) k.
     CHECKED (sys_pipe2 False True k) ''pipes for inheritance'' (\<lambda>(drop0, drop1) k.
     CHECK_RUN (run_spawned eager [] (spawned_program [] [''spawn-child'', ''fds'']) k) ''spawn fds'' (\<lambda>out status k.
     CHECK (status = 0) ''spawn fds'' (
     CHECK (out = ascii (''open: 0 1 2 '' @ show_int keep0 @ '' '' @ show_int keep1 @ newline))
       ''inherits exactly the descriptors without close-on-exec'' (
     sysc (sys_close keep0 k) (\<lambda>_ k. sysc (sys_close keep1 k) (\<lambda>_ k.
     sysc (sys_close drop0 k) (\<lambda>_ k. sysc (sys_close drop1 k) (\<lambda>_ k. rest k)))))))))"

text \<open>A file opened at a number for the child, a directory to start in, and a descriptor closed.
  Lines 127 to 148.\<close>

definition WHERE :: "string list" where "WHERE = [''spawn-child'', ''cwd'']"

definition spawn_files :: "bool \<Rightarrow> (kernel \<Rightarrow> run) \<Rightarrow> kernel \<Rightarrow> run" where
  "spawn_files eager rest k =
     CHECK_RUN (run_spawned eager [AddOpen 20 ''/etc/motd'' O_RDONLY] (spawned_program [] [''spawn-child'', ''motd20'']) k) ''addopen''
       (\<lambda>out _ k. CHECK (out = ascii (''Welcome to Orange OS.'' @ newline)) ''addopen'' (
     CHECK_RUN (run_spawned eager [AddChdir ''/etc''] (spawned_program [] WHERE) k) ''addchdir''
       (\<lambda>out _ k. CHECK (out = ascii (''/etc'' @ newline)) ''addchdir'' (
     CHECK_RUN (run_spawned eager [] (spawned_program [] WHERE) k) ''the working directory is inherited''
       (\<lambda>out _ k. CHECK (out = ascii (''/tmp/spawn'' @ newline)) ''the working directory is inherited'' (
     rest k))))))"

definition spawn_closed :: "bool \<Rightarrow> (kernel \<Rightarrow> run) \<Rightarrow> kernel \<Rightarrow> run" where
  "spawn_closed eager rest k =
     CHECKED (posix_spawn CHILD [AddClose 1] k) ''spawn with stdout closed'' (\<lambda>p k.
     case start_child eager p (spawned_program [] [''spawn-child'', ''stdout-closed'']) k of (c, k) \<Rightarrow>
     CHECK_WAIT (fst p) (wait_child 2 (fst p) c k) (\<lambda>status. status = errno_number EBADF)
       ''a closed descriptor stays closed'' (\<lambda>k. rest k))"

text \<open>Both ends of standard input and output redirected. The child runs when the parent waits for
  its output. Lines 151 to 164.\<close>

definition spawn_upper :: "(kernel \<Rightarrow> run) \<Rightarrow> kernel \<Rightarrow> run" where
  "spawn_upper rest k =
     CHECKED (sys_pipe2 False True k) ''stdio pipes'' (\<lambda>(in0, in1) k.
     CHECKED (sys_pipe2 False True k) ''stdio pipes'' (\<lambda>(out0, out1) k.
     CHECKED (posix_spawn CHILD [AddDup2 in0 0, AddDup2 out1 1] k) ''spawn upper'' (\<lambda>p k.
     case start_child False p (spawned_program [] [''spawn-child'', ''upper'']) k of (c, k) \<Rightarrow>
     sysc (sys_close in0 k) (\<lambda>_ k. sysc (sys_close out1 k) (\<lambda>_ k.
     call (sys_write in1 (ascii ''hello spawn'') k) (\<lambda>n k. CHECK (n = Inr 11) ''feed stdin'' (
     CHECKED (sys_close in1 k) ''feed stdin'' (\<lambda>_ k.
     case slurp 1023 out0 c k of
       None \<Rightarrow> Hang
     | Some (out, c, k) \<Rightarrow>
         CHECK (out = Inr (ascii ''HELLO SPAWN'')) ''stdin to stdout through a child'' (
         CHECK_WAIT (fst p) (wait_child 2 (fst p) c k) (\<lambda>status. status = 0) ''upper exits'' (\<lambda>k.
         sysc (sys_close out0 k) (\<lambda>_ k. rest k)))))))))))"

text \<open>A socket handed to a child, then a descriptor passed across processes: the child waits for the
  message, or finds it there. Lines 166 to 189.\<close>

definition one_right :: "int \<Rightarrow> cmsg" where
  "one_right fd = \<lparr>cm_len = CMSG_LEN 4, cm_rights = True, cm_fds = [fd]\<rparr>"

definition sent_ok :: "int \<Rightarrow> send_call \<Rightarrow> bool" where
  "sent_ok n r \<longleftrightarrow> (case r of SendDone (Inr m) \<Rightarrow> m = n | _ \<Rightarrow> False)"

definition spawn_sockets :: "bool \<Rightarrow> (kernel \<Rightarrow> run) \<Rightarrow> kernel \<Rightarrow> run" where
  "spawn_sockets eager rest k =
     CHECKED (socketpair AF_UNIX 1 False True 0 k) ''socket and pipe'' (\<lambda>(sv0, sv1) k.
     CHECKED (sys_pipe2 False False k) ''socket and pipe'' (\<lambda>(p0, p1) k.
     CHECKED (posix_spawn CHILD [AddDup2 sv1 3, AddClose p0, AddClose p1] k) ''spawn socket child'' (\<lambda>p k.
     case start_child eager p (spawned_program [] [''spawn-child'', ''socket'']) k of (c, k) \<Rightarrow>
     sysc (sys_close sv1 k) (\<lambda>_ k.
     sysc (sendmsg sv0 [ascii ''d''] (CMSG_SPACE 4) [one_right p1] NO_FLAGS k) (\<lambda>r k.
     CHECK (sent_ok 1 r) ''pass the pipe's write end to the child'' (
     CHECKED (sys_close p1 k) ''pass the pipe's write end to the child'' (\<lambda>_ k.
     case slurp 1023 p0 c k of
       None \<Rightarrow> Hang
     | Some (out, c, k) \<Rightarrow>
         CHECK (out = Inr (ascii (''from child'' @ newline))) ''the child wrote through it; EOF when it exited'' (
         CHECK_WAIT (fst p) (wait_child 2 (fst p) c k) (\<lambda>status. status = 0) ''socket child exits'' (\<lambda>k.
         sysc (sys_close p0 k) (\<lambda>_ k. sysc (sys_close sv0 k) (\<lambda>_ k. rest k)))))))))))"

text \<open>Exit statuses, a child already collected, and one still running: it has started to sleep when the
  parent asks. Lines 192 to 200.\<close>

definition SEVEN :: "string list" where "SEVEN = [''spawn-child'', ''exit'', ''7'']"

definition spawn_wait :: "bool \<Rightarrow> (kernel \<Rightarrow> run) \<Rightarrow> kernel \<Rightarrow> run" where
  "spawn_wait eager rest k =
     CHECKED (posix_spawn CHILD [] k) ''spawn exit 7'' (\<lambda>p k.
     case start_child eager p (spawned_program [] SEVEN) k of (c, k) \<Rightarrow>
     CHECK_WAIT (fst p) (wait_child 2 (fst p) c k) (\<lambda>status. status = 7) ''exit status'' (\<lambda>k.
     sysc (waitpid (fst p) False k) (\<lambda>r k. CHECK (r = WaitErr 10) ''already collected'' (
     CHECKED (posix_spawn CHILD [] k) ''spawn sleeper'' (\<lambda>p k.
     case start_child eager p (spawned_program [] [''spawn-child'', ''sleep'', ''100'']) k of (c, k) \<Rightarrow>
     sysc (waitpid (fst p) True k) (\<lambda>r k. CHECK (r = WaitNone) ''WNOHANG while running'' (
     CHECK_WAIT (fst p) (wait_child 2 (fst p) c k) (\<lambda>status. status = 3) ''then its status'' (\<lambda>k.
     rest k))))))))"

text \<open>\<open>posix_spawnp\<close> searches \<open>PATH\<close>; a missing program is \<open>ENOENT\<close>. Lines 203 to 205.\<close>

definition PATH_DIRS :: "string list" where "PATH_DIRS = [''/usr/local/bin'', ''/bin'', ''/usr/bin'']"

definition spawn_lookup :: "bool \<Rightarrow> (kernel \<Rightarrow> run) \<Rightarrow> kernel \<Rightarrow> run" where
  "spawn_lookup eager rest k =
     CHECKED (posix_spawnp PATH_DIRS ''spawn-child'' [] k) ''posix_spawnp'' (\<lambda>p k.
     case start_child eager p (spawned_program [] SEVEN) k of (c, k) \<Rightarrow>
     CHECK_WAIT (fst p) (wait_child 2 (fst p) c k) (\<lambda>status. status = 7) ''posix_spawnp'' (\<lambda>k.
     sysc (posix_spawn ''/bin/no-such-program'' [] k) (\<lambda>r k. CHECK (r = Inl ENOENT) ''ENOENT for a missing program'' (
     sysc (posix_spawnp PATH_DIRS ''no-such-program'' [] k) (\<lambda>r k. CHECK (r = Inl ENOENT) ''ENOENT from the PATH search'' (
     rest k))))))"

text \<open>Lines 211 to 217.\<close>

definition spawn_cleanup :: "int \<Rightarrow> kernel \<Rightarrow> run" where
  "spawn_cleanup dir k =
     CHECKED (chdir ''/'' k) ''clean up'' (\<lambda>_ k.
     CHECKED (at_path AT_FDCWD ''/tmp/spawn/relative.txt'' sys_unlink k) ''clean up'' (\<lambda>_ k.
     CHECKED (at_path AT_FDCWD ''/tmp/spawn/sub/deeper'' sys_rmdir k) ''clean up'' (\<lambda>_ k.
     CHECKED (at_path AT_FDCWD ''/tmp/spawn/sub'' sys_rmdir k) ''clean up'' (\<lambda>_ k.
     CHECKED (at_path AT_FDCWD ''/tmp/spawn'' sys_rmdir k) ''clean up'' (\<lambda>_ k.
     sysc (sys_close dir k) (\<lambda>_ k. Pass k))))))"

definition spawn_main :: "bool \<Rightarrow> kernel \<Rightarrow> run" where
  "spawn_main eager =
     spawn_console (spawn_cwd (spawn_at (\<lambda>dir.
       spawn_echo eager (spawn_fds eager (spawn_files eager (spawn_closed eager (spawn_upper (
       spawn_sockets eager (spawn_wait eager (spawn_lookup eager (spawn_cleanup dir)))))))))))"

section \<open>They pass\<close>

definition spawn_kernel :: kernel where
  "spawn_kernel = (start_kernel 3)\<lparr>descriptions := replicate 3 (Some console_description) @ replicate 9 None\<rparr>"

text \<open>The kernel between the tests: the filesystem with the probe's directory, with or without the
  directory below it and the descriptor open on that, and the next process's number.\<close>

definition dir_inode :: "int \<Rightarrow> int \<Rightarrow> int \<Rightarrow> int list \<Rightarrow> string \<Rightarrow> inode" where
  "dir_inode n refs' parent children name' =
     no_inode\<lparr>in_dir := True, in_id := n, in_refs := refs', in_linked := True, in_parent := Some parent,
       in_children := children, in_name := name'\<rparr>"

definition spawn_tmp :: "bool \<Rightarrow> tmpfs" where
  "spawn_tmp deep =
     (let fs = tmp start_files
      in fs\<lparr>inodes := [Some ((empty_root TmpVol)\<lparr>in_children := [2]\<rparr>), Some (empty_root DataVol),
              Some (dir_inode 2 0 0 [4, 3] ''spawn''),
              Some (no_inode\<lparr>in_id := 3, in_linked := True, in_parent := Some 2, in_name := ''relative.txt'', in_size := 3,
                in_frames := Some (ascii ''rel'') # replicate 15 None\<rparr>),
              Some (if deep then dir_inode 4 1 2 [5] ''sub'' else dir_inode 4 0 2 [] ''sub''),
              if deep then Some (dir_inode 5 0 4 [] ''deeper'') else None] @ replicate 4 None,
            tmp_vol := (tmp_vol fs)\<lparr>v_used := 1\<rparr>, next_id := if deep then 6 else 5, free_frames := 3999\<rparr>)"

definition spawn_state :: "bool \<Rightarrow> int \<Rightarrow> kernel" where
  "spawn_state deep pid =
     spawn_kernel\<lparr>
       descriptions := replicate 3 (Some console_description) @
         (if deep then Some \<lparr>refs = 1, dstatus = plain_status True False False,
              dobject = NodeFile \<lparr>nf_node = TmpNode 4, nf_offset = 0, nf_path = Some ''/tmp/spawn/sub''\<rparr>\<rparr> else None) #
         replicate 8 None,
       table := map (\<lambda>d. \<lparr>e_desc = Some d, e_cloexec = False\<rparr>) [0, 1, 2] @
         (if deep then \<lparr>e_desc = Some 3, e_cloexec = True\<rparr> else \<lparr>e_desc = None, e_cloexec = False\<rparr>) #
         replicate 252 \<lparr>e_desc = None, e_cloexec = False\<rparr>,
       fsys := (fsys spawn_kernel)\<lparr>tmp := spawn_tmp deep\<rparr>, cwd := ''/tmp/spawn'', next_pid := pid\<rparr>"

definition spawn_end :: kernel where
  "spawn_end = spawn_kernel\<lparr>fsys := (fsys spawn_kernel)\<lparr>tmp := (tmp start_files)\<lparr>next_id := 6\<rparr>\<rparr>, next_pid := 19\<rparr>"

lemma spawn_console_passes: "spawn_console rest spawn_kernel = rest spawn_kernel"
  by (rule same_run) code_simp

lemma spawn_cwd_passes: "spawn_cwd rest spawn_kernel = rest (spawn_state False 8)"
  by (rule same_run) code_simp

lemma spawn_at_passes: "spawn_at rest (spawn_state False 8) = rest 3 (spawn_state True 8)"
  by (rule same_run) code_simp

lemma spawn_echo_eager: "spawn_echo True rest (spawn_state True 8) = rest (spawn_state True 9)"
  by (rule same_run) code_simp

lemma spawn_echo_late: "spawn_echo False rest (spawn_state True 8) = rest (spawn_state True 9)"
  by (rule same_run) code_simp

lemma spawn_fds_eager: "spawn_fds True rest (spawn_state True 9) = rest (spawn_state True 10)"
  by (rule same_run) code_simp

lemma spawn_fds_late: "spawn_fds False rest (spawn_state True 9) = rest (spawn_state True 10)"
  by (rule same_run) code_simp

lemma spawn_files_eager: "spawn_files True rest (spawn_state True 10) = rest (spawn_state True 13)"
  by (rule same_run) code_simp

lemma spawn_files_late: "spawn_files False rest (spawn_state True 10) = rest (spawn_state True 13)"
  by (rule same_run) code_simp

lemma spawn_closed_eager: "spawn_closed True rest (spawn_state True 13) = rest (spawn_state True 14)"
  by (rule same_run) code_simp

lemma spawn_closed_late: "spawn_closed False rest (spawn_state True 13) = rest (spawn_state True 14)"
  by (rule same_run) code_simp

lemma spawn_upper_passes: "spawn_upper rest (spawn_state True 14) = rest (spawn_state True 15)"
  by (rule same_run) code_simp

lemma spawn_sockets_eager: "spawn_sockets True rest (spawn_state True 15) = rest (spawn_state True 16)"
  by (rule same_run) code_simp

lemma spawn_sockets_late: "spawn_sockets False rest (spawn_state True 15) = rest (spawn_state True 16)"
  by (rule same_run) code_simp

lemma spawn_wait_eager: "spawn_wait True rest (spawn_state True 16) = rest (spawn_state True 18)"
  by (rule same_run) code_simp

lemma spawn_wait_late: "spawn_wait False rest (spawn_state True 16) = rest (spawn_state True 18)"
  by (rule same_run) code_simp

lemma spawn_lookup_eager: "spawn_lookup True rest (spawn_state True 18) = rest (spawn_state True 19)"
  by (rule same_run) code_simp

lemma spawn_lookup_late: "spawn_lookup False rest (spawn_state True 18) = rest (spawn_state True 19)"
  by (rule same_run) code_simp

lemma spawn_cleanup_passes: "spawn_cleanup 3 (spawn_state True 19) = Pass spawn_end"
  by (rule same_run) code_simp


end
