(* ===== verification/SpawnRules.thy ===== *)
theory SpawnRules
  imports KSpawn Probe
begin

text \<open>
  What \<open>posix_spawn\<close> and \<open>waitpid\<close> promise: the descriptors a child starts with, against the table
  that its parent's table and the file actions describe, and the status a parent is told.
\<close>

section \<open>What a child gets\<close>

lemma slot_nth: "slot xs (int i) = (if i < length xs then Some (xs ! i) else None)"
  by (induction xs arbitrary: i) (auto simp: nth_Cons split: nat.splits, (simp add: of_nat_diff)?)

lemma slot_negative: "i < 0 \<Longrightarrow> slot xs i = None"
  by (induction xs arbitrary: i) auto

lemma slot_map: "slot (map f xs) i = map_option f (slot xs i)"
  by (induction xs arbitrary: i) auto

lemma slot_at: "0 \<le> i \<Longrightarrow> slot xs i = (if i < int (length xs) then Some (xs ! nat i) else None)"
  using slot_nth [of xs "nat i"] by (simp add: nat_less_iff)

lemma lookup_parts:
  "lookup fd k = (Some d, k1) \<Longrightarrow> \<not> bad_index fd \<and> e_desc (entry_of k fd) = Some d \<and> table k1 = table k \<and>
    next_pid k1 = next_pid k"
  by (auto simp: lookup_def retain_def upd_desc_def split: if_splits option.splits)

lemma take_grants_result:
  "take_grants pairs gs k = (Inr gs', k') \<Longrightarrow>
    gs' = gs @ map (\<lambda>(i, parent). (i, the (e_desc (entry_of k parent)))) pairs \<and>
    (\<forall>(i, parent) \<in> set pairs. e_desc (entry_of k parent) \<noteq> None) \<and> next_pid k' = next_pid k"
proof (induction pairs gs k rule: take_grants.induct)
  case (2 i parent rest taken k)
  obtain d k1 where l: "lookup parent k = (Some d, k1)" "take_grants rest (taken @ [(i, d)]) k1 = (Inr gs', k')"
    using "2.prems" by (auto split: prod.splits option.splits)
  have "entry_of k1 = entry_of k" using lookup_parts [OF l(1)] by (simp add: entry_of_def fun_eq_iff)
  with "2.IH" [OF l(1) [symmetric] refl l(2)] lookup_parts [OF l(1)] show ?case by auto
qed simp

lemma spawn_pairs_map_of:
  "map_of (spawn_pairs i ss) j =
    (if j < i then None else case deref ss (j - i) of Some (parent, False) \<Rightarrow> Some parent | _ \<Rightarrow> None)"
  by (induction i ss rule: spawn_pairs.induct)
    (auto simp: deref_def Let_def split: option.splits bool.splits, (auto simp: algebra_simps slot_negative)?)

lemma spawn_pairs_bounds: "x \<in> set (spawn_pairs i ss) \<Longrightarrow> i \<le> fst x \<and> fst x < i + int (length ss)"
  by (induction i ss rule: spawn_pairs.induct) (fastforce simp: Let_def split: option.splits if_splits)+

lemma spawn_pairs_distinct: "distinct (map fst (spawn_pairs i ss))"
  by (induction i ss rule: spawn_pairs.induct) (auto simp: Let_def dest: spawn_pairs_bounds split: option.splits)

lemma slot_install:
  assumes "distinct (map fst gs)" "fst ` set gs \<subseteq> {0..<256}" "0 \<le> j" "j < 256"
  shows "slot (install_grants gs) j = Some \<lparr>e_desc = map_of gs j, e_cloexec = False\<rparr>"
proof -
  have "slot (fold (\<lambda>(i, d). set_slot i \<lparr>e_desc = Some d, e_cloexec = False\<rparr>) gs tab) j =
      (case map_of gs j of Some d \<Rightarrow> Some \<lparr>e_desc = Some d, e_cloexec = False\<rparr> | None \<Rightarrow> slot tab j)"
    if "length tab = 256" "distinct (map fst gs)" "fst ` set gs \<subseteq> {0..<256}" for tab :: "entry list" and gs
    using that
  proof (induction gs arbitrary: tab)
    case (Cons g gs)
    obtain i d where g: "g = (i, d)" by (cases g)
    have "map_of gs i = None" "slot tab i \<noteq> None" using Cons.prems g by (auto simp: map_of_eq_None_iff slot_at)
    then show ?case
      using Cons.IH [of "set_slot i \<lparr>e_desc = Some d, e_cloexec = False\<rparr> tab"] Cons.prems g
      by (cases "j = i") (simp_all add: slot_set_slot split: option.split)
  qed simp
  from this [of empty_table gs] assms show ?thesis
    by (auto simp: install_grants_def empty_table_def slot_at split: option.splits)
qed

text \<open>The child's table as the actions say it: a description and its close-on-exec flag for each number.
  What is marked is dropped as the program starts.\<close>

definition open_map :: "kernel \<Rightarrow> int \<Rightarrow> (ptr \<times> bool) option" where
  "open_map k fd =
     (if bad_index fd then None else map_option (\<lambda>d. (d, e_cloexec (entry_of k fd))) (e_desc (entry_of k fd)))"

fun act_on_map :: "file_action \<Rightarrow> (int \<Rightarrow> (ptr \<times> bool) option) \<Rightarrow> int \<Rightarrow> (ptr \<times> bool) option" where
  "act_on_map (AddClose fd) f = f(fd := None)"
| "act_on_map (AddDup2 source fd) f = f(fd := map_option (\<lambda>(d, _). (d, False)) (f source))"
| "act_on_map _ f = f"

fun plain_action :: "file_action \<Rightarrow> bool" where
  "plain_action (AddClose _) = True"
| "plain_action (AddDup2 _ _) = True"
| "plain_action _ = False"

definition slots_map :: "kernel \<Rightarrow> (int \<times> bool) option list \<Rightarrow> int \<Rightarrow> (ptr \<times> bool) option" where
  "slots_map k slots fd =
     (case deref slots fd of None \<Rightarrow> None | Some (parent, c) \<Rightarrow> map_option (\<lambda>d. (d, c)) (e_desc (entry_of k parent)))"

lemma slots_map_start: "slots_map k (spawn_slots k) = open_map k"
proof
  fix fd
  show "slots_map k (spawn_slots k) fd = open_map k fd"
  proof (cases "0 \<le> fd \<and> fd < 256")
    case True
    then have "slot [0..<256] fd = Some (nat fd)" by (simp add: slot_at nat_less_iff)
    then show ?thesis using True
      by (simp add: slots_map_def spawn_slots_def deref_def slot_map getfd_result open_map_def bad_index_def MAX_OPEN_def
          le_nat_iff split: option.split)
  next
    case False
    then have "slot (spawn_slots k) fd = None" by (cases "fd < 0") (auto simp: slot_negative slot_at spawn_slots_def)
    then show ?thesis using False by (auto simp: slots_map_def deref_def open_map_def bad_index_def MAX_OPEN_def)
  qed
qed

lemma spawn_action_plain:
  assumes "plain_action a" "spawn_action a (p, k) = (Inr u, p', k')" "length (sp_slots p) = 256"
  shows "k' = k \<and> sp_cwd p' = sp_cwd p \<and> length (sp_slots p') = 256 \<and>
    slots_map k (sp_slots p') = act_on_map a (slots_map k (sp_slots p))"
proof (cases a)
  case (AddDup2 source fd)
  then have fd: "\<not> bad_index fd" using assms(2) by (auto simp: spawn_action_def)
  then have "slot (sp_slots p) fd \<noteq> None" using assms(3) by (simp add: slot_at bad_index_def MAX_OPEN_def)
  then show ?thesis using assms AddDup2 fd
    by (auto simp: spawn_action_def slots_map_def deref_set_slot fun_eq_iff option.map_comp comp_def split: option.splits)
next
  case (AddClose fd)
  then have fd: "\<not> bad_index fd" using assms(2) by (auto simp: spawn_action_def split: if_splits)
  then have "slot (sp_slots p) fd \<noteq> None" using assms(3) by (simp add: slot_at bad_index_def MAX_OPEN_def)
  then show ?thesis using assms AddClose fd
    by (auto simp: spawn_action_def slots_map_def deref_set_slot fun_eq_iff)
qed (use assms(1) in auto)

lemma spawn_actions_plain:
  assumes "list_all plain_action as" "spawn_actions as (p, k) = (Inr u, p', k')" "length (sp_slots p) = 256"
  shows "k' = k \<and> sp_cwd p' = sp_cwd p \<and> length (sp_slots p') = 256 \<and>
    slots_map k (sp_slots p') = fold act_on_map as (slots_map k (sp_slots p))"
  using assms
proof (induction as arbitrary: p)
  case (Cons a as)
  obtain v p1 k1 where a: "spawn_action a (p, k) = (Inr v, p1, k1)" "spawn_actions as (p1, k1) = (Inr u, p', k')"
    using Cons.prems(2) by (auto split: prod.splits sum.splits)
  from spawn_action_plain [OF _ a(1)] Cons.prems(1,3) Cons.IH [of p1] a(2) show ?case by simp
qed simp

lemma spawned_parts:
  assumes "sysSpawnProcess path pairs None k = (Inr (pid, tab, dir), k')"
  shows "pid = next_pid k \<and> dir = cwd k \<and>
    tab = install_grants (map (\<lambda>(i, parent). (i, the (e_desc (entry_of k parent)))) pairs) \<and>
    (\<forall>(i, parent) \<in> set pairs. e_desc (entry_of k parent) \<noteq> None)"
proof -
  obtain name gs k1 where "take_grants pairs [] k = (Inr gs, k1)" "spawn_path name (cwd k) gs k1 = (Inr (pid, tab, dir), k')"
    using assms by (auto simp: sysSpawnProcess_def with_path_def split: sum.splits prod.splits)
  then show ?thesis
    using take_grants_result [of pairs "[]" k gs k1]
    by (auto simp: spawn_path_def Let_def split: sum.splits prod.splits if_splits)
qed

text \<open>C15: A spawned program starts with exactly the descriptors that its parent's table and the actions say:
  each number that is open and not close-on-exec after the duplications and closings, with the same
  open file description, unmarked; every other number is free. It starts in its parent's directory,
  under the next process number.\<close>

theorem child_gets_exact_descriptors:
  assumes "list_all plain_action actions" "posix_spawn path actions k = (Inr (pid, tab, dir), k')" "0 \<le> fd" "fd < 256"
  shows "slot tab fd = Some \<lparr>e_desc = (case fold act_on_map actions (open_map k) fd of Some (d, False) \<Rightarrow> Some d | _ \<Rightarrow> None),
      e_cloexec = False\<rparr> \<and> dir = cwd k \<and> pid = next_pid k"
proof -
  let ?start = "\<lparr>sp_slots = spawn_slots k, sp_opened = [], sp_cwd = None\<rparr>"
  obtain u p k1 k2 where s: "spawn_actions actions (?start, k) = (Inr u, p, k1)"
    and g: "sysSpawnProcess path (spawn_pairs 0 (sp_slots p)) (sp_cwd p) k1 = (Inr (pid, tab, dir), k2)"
    using assms(2) by (auto simp: posix_spawn_def split: sum.splits prod.splits)
  have l: "length (spawn_slots k) = 256" by (simp add: spawn_slots_def)
  from spawn_actions_plain [OF assms(1) s] l have p: "k1 = k" "sp_cwd p = None" "length (sp_slots p) = 256"
    and m: "slots_map k (sp_slots p) = fold act_on_map actions (open_map k)" by (simp_all add: slots_map_start)
  let ?pairs = "spawn_pairs 0 (sp_slots p)"
  let ?grants = "map (\<lambda>(i, parent). (i, the (e_desc (entry_of k parent)))) ?pairs"
  from spawned_parts [of path ?pairs k] g p have c: "pid = next_pid k" "dir = cwd k" "tab = install_grants ?grants"
    and some: "\<forall>(i, parent) \<in> set ?pairs. e_desc (entry_of k parent) \<noteq> None" by auto
  have f: "map fst ?grants = map fst ?pairs" by (simp add: case_prod_beta)
  have "distinct (map fst ?grants)" unfolding f by (rule spawn_pairs_distinct)
  moreover have "fst ` set ?grants \<subseteq> {0..<256}" using spawn_pairs_bounds [of _ 0 "sp_slots p"] p(3) by fastforce
  ultimately have t: "slot tab fd = Some \<lparr>e_desc = map_of ?grants fd, e_cloexec = False\<rparr>"
    using slot_install assms(3,4) c(3) by blast
  have "map_of ?grants fd = map_option (\<lambda>parent. the (e_desc (entry_of k parent))) (map_of ?pairs fd)"
    by (rule map_of_map [unfolded comp_def, THEN fun_cong])
  also have "\<dots> = (case slots_map k (sp_slots p) fd of Some (d, False) \<Rightarrow> Some d | _ \<Rightarrow> None)"
    using some spawn_pairs_map_of [of 0 "sp_slots p" fd] map_of_SomeD [of ?pairs fd] assms(3)
    by (auto simp: slots_map_def split: option.splits bool.splits)
  finally show ?thesis using t c(1,2) m by simp
qed

lemma sample_spawn:
  "case fst (posix_spawn ''/bin/spawn-child'' [AddDup2 2 5, AddClose 0] (start_kernel 1)) of Inr _ \<Rightarrow> True | Inl _ \<Rightarrow> False"
  "fold act_on_map [AddDup2 2 5, AddClose 0] (open_map (start_kernel 1)) 5 = Some (2, False)"
  "fold act_on_map [AddDup2 2 5, AddClose 0] (open_map (start_kernel 1)) 0 = None"
  by code_simp+

theorem child_gets_exact_descriptors_witness:
  "\<exists>pid tab dir k'. posix_spawn ''/bin/spawn-child'' [AddDup2 2 5, AddClose 0] (start_kernel 1) = (Inr (pid, tab, dir), k') \<and>
    slot tab 5 = Some \<lparr>e_desc = Some 2, e_cloexec = False\<rparr> \<and> slot tab 0 = Some \<lparr>e_desc = None, e_cloexec = False\<rparr>"
proof -
  obtain pid tab dir k' where "posix_spawn ''/bin/spawn-child'' [AddDup2 2 5, AddClose 0] (start_kernel 1) = (Inr (pid, tab, dir), k')"
    using sample_spawn(1) by (auto split: sum.splits simp: fst_def split: prod.splits)
  from child_gets_exact_descriptors [OF _ this, of 5, unfolded sample_spawn(2)]
    child_gets_exact_descriptors [OF _ this, of 0, unfolded sample_spawn(3)] this
  show ?thesis by simp
qed

section \<open>What a parent learns\<close>

text \<open>C37: A child that has exited is collected once, and its status comes back as its low byte, with one
  exception: the kernel returns the code in the place of its errors, so a negative code above -4096 is
  taken for one. Such a child is gone, but \<open>waitpid\<close> fails with the error of that number or, for -11,
  says that the child still runs.\<close>

theorem exit_status_reported:
  assumes "find (\<lambda>t. t_pid t = pid \<and> t_parent t = owner_pid k) (tasks k) = Some t" "t_exit t = Some code"
    "0 < pid" "pid < 2 ^ 32"
  shows "waitpid pid nohang k =
    (if code = -11 then WaitNone
     else if -4096 < code \<and> code < 0 then WaitErr (- code)
     else WaitPid pid (code mod 256), k\<lparr>tasks := filter (\<lambda>u. t_pid u \<noteq> pid) (tasks k)\<rparr>)"
  using assms by (auto simp: waitpid_def sys_wait_def collectChild_def)

text \<open>\<open>exit(-1)\<close> and \<open>exit(-11)\<close>.\<close>

theorem exit_status_reported_witness:
  "fst (waitpid 8 True ((start_kernel 1)\<lparr>tasks := [\<lparr>t_pid = 8, t_parent = 7, t_exit = Some (-1)\<rparr>]\<rparr>)) = WaitErr 1 \<and>
   fst (waitpid 8 True ((start_kernel 1)\<lparr>tasks := [\<lparr>t_pid = 8, t_parent = 7, t_exit = Some (-11)\<rparr>]\<rparr>)) = WaitNone \<and>
   fst (waitpid 8 True ((start_kernel 1)\<lparr>tasks := [\<lparr>t_pid = 8, t_parent = 7, t_exit = Some 3\<rparr>]\<rparr>)) = WaitPid 8 3"
proof -
  let ?t = "\<lambda>c. \<lparr>t_pid = 8, t_parent = 7, t_exit = Some c\<rparr>"
  let ?k = "\<lambda>c. (start_kernel 1)\<lparr>tasks := [?t c]\<rparr>"
  have "find (\<lambda>t. t_pid t = 8 \<and> t_parent t = owner_pid (?k c)) (tasks (?k c)) = Some (?t c)" for c
    by (simp add: start_kernel_def)
  from exit_status_reported [OF this, of "-1" "-1"] exit_status_reported [OF this, of "-11" "-11"] exit_status_reported [OF this, of 3 3]
  show ?thesis by simp
qed

end
