(* ===== verification/TmpPages.thy ===== *)
theory TmpPages
  imports KTmpfs
begin

text \<open>
  The paged data of a tmpfs file, byte by byte: which byte is at a position, which bytes the copying
  loops of \<open>read\<close> and \<open>write\<close> move, which pages a write takes and why it stops, and what a
  truncation leaves.
\<close>

declare read_pages.simps [simp del] write_pages.simps [simp del]

section \<open>Bytes of a paged file\<close>

definition page_byte :: "u8 list option \<Rightarrow> int \<Rightarrow> u8" where
  "page_byte f q = (case f of Some xs \<Rightarrow> (if nat q < length xs then xs ! nat q else 0) | None \<Rightarrow> 0)"

definition frame_of :: "u8 list option list \<Rightarrow> int \<Rightarrow> u8 list option" where
  "frame_of frames page = (case slot frames page of Some f \<Rightarrow> f | None \<Rightarrow> None)"

definition byte_of :: "u8 list option list \<Rightarrow> int \<Rightarrow> u8" where
  "byte_of frames p = page_byte (frame_of frames (p div PAGE_SIZE)) (p mod PAGE_SIZE)"

lemma frameAt_frame_of: "frameAt x page = frame_of (in_frames x) page"
  by (simp add: frameAt_def frame_of_def split: option.split)

lemma page_pos [simp]: "0 < PAGE_SIZE" by (simp add: PAGE_SIZE_def)

lemma page_inner: "0 \<le> p mod PAGE_SIZE" "p mod PAGE_SIZE < PAGE_SIZE"
  by (simp_all add: PAGE_SIZE_def)

lemma page_div_same:
  assumes "0 \<le> i" "i < PAGE_SIZE - p mod PAGE_SIZE"
  shows "(p + i) div PAGE_SIZE = p div PAGE_SIZE" "(p + i) mod PAGE_SIZE = p mod PAGE_SIZE + i"
proof -
  have e: "p + i = (p mod PAGE_SIZE + i) + PAGE_SIZE * (p div PAGE_SIZE)" by simp
  have b: "0 \<le> p mod PAGE_SIZE + i" "p mod PAGE_SIZE + i < PAGE_SIZE" using assms page_inner [of p] by auto
  show "(p + i) div PAGE_SIZE = p div PAGE_SIZE" using b by (subst e, subst div_mult_self2) simp_all
  show "(p + i) mod PAGE_SIZE = p mod PAGE_SIZE + i" using b by (subst e, subst mod_mult_self2) simp
qed

lemma read_pages_bytes:
  "0 \<le> position \<Longrightarrow> read_pages x position count = map (\<lambda>i. byte_of (in_frames x) (position + int i)) [0..<nat count]"
proof (induction x position count rule: read_pages.induct)
  case (1 x position count)
  show ?case
  proof (cases "count \<le> 0")
    case False
    define inner chunk where "inner = position mod PAGE_SIZE" and "chunk = min (PAGE_SIZE - inner) count"
    have c: "0 < chunk" "chunk \<le> count" "chunk \<le> PAGE_SIZE - inner"
      using False page_inner [of position] by (auto simp: chunk_def inner_def)
    let ?f = "frameAt x (position div PAGE_SIZE)"
    let ?here = "case ?f of None \<Rightarrow> replicate (nat chunk) 0
      | Some frame \<Rightarrow> let bytes = page_slice frame inner chunk in bytes @ replicate (nat chunk - length bytes) 0"
    have "?here = map (\<lambda>i. page_byte ?f (inner + int i)) [0..<nat chunk]"
    proof (cases ?f)
      case None
      then show ?thesis by (simp add: page_byte_def map_replicate_const)
    next
      case (Some frame)
      have "0 \<le> inner" by (simp add: inner_def page_inner)
      then show ?thesis
        using Some by (auto simp: page_byte_def page_slice_def Let_def list_eq_iff_nth_eq nth_append nat_add_distrib)
          (rule nth_replicate, linarith)
    qed
    also have "\<dots> = map (\<lambda>i. byte_of (in_frames x) (position + int i)) [0..<nat chunk]"
      using page_div_same [of _ position] c(3) by (auto simp: byte_of_def frameAt_frame_of inner_def)
    finally have here: "?here = map (\<lambda>i. byte_of (in_frames x) (position + int i)) [0..<nat chunk]" .
    have "read_pages x (position + chunk) (count - chunk) =
        map (\<lambda>i. byte_of (in_frames x) (position + chunk + int i)) [0..<nat (count - chunk)]"
      using "1.IH" [OF False inner_def chunk_def] "1.prems" c(1) by simp
    moreover have "[0..<nat count] = [0..<nat chunk] @ map (\<lambda>i. i + nat chunk) [0..<nat (count - chunk)]"
      using c(1,2) upt_add_eq_append [of 0 "nat chunk" "nat count - nat chunk"] by (simp add: map_add_upt nat_diff_distrib' del: upt_Suc)
    moreover have "read_pages x position count = ?here @ read_pages x (position + chunk) (count - chunk)"
      using False by (subst read_pages.simps) (simp add: Let_def inner_def chunk_def cong: option.case_cong)
    ultimately show ?thesis using here c(1) by (simp add: comp_def algebra_simps)
  qed (subst read_pages.simps, simp)
qed

text \<open>Bytes placed over a page.\<close>

lemma page_byte_splice:
  assumes "0 \<le> inner" "0 \<le> q"
  shows "page_byte (Some (splice inner xs frame)) q =
    (if inner \<le> q \<and> q < inner + int (length xs) then xs ! nat (q - inner) else page_byte (Some frame) q)"
proof -
  define m where "m = nat inner"
  define n where "n = nat q"
  have mn: "inner = int m" "q = int n" using assms by (simp_all add: m_def n_def)
  define pre where "pre = take m frame @ replicate (m - length frame) 0"
  have l: "length pre = m" by (simp add: pre_def)
  show ?thesis
  proof (cases "n < m")
    case True
    then show ?thesis by (auto simp: page_byte_def splice_def mn nth_append)
  next
    case ge: False
    have "splice inner xs frame = pre @ xs @ drop (m + length xs) frame"
      by (simp add: splice_def mn pre_def)
    then have "splice inner xs frame ! n = (xs @ drop (m + length xs) frame) ! (n - m)"
      "length (splice inner xs frame) = m + length xs + (length frame - (m + length xs))"
      using ge l by (simp_all add: nth_append)
    then show ?thesis using ge by (auto simp: page_byte_def mn nth_append nat_diff_distrib')
  qed
qed

lemma frame_of_set:
  "frame_of (set_slot page f frames) page' = (if page' = page \<and> slot frames page \<noteq> None then f else frame_of frames page')"
  by (auto simp: frame_of_def slot_set_slot split: option.splits)

lemma frame_or_zero_byte: "page_byte (Some (frame_or_zero frames page)) q = page_byte (frame_of frames page) q"
  by (auto simp: frame_or_zero_def zero_page_def frame_of_def page_byte_def split: option.splits)

lemma hole_frame: "hole_at frames page \<longleftrightarrow> frame_of frames page = None"
  by (auto simp: hole_at_def frame_of_def split: option.splits)

definition held_pages :: "u8 list option list \<Rightarrow> int" where
  "held_pages frames = int (length (filter (\<lambda>f. f \<noteq> None) frames))"

lemma held_pages_set:
  "held_pages (set_slot page (Some f) frames) =
    held_pages frames + (if slot frames page \<noteq> None \<and> frame_of frames page = None then 1 else 0)"
proof (induction frames arbitrary: page)
  case (Cons a frames)
  show ?case using Cons [of "page - 1"] by (cases "page = 0"; cases a) (simp_all add: held_pages_def frame_of_def)
qed (simp add: held_pages_def)

lemma slot_exists: "slot xs i \<noteq> None \<longleftrightarrow> 0 \<le> i \<and> i < int (length xs)"
proof (induction xs arbitrary: i)
  case (Cons x xs)
  then show ?case using Cons [of "i - 1"] by (cases "i = 0") auto
qed auto

text \<open>One page of a write.\<close>

lemma byte_of_splice:
  assumes "0 \<le> position" "0 \<le> p" "0 < chunk" "chunk \<le> PAGE_SIZE - position mod PAGE_SIZE" "int (length xs) = chunk"
    and "slot frames (position div PAGE_SIZE) \<noteq> None"
  shows "byte_of (set_slot (position div PAGE_SIZE)
        (Some (splice (position mod PAGE_SIZE) xs (frame_or_zero frames (position div PAGE_SIZE)))) frames) p =
    (if position \<le> p \<and> p < position + chunk then xs ! nat (p - position) else byte_of frames p)"
proof (cases "p div PAGE_SIZE = position div PAGE_SIZE")
  case True
  then have d: "p - position = p mod PAGE_SIZE - position mod PAGE_SIZE"
    using mult_div_mod_eq [of PAGE_SIZE p] mult_div_mod_eq [of PAGE_SIZE position] unfolding True by linarith
  then have "position mod PAGE_SIZE \<le> p mod PAGE_SIZE \<longleftrightarrow> position \<le> p"
    "p mod PAGE_SIZE < position mod PAGE_SIZE + chunk \<longleftrightarrow> p < position + chunk" by linarith+
  then show ?thesis
    using True assms(5,6) d
    by (simp add: byte_of_def frame_of_set page_byte_splice page_inner frame_or_zero_byte)
next
  case False
  have "\<not> (position \<le> p \<and> p < position + chunk)"
    using False page_div_same(1) [of "p - position" position] assms(4) by auto
  with False show ?thesis unfolding byte_of_def frame_of_set by (simp only: if_False simp_thms)
qed

text \<open>The copying loop of a write: the bytes it copies, the pages it takes, and why it stops.\<close>

lemma write_pages_result:
  assumes "write_pages frames position bytes room memory = (frames', used, n)" "0 \<le> position"
    "position + int (length bytes) \<le> int (length frames) * PAGE_SIZE"
  shows "0 \<le> n \<and> n \<le> int (length bytes) \<and> length frames' = length frames \<and> held_pages frames' = held_pages frames + used \<and>
    0 \<le> used \<and> used \<le> max 0 (min room memory) \<and> used \<le> n \<and>
    (n < int (length bytes) \<longrightarrow> used = max 0 (min room memory)) \<and>
    (\<forall>p \<ge> 0. byte_of frames' p = (if position \<le> p \<and> p < position + n then bytes ! nat (p - position) else byte_of frames p)) \<and>
    (\<forall>q. frame_of frames' q \<noteq> None \<longrightarrow> frame_of frames q \<noteq> None \<or> q * PAGE_SIZE < position + n)"
  using assms
proof (induction frames position bytes room memory arbitrary: frames' used n rule: write_pages.induct)
  case (1 frames position bytes room memory)
  show ?case
  proof (cases "bytes = []")
    case False
    define inner page chunk hole where "inner = position mod PAGE_SIZE" and "page = position div PAGE_SIZE"
      and "chunk = min (PAGE_SIZE - inner) (int (length bytes))" and "hole = hole_at frames page"
    define taken :: int where "taken = (if hole then 1 else 0)"
    define frame where "frame = frame_or_zero frames page"
    define later where "later = set_slot page (Some (splice inner (take (nat chunk) bytes) frame)) frames"
    have c: "0 < chunk" "chunk \<le> int (length bytes)" "chunk \<le> PAGE_SIZE - position mod PAGE_SIZE"
      using False page_inner [of position] by (auto simp: chunk_def inner_def)
    have w: "write_pages frames position bytes room memory =
        (if hole \<and> (room \<le> 0 \<or> memory \<le> 0) then (frames, 0, 0)
         else case write_pages later (position + chunk) (drop (nat chunk) bytes) (room - taken) (memory - taken) of
           (r, used, n) \<Rightarrow> (r, used + taken, n + chunk))"
      using False unfolding write_pages.simps [of frames position bytes room memory] inner_def page_def chunk_def hole_def taken_def frame_def later_def Let_def
      by (simp only: if_False)
    show ?thesis
    proof (cases "hole \<and> (room \<le> 0 \<or> memory \<le> 0)")
      case True
      then have "frames' = frames" "used = 0" "n = 0" using "1.prems"(1) w by simp_all
      moreover have "max 0 (min room memory) = 0" if "room \<le> 0 \<or> memory \<le> 0" using that by linarith
      ultimately show ?thesis using True by auto
    next
      case go: False
      let ?more = "drop (nat chunk) bytes"
      obtain used1 n1 where r: "write_pages later (position + chunk) ?more (room - taken) (memory - taken) = (frames', used1, n1)"
        "used = used1 + taken" "n = n1 + chunk"
        using "1.prems"(1) w go by (auto split: prod.splits)
      have e: "page * PAGE_SIZE + inner = position" by (simp add: page_def inner_def)
      have "page * PAGE_SIZE < int (length frames) * PAGE_SIZE" using e "1.prems"(3) c page_inner [of position] unfolding inner_def by linarith
      then have "page < int (length frames)" by (simp add: page_pos)
      moreover have "0 \<le> page" using "1.prems"(2) by (simp add: page_def pos_imp_zdiv_nonneg_iff)
      ultimately have slot: "slot frames page \<noteq> None" unfolding slot_exists by simp
      have l: "length later = length frames" by (simp add: later_def)
      have h: "held_pages later = held_pages frames + taken"
        using slot by (simp add: later_def held_pages_set taken_def hole_def hole_frame)
      have b: "byte_of later p = (if position \<le> p \<and> p < position + chunk then bytes ! nat (p - position) else byte_of frames p)"
        if "0 \<le> p" for p
        using byte_of_splice [of position p chunk "take (nat chunk) bytes" frames] that "1.prems"(2) c slot
        by (simp add: later_def frame_def page_def inner_def nat_less_iff)
      have ih: "0 \<le> n1 \<and> n1 \<le> int (length ?more) \<and> length frames' = length later \<and> held_pages frames' = held_pages later + used1 \<and>
        0 \<le> used1 \<and> used1 \<le> max 0 (min (room - taken) (memory - taken)) \<and> used1 \<le> n1 \<and>
        (n1 < int (length ?more) \<longrightarrow> used1 = max 0 (min (room - taken) (memory - taken))) \<and>
        (\<forall>p \<ge> 0. byte_of frames' p =
          (if position + chunk \<le> p \<and> p < position + chunk + n1 then ?more ! nat (p - (position + chunk)) else byte_of later p)) \<and>
        (\<forall>q. frame_of frames' q \<noteq> None \<longrightarrow> frame_of later q \<noteq> None \<or> q * PAGE_SIZE < position + chunk + n1)"
      proof (rule "1.IH" [OF False inner_def page_def chunk_def hole_def go frame_def taken_def later_def r(1)])
        show "0 \<le> position + chunk" using "1.prems"(2) c by linarith
        show "position + chunk + int (length ?more) \<le> int (length later) * PAGE_SIZE"
          using "1.prems"(3) c l by simp
      qed
      have m: "int (length ?more) = int (length bytes) - chunk" using c by simp
      have "byte_of frames' p = (if position \<le> p \<and> p < position + n then bytes ! nat (p - position) else byte_of frames p)"
        if "0 \<le> p" for p
      proof (cases "position + chunk \<le> p \<and> p < position + chunk + n1")
        case True
        then have "chunk + (p - (position + chunk)) = p - position" by simp
        then have "?more ! nat (p - (position + chunk)) = bytes ! nat (p - position)"
          using True c by (simp add: nth_drop flip: nat_add_distrib)
        then have "byte_of frames' p = bytes ! nat (p - position)" using ih that True by metis
        then show ?thesis using True c r(3) by simp
      next
        case False
        then show ?thesis using ih that b [OF that] r(3) by auto
      qed
      then have bytes: "\<forall>p \<ge> 0. byte_of frames' p =
          (if position \<le> p \<and> p < position + n then bytes ! nat (p - position) else byte_of frames p)" by blast
      have t: "taken \<le> max 0 (min room memory)" "0 \<le> taken \<and> taken \<le> 1" "max 0 (min (room - taken) (memory - taken)) = max 0 (min room memory) - taken"
        using go by (auto simp: taken_def)
      have "frame_of frames q \<noteq> None \<or> q * PAGE_SIZE < position + n" if "frame_of frames' q \<noteq> None" for q
      proof (cases "q = page")
        case True
        then show ?thesis using e c(1) conjunct1 [OF ih] r(3) page_inner [of position] unfolding inner_def True by linarith
      next
        case False
        then have "frame_of later q = frame_of frames q" by (simp add: later_def frame_of_set)
        moreover have "frame_of later q \<noteq> None \<or> q * PAGE_SIZE < position + chunk + n1" using ih that by blast
        ultimately show ?thesis using r(3) by (simp add: algebra_simps)
      qed
      then have pages: "\<forall>q. frame_of frames' q \<noteq> None \<longrightarrow> frame_of frames q \<noteq> None \<or> q * PAGE_SIZE < position + n" by blast
      from ih have i: "0 \<le> n1" "n1 \<le> int (length ?more)" "length frames' = length later" "held_pages frames' = held_pages later + used1"
        "0 \<le> used1" "used1 \<le> max 0 (min (room - taken) (memory - taken))" "used1 \<le> n1"
        "n1 < int (length ?more) \<longrightarrow> used1 = max 0 (min (room - taken) (memory - taken))" by blast+
      have "0 \<le> n" "n \<le> int (length bytes)" "length frames' = length frames" "held_pages frames' = held_pages frames + used"
        "0 \<le> used" "used \<le> max 0 (min room memory)" "used \<le> n"
        using i(1-7) m c(1) l h r(2,3) t(1,3) conjunct1 [OF t(2)] conjunct2 [OF t(2)] by linarith+
      moreover have "n < int (length bytes) \<longrightarrow> used = max 0 (min room memory)" using i(8) m r(2,3) t(3) by linarith
      ultimately show ?thesis using bytes pages by blast
    qed
  qed (use "1.prems"(1) write_pages.simps [of frames position "[]" room memory] in auto)
qed

section \<open>What a truncation leaves\<close>

definition cut_frames :: "int \<Rightarrow> u8 list option list \<Rightarrow> u8 list option list" where
  "cut_frames n frames =
     (let keep = nat ((n + PAGE_SIZE - 1) div PAGE_SIZE);
          kept = take keep frames @ map (\<lambda>_. None) (drop keep frames)
      in if n mod PAGE_SIZE \<noteq> 0 then
           case slot kept (n div PAGE_SIZE) of
             Some (Some f) \<Rightarrow> set_slot (n div PAGE_SIZE) (Some (take (nat (n mod PAGE_SIZE)) f)) kept
           | _ \<Rightarrow> kept
         else kept)"

lemma frame_of_kept:
  "0 \<le> page \<Longrightarrow> frame_of (take k frames @ map (\<lambda>_. None) (drop k frames)) page = (if page < int k then frame_of frames page else None)"
proof (induction frames arbitrary: k page)
  case (Cons f frames)
  show ?case using Cons.IH [of "page - 1" "k - 1"] Cons.prems
    by (cases k) (auto simp: frame_of_def)
qed (simp add: frame_of_def)

lemma page_split: "p div PAGE_SIZE * PAGE_SIZE + p mod PAGE_SIZE = p" "0 \<le> p mod PAGE_SIZE" "p mod PAGE_SIZE < PAGE_SIZE"
  using page_inner by simp_all

lemma page_before: "page < (n + PAGE_SIZE - 1) div PAGE_SIZE \<longleftrightarrow> page * PAGE_SIZE < n"
  using page_split [of "n + PAGE_SIZE - 1"] unfolding PAGE_SIZE_def by linarith

lemma page_last: "page = n div PAGE_SIZE \<Longrightarrow> page * PAGE_SIZE < n \<longleftrightarrow> n mod PAGE_SIZE \<noteq> 0"
proof (rule iffI)
  assume "page = n div PAGE_SIZE"
  then have p: "page * PAGE_SIZE + n mod PAGE_SIZE = n" using page_split(1) [of n] by blast
  { assume "page * PAGE_SIZE < n" then show "n mod PAGE_SIZE \<noteq> 0" using p by linarith }
  { assume "n mod PAGE_SIZE \<noteq> 0" then show "page * PAGE_SIZE < n" using p page_inner(1) [of n] by linarith }
qed

lemma frame_of_cut:
  assumes "0 \<le> n" "0 \<le> page"
  shows "frame_of (cut_frames n frames) page =
    (if n \<le> page * PAGE_SIZE then None
     else if page = n div PAGE_SIZE then map_option (take (nat (n mod PAGE_SIZE))) (frame_of frames page)
     else frame_of frames page)"
proof -
  let ?keep = "nat ((n + PAGE_SIZE - 1) div PAGE_SIZE)"
  let ?kept = "take ?keep frames @ map (\<lambda>_. None) (drop ?keep frames)"
  have "page < int ?keep \<longleftrightarrow> page * PAGE_SIZE < n" using assms page_before [of page n] by auto
  then have k: "frame_of ?kept page = (if n \<le> page * PAGE_SIZE then None else frame_of frames page)"
    using frame_of_kept [OF assms(2), of ?keep frames] by auto
  show ?thesis
  proof (cases "n mod PAGE_SIZE = 0")
    case True
    then show ?thesis using k page_last [of page n] by (auto simp: cut_frames_def Let_def)
  next
    case False
    let ?last = "n div PAGE_SIZE"
    have c: "cut_frames n frames = (case slot ?kept ?last of
        Some (Some f) \<Rightarrow> set_slot ?last (Some (take (nat (n mod PAGE_SIZE)) f)) ?kept | _ \<Rightarrow> ?kept)"
      using False by (simp add: cut_frames_def Let_def)
    show ?thesis
    proof (cases "page = ?last")
      case True
      then have "\<not> n \<le> page * PAGE_SIZE" using page_last [of page n] False by simp
      then have "frame_of ?kept ?last = frame_of frames ?last" using k True by simp
      then show ?thesis using True \<open>\<not> n \<le> page * PAGE_SIZE\<close> unfolding c
        by (auto simp: frame_of_set frame_of_def [of ?kept] split: option.splits) (simp_all add: frame_of_def)?
    next
      case other: False
      then have "frame_of (cut_frames n frames) page = frame_of ?kept page" unfolding c
        by (auto simp: frame_of_set split: option.split)
      then show ?thesis using k other by simp
    qed
  qed
qed

lemma held_kept:
  "held_pages (take k frames @ map (\<lambda>_. None) (drop k frames)) = held_pages frames - int (length (filter (\<lambda>f. f \<noteq> None) (drop k frames)))"
proof -
  have "held_pages frames = held_pages (take k frames) + held_pages (drop k frames)"
    by (simp add: held_pages_def flip: filter_append of_nat_add length_append)
  then show ?thesis by (simp add: held_pages_def comp_def)
qed

definition freed_pages :: "int \<Rightarrow> u8 list option list \<Rightarrow> int" where
  "freed_pages n frames = int (length (filter (\<lambda>f. f \<noteq> None) (drop (nat ((n + PAGE_SIZE - 1) div PAGE_SIZE)) frames)))"

lemma held_cut: "held_pages (cut_frames n frames) = held_pages frames - freed_pages n frames"
  by (auto simp: freed_pages_def cut_frames_def Let_def held_kept held_pages_set frame_of_def split: option.splits)

lemma byte_of_cut:
  assumes "0 \<le> n" "0 \<le> p"
  shows "byte_of (cut_frames n frames) p = (if p < n then byte_of frames p else 0)"
proof -
  let ?page = "p div PAGE_SIZE"
  have q: "0 \<le> ?page" using assms by (simp add: pos_imp_zdiv_nonneg_iff)
  have p: "?page * PAGE_SIZE + p mod PAGE_SIZE = p" by simp
  show ?thesis
  proof (cases "n \<le> ?page * PAGE_SIZE")
    case True
    then have "\<not> p < n" using p page_inner [of p] by linarith
    then show ?thesis using True frame_of_cut [OF assms(1) q] by (simp add: byte_of_def page_byte_def)
  next
    case False
    show ?thesis
    proof (cases "?page = n div PAGE_SIZE")
      case True
      then have "p < n \<longleftrightarrow> p mod PAGE_SIZE < n mod PAGE_SIZE"
        using page_split(1) [of n] page_split(1) [of p] unfolding True by linarith
      moreover have "nat (p mod PAGE_SIZE) < nat (n mod PAGE_SIZE) \<longleftrightarrow> p mod PAGE_SIZE < n mod PAGE_SIZE"
        using page_inner(1) [of p] by linarith
      ultimately show ?thesis using True False frame_of_cut [OF assms(1) q] page_inner
        by (auto simp: byte_of_def page_byte_def split: option.splits)
    next
      case other: False
      have "p < n" using False other page_split [of n] page_split [of p] unfolding PAGE_SIZE_def by linarith
      then show ?thesis using False other frame_of_cut [OF assms(1) q] by (simp add: byte_of_def)
    qed
  qed
qed

end
