(* ===== verification/TmpFiles.thy ===== *)
theory TmpFiles
  imports TmpPages
begin

text \<open>
  What a tmpfs file is: a size and a byte for every position, zero where nothing was written. The
  paged representation implements it: \<open>read\<close>, \<open>write\<close> and \<open>truncate\<close> read, write and resize that
  file, and every operation of the filesystem keeps the books: a volume's counter is the number of
  pages its files hold, and no frame of memory is lost.
\<close>

section \<open>Files\<close>

text \<open>A file: its size, and the byte at each position; zero outside.\<close>

type_synonym byte_file = "int \<times> (int \<Rightarrow> u8)"

definition file_read :: "int \<Rightarrow> int \<Rightarrow> byte_file \<Rightarrow> u8 list" where
  "file_read offset room = (\<lambda>(n, f). map (\<lambda>i. f (offset + int i)) [0..<nat (min room (n - offset))])"

definition file_write :: "int \<Rightarrow> u8 list \<Rightarrow> byte_file \<Rightarrow> byte_file" where
  "file_write offset bytes = (\<lambda>(n, f).
     (max n (offset + int (length bytes)),
      \<lambda>p. if offset \<le> p \<and> p < offset + int (length bytes) then bytes ! nat (p - offset) else f p))"

definition file_resize :: "int \<Rightarrow> byte_file \<Rightarrow> byte_file" where
  "file_resize n = (\<lambda>(_, f). (n, \<lambda>p. if p < n then f p else 0))"

definition file_in :: "inode \<Rightarrow> byte_file" where
  "file_in x = (in_size x, \<lambda>p. if 0 \<le> p then byte_of (in_frames x) p else 0)"

definition file_at :: "tmpfs \<Rightarrow> ptr \<Rightarrow> byte_file" where
  "file_at fs i = file_in (inode_at fs i)"

text \<open>No page is held past the end, and nothing but zeros lies there.\<close>

definition file_ok :: "inode \<Rightarrow> bool" where
  "file_ok x \<longleftrightarrow> 0 \<le> in_size x \<and> (\<forall>q \<ge> 0. frame_of (in_frames x) q \<noteq> None \<longrightarrow> q * PAGE_SIZE < in_size x) \<and>
     (\<forall>p \<ge> in_size x. byte_of (in_frames x) p = 0)"

text \<open>The pages a volume's files hold.\<close>

definition pages_in :: "volname \<Rightarrow> inode option \<Rightarrow> int" where
  "pages_in v s = (case s of None \<Rightarrow> 0 | Some x \<Rightarrow> if in_vol x = v then held_pages (in_frames x) else 0)"

definition pages_of :: "volname \<Rightarrow> tmpfs \<Rightarrow> int" where
  "pages_of v fs = sum_list (map (pages_in v) (inodes fs))"

lemma pages_set:
  "slot xs i = Some s \<Longrightarrow> sum_list (map (pages_in v) (set_slot i t xs)) = sum_list (map (pages_in v) xs) + pages_in v t - pages_in v s"
proof (induction xs arbitrary: i)
  case (Cons x xs)
  then show ?case using Cons.IH [of "i - 1"] by (cases "i = 0") auto
qed simp

text \<open>The books: every file is sound, each volume's counter says how many pages its files hold, which its
  quota allows, and the pages held and the frames free are \<open>c\<close> together.\<close>

definition tmpfs_ok :: "int \<Rightarrow> tmpfs \<Rightarrow> bool" where
  "tmpfs_ok c fs \<longleftrightarrow>
     (\<forall>i x. deref (inodes fs) i = Some x \<longrightarrow> file_ok x) \<and>
     (\<forall>v. v_used (vol_of v fs) = pages_of v fs) \<and> (\<forall>v. pages_of v fs \<le> v_quota (vol_of v fs)) \<and>
     0 \<le> free_frames fs \<and> free_frames fs + pages_of TmpVol fs + pages_of DataVol fs = c"

text \<open>An inode changes with its pages counted.\<close>

lemma tmpfs_ok_change:
  assumes "tmpfs_ok c fs" "deref (inodes fs) i = Some x" "file_ok y" "in_vol y = in_vol x"
    "held_pages (in_frames y) = held_pages (in_frames x) + d"
    "inodes fs' = set_slot i (Some y) (inodes fs)" "free_frames fs' = free_frames fs - d" "0 \<le> free_frames fs'"
    "\<And>v. v_quota (vol_of v fs') = v_quota (vol_of v fs)"
    "\<And>v. v_used (vol_of v fs') = v_used (vol_of v fs) + (if v = in_vol x then d else 0)"
    "v_used (vol_of (in_vol x) fs') \<le> v_quota (vol_of (in_vol x) fs)"
  shows "tmpfs_ok c fs'"
proof -
  have s: "slot (inodes fs) i = Some (Some x)" using assms(2) by (simp add: deref_Some)
  have p: "pages_of v fs' = pages_of v fs + (if v = in_vol x then d else 0)" for v
    using pages_set [OF s, of v "Some y"] assms(4-6) by (simp add: pages_of_def pages_in_def)
  have "file_ok z" if "deref (inodes fs') j = Some z" for j z
    using that assms(1,3,6) s by (auto simp: deref_set_slot tmpfs_ok_def split: if_splits)
  then show ?thesis
    using assms(1,7-11) p by (cases "in_vol x") (auto simp: tmpfs_ok_def)
qed

lemma tmpfs_ok_keep:
  assumes "tmpfs_ok c fs" "inodes fs' = inodes fs" "free_frames fs' = free_frames fs"
    "\<And>v. v_quota (vol_of v fs') = v_quota (vol_of v fs) \<and> v_used (vol_of v fs') = v_used (vol_of v fs)"
  shows "tmpfs_ok c fs'"
  using assms by (simp add: tmpfs_ok_def pages_of_def)

section \<open>The operations keep the books\<close>

lemma vol_of_upd_vol: "vol_of v (upd_vol w f fs) = (if v = w then f (vol_of v fs) else vol_of v fs)"
  by (cases v; cases w) (simp_all add: vol_of_def upd_vol_def)

lemma upd_vol_simps [simp]: "inodes (upd_vol v f fs) = inodes fs" "free_frames (upd_vol v f fs) = free_frames fs"
  by (cases v; simp add: upd_vol_def)+

lemma vol_of_fields [simp]:
  "vol_of v (fs\<lparr>inodes := xs\<rparr>) = vol_of v fs" "vol_of v (fs\<lparr>free_frames := n\<rparr>) = vol_of v fs"
  "vol_of v (fs\<lparr>next_id := n\<rparr>) = vol_of v fs"
  by (cases v; simp add: vol_of_def)+

lemma changed_ok: "tmpfs_ok c fs \<Longrightarrow> tmpfs_ok c (changedLocked v fs)"
  by (erule tmpfs_ok_keep) (auto simp: changedLocked_def vol_of_upd_vol)

lemma changed_inode [simp]: "inode_at (changedLocked v fs) i = inode_at fs i" "inodes (changedLocked v fs) = inodes fs"
  by (simp_all add: changedLocked_def inode_at_def)

lemma inode_at_upd: "inode_at (upd_inode i f fs) j = (if j = i \<and> deref (inodes fs) i \<noteq> None then f (inode_at fs i) else inode_at fs j)"
  by (cases "deref (inodes fs) i") (auto simp: inode_at_def upd_inode_def deref_set_slot dest: deref_Some [THEN iffD1])

text \<open>A change of an inode that leaves its data alone.\<close>

definition keeps_data :: "(inode \<Rightarrow> inode) \<Rightarrow> bool" where
  "keeps_data f \<longleftrightarrow> (\<forall>x. in_vol (f x) = in_vol x \<and> in_size (f x) = in_size x \<and> in_frames (f x) = in_frames x)"

lemma upd_inode_ok:
  assumes "tmpfs_ok c fs" "keeps_data f"
  shows "tmpfs_ok c (upd_inode i f fs)"
proof (cases "deref (inodes fs) i")
  case (Some x)
  have "file_ok (f x)" using assms Some by (auto simp: tmpfs_ok_def file_ok_def keeps_data_def)
  then show ?thesis
    by (rule tmpfs_ok_change [OF assms(1) Some, where d = 0])
      (use assms Some in \<open>auto simp: upd_inode_def keeps_data_def tmpfs_ok_def\<close>)
qed (simp add: upd_inode_def assms)

lemma retain_ok: "tmpfs_ok c fs \<Longrightarrow> tmpfs_ok c (tmp_retain i fs)"
  unfolding tmp_retain_def by (erule upd_inode_ok) (simp add: keeps_data_def)

lemma link_ok: "tmpfs_ok c fs \<Longrightarrow> tmpfs_ok c (linkLocked parent child fs)"
  by (simp add: linkLocked_def upd_inode_ok keeps_data_def)

lemma unlink_ok: "tmpfs_ok c fs \<Longrightarrow> tmpfs_ok c (unlinkLocked child fs)"
  by (simp add: unlinkLocked_def upd_inode_ok keeps_data_def split: option.split)

lemma new_inode_ok:
  assumes "tmpfs_ok c fs" "newInodeLocked v dir name fs = (Inr i, fs')"
  shows "tmpfs_ok c fs'"
proof -
  obtain x where i: "slot (inodes fs) i = Some None" and x: "inodes fs' = set_slot i (Some x) (inodes fs)"
    "in_frames x = []" "in_size x = 0" "free_frames fs' = free_frames fs" "\<And>w. vol_of w fs' = vol_of w fs"
    using assms(2) first_free_bounds [of "inodes fs" 0] by (fastforce simp: newInodeLocked_def Let_def no_inode_def split: option.splits)
  have "file_ok x" by (simp add: file_ok_def x frame_of_def byte_of_def page_byte_def)
  then have "file_ok z" if "deref (inodes fs') j = Some z" for j z
    using that assms(1) i by (auto simp: x deref_set_slot tmpfs_ok_def split: if_splits)
  moreover have "pages_of w fs' = pages_of w fs" for w
    using pages_set [OF i, of w "Some x"] by (simp add: pages_of_def x pages_in_def held_pages_def)
  ultimately show ?thesis using assms(1) x by (simp add: tmpfs_ok_def)
qed

text \<open>A write: room for the pages, the copying, and the books.\<close>

lemma frame_of_grow: "frame_of (frames @ replicate k None) q = frame_of frames q"
proof (induction frames arbitrary: q)
  case Nil
  then show ?case by (induction k arbitrary: q) (auto simp: frame_of_def)
next
  case (Cons f frames)
  then show ?case by (auto simp: frame_of_def)
qed

lemma ensureCapacity_simps:
  "frame_of (in_frames (ensureCapacity n x)) = frame_of (in_frames x)"
  "byte_of (in_frames (ensureCapacity n x)) = byte_of (in_frames x)"
  "held_pages (in_frames (ensureCapacity n x)) = held_pages (in_frames x)"
  "in_vol (ensureCapacity n x) = in_vol x" "in_size (ensureCapacity n x) = in_size x"
  "n \<le> int (length (in_frames (ensureCapacity n x)))"
  by (auto simp: ensureCapacity_def Let_def fun_eq_iff frame_of_grow byte_of_def held_pages_def)

lemma ensureCapacity_ok: "file_ok x \<Longrightarrow> file_ok (ensureCapacity n x)"
  by (simp add: file_ok_def ensureCapacity_simps)

lemma pages_enough: "start + count \<le> (start + count + PAGE_SIZE - 1) div PAGE_SIZE * PAGE_SIZE"
  using page_split [of "start + count + PAGE_SIZE - 1"] by linarith

text \<open>What the loop makes of a file with room for the pages: the pages and the size of a written file.\<close>

lemma written_pages:
  assumes "file_ok x" "write_pages (in_frames y) start bytes room memory = (frames, used, n)" "0 \<le> start"
    "y = ensureCapacity ((start + int (length bytes) + PAGE_SIZE - 1) div PAGE_SIZE) x"
    "z = y\<lparr>in_frames := frames, in_size := max (in_size x) (start + n)\<rparr>"
  shows "0 \<le> n" "n \<le> int (length bytes)" "0 \<le> used" "used \<le> max 0 (min room memory) \<and> used \<le> n"
    "n < int (length bytes) \<Longrightarrow> used = max 0 (min room memory)"
    "held_pages frames = held_pages (in_frames x) + used" "0 < n \<or> bytes = [] \<Longrightarrow> file_ok z"
    "file_in z = file_write start (take (nat n) bytes) (file_in x)"
proof -
  have "start + int (length bytes) \<le> int (length (in_frames y)) * PAGE_SIZE"
    using pages_enough [of start "int (length bytes)"] ensureCapacity_simps(6) [of _ x] mult_right_mono [of _ "int (length (in_frames y))" PAGE_SIZE]
    unfolding assms(4) by (smt (verit) page_pos)
  note w = write_pages_result [OF assms(2,3) this]
  show "0 \<le> n" "n \<le> int (length bytes)" "0 \<le> used" "used \<le> max 0 (min room memory) \<and> used \<le> n"
    "n < int (length bytes) \<Longrightarrow> used = max 0 (min room memory)"
    "held_pages frames = held_pages (in_frames x) + used"
    using w by (simp_all add: assms(4) ensureCapacity_simps)
  have b: "byte_of frames p = (if start \<le> p \<and> p < start + n then bytes ! nat (p - start) else byte_of (in_frames x) p)"
    if "0 \<le> p" for p using w that by (simp add: assms(4) ensureCapacity_simps)
  have l: "int (length (take (nat n) bytes)) = n" using \<open>0 \<le> n\<close> \<open>n \<le> int (length bytes)\<close> by simp
  have "take (nat n) bytes ! nat (p - start) = bytes ! nat (p - start)" if "start \<le> p" "p < start + n" for p
    using that by simp
  then show "file_in z = file_write start (take (nat n) bytes) (file_in x)"
    using b assms(3) l by (auto simp: assms(5) file_in_def file_write_def fun_eq_iff)
  have "frame_of frames q \<noteq> None \<longrightarrow> frame_of (in_frames x) q \<noteq> None \<or> q * PAGE_SIZE < start + n" for q
    using w by (simp add: assms(4) ensureCapacity_simps)
  then show "file_ok z" if "0 < n \<or> bytes = []"
    using assms(1) b by (fastforce simp: assms(5) file_ok_def)
qed

lemma changed_file [simp]: "file_at (changedLocked v fs) i = file_at fs i" by (simp add: file_at_def)

definition write_start :: "int option \<Rightarrow> inode \<Rightarrow> int" where
  "write_start offset x = (case offset of None \<Rightarrow> in_size x | Some off \<Rightarrow> off)"

definition volume_full :: "tmpfs \<Rightarrow> volname \<Rightarrow> bool" where
  "volume_full fs v \<longleftrightarrow> v_used (vol_of v fs) = v_quota (vol_of v fs) \<or> free_frames fs = 0"

lemma tmp_write_result:
  assumes ok: "tmpfs_ok c fs" and i: "deref (inodes fs) i = Some x" and start: "0 \<le> write_start offset x"
    and w: "tmp_write i offset bytes fs = (Inr (n, e), fs')"
  shows "tmpfs_ok c fs' \<and> file_at fs' i = file_write (write_start offset x) (take (nat n) bytes) (file_in x) \<and>
    e = write_start offset x + n \<and> 0 \<le> n \<and> n \<le> int (length bytes) \<and> (n < int (length bytes) \<longrightarrow> volume_full fs' (in_vol x)) \<and>
    (\<forall>j. j \<noteq> i \<longrightarrow> inode_at fs' j = inode_at fs j)"
proof -
  let ?start = "write_start offset x" and ?v = "vol_of (in_vol x) fs"
  define y where "y = ensureCapacity ((?start + int (length bytes) + PAGE_SIZE - 1) div PAGE_SIZE) x"
  obtain frames used n1 where p: "write_pages (in_frames y) ?start bytes (v_quota ?v - v_used ?v) (free_frames fs) = (frames, used, n1)"
    by (metis prod_cases3)
  define z where "z = y\<lparr>in_frames := frames, in_size := max (in_size x) (?start + n1)\<rparr>"
  define fs1 where "fs1 = (upd_vol (in_vol x) (\<lambda>v. v\<lparr>v_used := v_used v + used\<rparr>) fs)\<lparr>free_frames := free_frames fs - used\<rparr>"
  define fs2 where "fs2 = upd_inode i (\<lambda>_. z) fs1"
  have x: "inode_at fs i = x" by (simp add: inode_at_def i)
  have f: "file_ok x" using ok i by (auto simp: tmpfs_ok_def)
  have "\<not> (n1 = 0 \<and> bytes \<noteq> []) \<and> n = n1 \<and> e = ?start + n1 \<and> fs' = (if in_linked x then changedLocked (in_vol x) fs2 else fs2)"
    using w p by (auto simp: tmp_write_def x write_start_def [symmetric] Let_def fs2_def fs1_def z_def y_def [symmetric] split: if_splits)
  then have n: "0 < n1 \<or> bytes = []" "n = n1" "e = ?start + n1" and fs': "fs' = (if in_linked x then changedLocked (in_vol x) fs2 else fs2)"
    using written_pages(1) [OF f p start y_def z_def] by auto
  note r = written_pages [OF f p start y_def z_def]
  have s: "slot (inodes fs) i = Some (Some x)" using i by (simp add: deref_Some)
  have in2: "inodes fs2 = set_slot i (Some z) (inodes fs)" by (simp add: fs2_def fs1_def upd_inode_def i)
  have u: "v_used ?v \<le> v_quota ?v" "0 \<le> free_frames fs" using ok by (auto simp: tmpfs_ok_def)
  have vol: "vol_of w fs2 = (if w = in_vol x then (vol_of w fs)\<lparr>v_used := v_used (vol_of w fs) + used\<rparr> else vol_of w fs)" for w
    by (simp add: fs2_def upd_inode_def fs1_def i vol_of_upd_vol)
  have free: "free_frames fs2 = free_frames fs - used" by (simp add: fs2_def upd_inode_def fs1_def i)
  have "tmpfs_ok c fs2"
    by (rule tmpfs_ok_change [OF ok i r(7) [OF n(1)] _ _ in2 free])
      (use r(3,4,6) u vol free in \<open>auto simp: z_def y_def ensureCapacity_simps\<close>)
  moreover have "file_at fs2 i = file_in z" by (simp add: file_at_def inode_at_def in2 deref_set_slot s)
  moreover have "volume_full fs2 (in_vol x)" if "n1 < int (length bytes)"
    using r(5) [OF that] u by (auto simp: volume_full_def vol free)
  moreover have "inode_at fs2 j = inode_at fs j" if "j \<noteq> i" for j using that by (simp add: inode_at_def in2 deref_set_slot)
  moreover have "volume_full fs' (in_vol x) = volume_full fs2 (in_vol x)"
    by (simp add: fs' volume_full_def changedLocked_def vol_of_upd_vol)
  ultimately show ?thesis using r(1,2,8) n fs' by (auto simp: changed_ok)
qed

lemma tmp_write_refused:
  assumes ok: "tmpfs_ok c fs" and i: "deref (inodes fs) i = Some x" and start: "0 \<le> write_start offset x"
    and w: "tmp_write i offset bytes fs = (Inl e, fs')"
  shows "tmpfs_ok c fs' \<and> (\<forall>j. file_at fs' j = file_at fs j) \<and> (e = TNoSpace \<longrightarrow> volume_full fs' (in_vol x))"
proof -
  let ?start = "write_start offset x" and ?v = "vol_of (in_vol x) fs"
  define y where "y = ensureCapacity ((?start + int (length bytes) + PAGE_SIZE - 1) div PAGE_SIZE) x"
  obtain frames used n1 where p: "write_pages (in_frames y) ?start bytes (v_quota ?v - v_used ?v) (free_frames fs) = (frames, used, n1)"
    by (metis prod_cases3)
  define fs1 where "fs1 = (upd_vol (in_vol x) (\<lambda>v. v\<lparr>v_used := v_used v + used\<rparr>) fs)\<lparr>free_frames := free_frames fs - used\<rparr>"
  have x: "inode_at fs i = x" by (simp add: inode_at_def i)
  have f: "file_ok x" using ok i by (auto simp: tmpfs_ok_def)
  note r = written_pages [OF f p start y_def refl]
  have u: "v_used ?v \<le> v_quota ?v" "0 \<le> free_frames fs" using ok by (auto simp: tmpfs_ok_def)
  have "fs' = fs \<and> e \<noteq> TNoSpace \<or> n1 = 0 \<and> bytes \<noteq> [] \<and> fs' = upd_inode i (\<lambda>_. y) fs1"
    using w p by (auto simp: tmp_write_def x write_start_def [symmetric] Let_def fs1_def y_def [symmetric] split: if_splits)
  then show ?thesis
  proof
    assume "n1 = 0 \<and> bytes \<noteq> [] \<and> fs' = upd_inode i (\<lambda>_. y) fs1"
    then have n: "n1 = 0" "n1 < int (length bytes)" and fs': "fs' = upd_inode i (\<lambda>_. y) fs1" by auto
    have used: "used = 0" "max 0 (min (v_quota ?v - v_used ?v) (free_frames fs)) = 0" using r(3-5) n by auto
    have fs1: "fs1 = fs" unfolding fs1_def used by (cases "in_vol x") (simp_all add: upd_vol_def)
    have s: "slot (inodes fs) i = Some (Some x)" using i by (simp add: deref_Some)
    have in': "inodes fs' = set_slot i (Some y) (inodes fs)" and vol: "vol_of w fs' = vol_of w fs" and free: "free_frames fs' = free_frames fs" for w
      by (simp_all add: fs' fs1 upd_inode_def i)
    have "tmpfs_ok c fs'"
      by (rule tmpfs_ok_change [OF ok i _ _ _ in', where d = 0])
        (use ensureCapacity_ok [OF f] u in \<open>auto simp: y_def ensureCapacity_simps vol free\<close>)
    moreover have "file_in y = file_in x" unfolding file_in_def y_def ensureCapacity_simps by (rule refl)
    then have "file_at fs' j = file_at fs j" for j
      by (cases "j = i") (simp_all add: file_at_def inode_at_def in' deref_set_slot s i)
    moreover have "volume_full fs' (in_vol x)" using used(2) u by (auto simp: volume_full_def vol free)
    ultimately show ?thesis by simp
  qed (use ok in auto)
qed

text \<open>Truncation, and the end of a file.\<close>

lemma truncated_inode:
  assumes "file_ok x" "0 \<le> n"
  shows "file_ok (x\<lparr>in_frames := (if n < in_size x then cut_frames n (in_frames x) else in_frames x), in_size := n\<rparr>)" (is "file_ok ?y")
    "file_in (x\<lparr>in_frames := (if n < in_size x then cut_frames n (in_frames x) else in_frames x), in_size := n\<rparr>) = file_resize n (file_in x)"
proof -
  show "file_ok ?y"
    using assms frame_of_cut [of n _ "in_frames x"] byte_of_cut [of n _ "in_frames x"]
    by (fastforce simp: file_ok_def split: if_splits)
  show "file_in ?y = file_resize n (file_in x)"
    using assms byte_of_cut [of n _ "in_frames x"] by (fastforce simp: file_in_def file_resize_def file_ok_def fun_eq_iff)
qed

lemma truncateLocked_eq:
  "truncateLocked i n fs =
    (let x = inode_at fs i; freed = freed_pages n (in_frames x)
     in if n < in_size x then
          upd_inode i (\<lambda>y. y\<lparr>in_frames := cut_frames n (in_frames x), in_size := n\<rparr>)
            ((upd_vol (in_vol x) (\<lambda>v. v\<lparr>v_used := v_used v - freed\<rparr>) fs)\<lparr>free_frames := free_frames fs + freed\<rparr>)
        else upd_inode i (\<lambda>x. x\<lparr>in_size := n\<rparr>) fs)"
  unfolding truncateLocked_def cut_frames_def freed_pages_def Let_def by (rule refl)

lemma truncateLocked_result:
  assumes ok: "tmpfs_ok c fs" and i: "deref (inodes fs) i = Some x" and n: "0 \<le> n"
  shows "tmpfs_ok c (truncateLocked i n fs) \<and> file_at (truncateLocked i n fs) i = file_resize n (file_in x) \<and>
    (\<forall>j. j \<noteq> i \<longrightarrow> inode_at (truncateLocked i n fs) j = inode_at fs j) \<and>
    deref (inodes (truncateLocked i n fs)) i =
      Some (x\<lparr>in_frames := (if n < in_size x then cut_frames n (in_frames x) else in_frames x), in_size := n\<rparr>)"
proof -
  define y where "y = x\<lparr>in_frames := (if n < in_size x then cut_frames n (in_frames x) else in_frames x), in_size := n\<rparr>"
  define d where "d = (if n < in_size x then - freed_pages n (in_frames x) else 0)"
  define fs' where "fs' = truncateLocked i n fs"
  have x: "inode_at fs i = x" by (simp add: inode_at_def i)
  have s: "slot (inodes fs) i = Some (Some x)" using i by (simp add: deref_Some)
  have f: "file_ok x" using ok i by (auto simp: tmpfs_ok_def)
  have in': "inodes fs' = set_slot i (Some y) (inodes fs)"
    and free: "free_frames fs' = free_frames fs - d"
    and vol: "vol_of w fs' = (if w = in_vol x then (vol_of w fs)\<lparr>v_used := v_used (vol_of w fs) + d\<rparr> else vol_of w fs)" for w
    by (simp_all add: fs'_def truncateLocked_eq Let_def x upd_inode_def i vol_of_upd_vol y_def d_def)
  have "d \<le> 0" by (simp add: d_def freed_pages_def)
  have "v_used (vol_of (in_vol x) fs) \<le> v_quota (vol_of (in_vol x) fs)" "0 \<le> free_frames fs" using ok by (auto simp: tmpfs_ok_def)
  with \<open>d \<le> 0\<close> have "tmpfs_ok c fs'"
    by (intro tmpfs_ok_change [OF ok i _ _ _ in' free])
      (use truncated_inode(1) [OF f n] in \<open>auto simp: y_def d_def vol free held_cut\<close>)
  moreover have "deref (inodes fs') i = Some y" "\<forall>j. j \<noteq> i \<longrightarrow> inode_at fs' j = inode_at fs j"
    by (simp_all add: in' deref_set_slot s inode_at_def)
  moreover have "file_at fs' i = file_resize n (file_in x)"
    using truncated_inode(2) [OF f n] calculation(2) by (simp add: file_at_def inode_at_def y_def)
  ultimately show ?thesis by (simp add: fs'_def y_def)
qed

lemma tmp_truncate_result:
  assumes "tmpfs_ok c fs" "deref (inodes fs) i = Some x" "0 \<le> n" "tmp_truncate i n fs = (r, fs')"
  shows "tmpfs_ok c fs' \<and> file_at fs' i = (case r of Inr _ \<Rightarrow> file_resize n (file_in x) | Inl _ \<Rightarrow> file_in x) \<and>
    (\<forall>j. j \<noteq> i \<longrightarrow> inode_at fs' j = inode_at fs j)"
  using assms truncateLocked_result [OF assms(1-3)]
  by (auto simp: tmp_truncate_def Let_def inode_at_def file_at_def changed_ok split: if_splits)

text \<open>An inode that nothing refers to gives its pages back.\<close>

lemma no_pages: "(\<And>q. 0 \<le> q \<Longrightarrow> frame_of frames q = None) \<Longrightarrow> held_pages frames = 0"
proof (induction frames)
  case (Cons f frames)
  have "f = None" using Cons.prems [of 0] by (simp add: frame_of_def)
  moreover have "frame_of frames q = None" if "0 \<le> q" for q using Cons.prems [of "q + 1"] that by (simp add: frame_of_def)
  ultimately show ?case using Cons.IH by (simp add: held_pages_def)
qed (simp add: held_pages_def)

lemma empty_file_pages: "file_ok x \<Longrightarrow> in_size x = 0 \<Longrightarrow> held_pages (in_frames x) = 0"
proof (rule no_pages)
  fix q :: int
  assume "file_ok x" "in_size x = 0" "0 \<le> q"
  moreover have "\<not> q * PAGE_SIZE < 0" using \<open>0 \<le> q\<close> by (simp add: PAGE_SIZE_def)
  ultimately show "frame_of (in_frames x) q = None" by (auto simp: file_ok_def)
qed

lemma inode_gone_ok:
  assumes ok: "tmpfs_ok c fs" and i: "deref (inodes fs) i = Some x" and h: "held_pages (in_frames x) = 0"
  shows "tmpfs_ok c (fs\<lparr>inodes := set_slot i None (inodes fs)\<rparr>)"
proof -
  have s: "slot (inodes fs) i = Some (Some x)" using i by (simp add: deref_Some)
  have "pages_of v (fs\<lparr>inodes := set_slot i None (inodes fs)\<rparr>) = pages_of v fs" for v
    using pages_set [OF s, of v None] h by (simp add: pages_of_def pages_in_def)
  then show ?thesis using ok by (auto simp: tmpfs_ok_def deref_set_slot split: if_splits)
qed

lemma set_slot_none: "slot xs i = None \<Longrightarrow> set_slot i y xs = xs"
  by (induction xs arbitrary: i) (auto split: if_splits)

lemma reap_ok:
  assumes ok: "tmpfs_ok c fs"
  shows "tmpfs_ok c (reapLocked i fs)"
proof (cases "deref (inodes fs) i")
  case None
  then have "truncateLocked i 0 fs = fs"
    by (simp add: truncateLocked_eq inode_at_def no_inode_def upd_inode_def)
  moreover have "set_slot i None (inodes fs) = inodes fs"
  proof (cases "slot (inodes fs) i")
    case (Some s)
    then show ?thesis using None by (cases s) (auto simp: deref_def)
  qed (rule set_slot_none)
  ultimately show ?thesis using ok by (simp add: reapLocked_def Let_def)
next
  case (Some x)
  note t = truncateLocked_result [OF ok Some, of 0]
  let ?y = "x\<lparr>in_frames := (if 0 < in_size x then cut_frames 0 (in_frames x) else in_frames x), in_size := 0\<rparr>"
  have "file_ok ?y" using t by (auto simp: tmpfs_ok_def)
  then have "held_pages (in_frames ?y) = 0" by (rule empty_file_pages) simp
  then have "tmpfs_ok c ((truncateLocked i 0 fs)\<lparr>inodes := set_slot i None (inodes (truncateLocked i 0 fs))\<rparr>)"
    using t by (intro inode_gone_ok [where x = ?y]) auto
  then show ?thesis using ok by (simp add: reapLocked_def Let_def)
qed

text \<open>The operations on the filesystem. Reading, and listing a directory, change nothing. Writing and
  truncating take an inode that exists, which a handle on it guarantees.\<close>

inductive tmp_step :: "tmpfs \<Rightarrow> tmpfs \<Rightarrow> bool" where
  lookup_step: "tmp_lookup v path fs = (r, fs') \<Longrightarrow> tmp_step fs fs'"
| open_step: "tmp_open v path create exclusive fs = (r, fs') \<Longrightarrow> tmp_step fs fs'"
| mkdir_step: "tmp_mkdir v path fs = (r, fs') \<Longrightarrow> tmp_step fs fs'"
| remove_step: "tmp_remove v path directory fs = (r, fs') \<Longrightarrow> tmp_step fs fs'"
| rename_step: "tmp_rename v source target fs = (r, fs') \<Longrightarrow> tmp_step fs fs'"
| write_step: "deref (inodes fs) i = Some x \<Longrightarrow> 0 \<le> write_start offset x \<Longrightarrow> tmp_write i offset bytes fs = (r, fs') \<Longrightarrow> tmp_step fs fs'"
| truncate_step: "deref (inodes fs) i = Some x \<Longrightarrow> 0 \<le> n \<Longrightarrow> tmp_truncate i n fs = (r, fs') \<Longrightarrow> tmp_step fs fs'"
| retain_step: "tmp_step fs (tmp_retain i fs)"
| release_step: "tmp_step fs (tmp_release i fs)"

lemmas keep_ok = retain_ok link_ok unlink_ok changed_ok reap_ok

lemma set_name_ok: "tmpfs_ok c fs \<Longrightarrow> tmpfs_ok c (upd_inode i (\<lambda>x. x\<lparr>in_name := name\<rparr>) fs)"
  by (rule upd_inode_ok) (simp_all add: keeps_data_def)

lemma set_refs_ok: "tmpfs_ok c fs \<Longrightarrow> tmpfs_ok c (upd_inode i (\<lambda>x. x\<lparr>in_refs := f x\<rparr>) fs)"
  by (rule upd_inode_ok) (simp_all add: keeps_data_def)

lemma new_inode_fails: "newInodeLocked v dir name fs = (Inl e, fs') \<Longrightarrow> fs' = fs"
  by (auto simp: newInodeLocked_def Let_def split: option.splits)

lemma open_ok: "tmpfs_ok c fs \<Longrightarrow> tmp_open v path create exclusive fs = (r, fs') \<Longrightarrow> tmpfs_ok c fs'"
  by (auto simp: tmp_open_def keep_ok set_refs_ok new_inode_ok dest: new_inode_fails split: sum.splits prod.splits if_splits)

lemma mkdir_ok: "tmpfs_ok c fs \<Longrightarrow> tmp_mkdir v path fs = (r, fs') \<Longrightarrow> tmpfs_ok c fs'"
  by (auto simp: tmp_mkdir_def keep_ok new_inode_ok dest: new_inode_fails split: sum.splits prod.splits if_splits)

lemma remove_ok: "tmpfs_ok c fs \<Longrightarrow> tmp_remove v path directory fs = (r, fs') \<Longrightarrow> tmpfs_ok c fs'"
  by (auto simp: tmp_remove_def Let_def keep_ok split: sum.splits prod.splits option.splits if_splits)

lemma rename_ok: "tmpfs_ok c fs \<Longrightarrow> tmp_rename v source target fs = (r, fs') \<Longrightarrow> tmpfs_ok c fs'"
  by (auto simp: tmp_rename_def Let_def keep_ok set_name_ok split: sum.splits prod.splits option.splits if_splits)

lemma step_ok: "tmp_step fs fs' \<Longrightarrow> tmpfs_ok c fs \<Longrightarrow> tmpfs_ok c fs'"
proof (induction rule: tmp_step.induct)
  case (write_step fs i x offset bytes r fs')
  then show ?case
    using tmp_write_result [of c fs i x offset bytes _ _ fs'] tmp_write_refused [of c fs i x offset bytes _ fs']
    by (cases r) auto
next
  case (truncate_step fs i x n r fs')
  then show ?case using tmp_truncate_result [of c fs i x n r fs'] by simp
qed (auto simp: tmp_lookup_def keep_ok tmp_release_def set_refs_ok split: sum.splits
      intro: open_ok mkdir_ok remove_ok rename_ok)

text \<open>A filesystem without data, as it is when it is mounted.\<close>

definition fresh_tmpfs :: "tmpfs \<Rightarrow> bool" where
  "fresh_tmpfs fs \<longleftrightarrow>
     (\<forall>s \<in> set (inodes fs). case s of None \<Rightarrow> True | Some x \<Rightarrow> in_size x = 0 \<and> in_frames x = []) \<and>
     v_used (tmp_vol fs) = 0 \<and> v_used (data_vol fs) = 0 \<and> 0 \<le> v_quota (tmp_vol fs) \<and> 0 \<le> v_quota (data_vol fs) \<and>
     0 \<le> free_frames fs"

lemma slot_set: "slot xs i = Some x \<Longrightarrow> x \<in> set xs"
  by (induction xs arbitrary: i) (auto split: if_splits)

lemma fresh_ok:
  assumes "fresh_tmpfs fs"
  shows "tmpfs_ok (free_frames fs) fs"
proof -
  have "file_ok x" if "deref (inodes fs) i = Some x" for i x
    using assms that slot_set [of "inodes fs" i "Some x"]
    by (auto simp: fresh_tmpfs_def deref_Some file_ok_def frame_of_def byte_of_def page_byte_def)
  moreover have "pages_of v fs = 0" for v
  proof -
    have "map (pages_in v) (inodes fs) = map (\<lambda>_. 0) (inodes fs)"
      using assms by (intro map_cong) (auto simp: fresh_tmpfs_def pages_in_def held_pages_def split: option.splits)
    then show ?thesis by (simp add: pages_of_def map_replicate_const sum_list_replicate)
  qed
  moreover have "v_used (vol_of v fs) = 0" "0 \<le> v_quota (vol_of v fs)" for v
    using assms by (cases v; simp add: vol_of_def fresh_tmpfs_def)+
  ultimately show ?thesis using assms by (simp add: tmpfs_ok_def fresh_tmpfs_def)
qed

lemma steps_ok: "tmp_step\<^sup>*\<^sup>* fs fs' \<Longrightarrow> tmpfs_ok c fs \<Longrightarrow> tmpfs_ok c fs'"
  by (induction rule: rtranclp_induct) (auto intro: step_ok)

section \<open>The promises\<close>


text \<open>Two volumes; a file is created, written past a hole, and cut within its last page.\<close>

definition sample_volume :: "ptr \<Rightarrow> volume" where
  "sample_volume root' = \<lparr>v_root = root', v_used = 0, v_quota = 64, v_persistent = False, v_dirty = False\<rparr>"

definition sample_tmpfs :: tmpfs where
  "sample_tmpfs = \<lparr>inodes = [Some (no_inode\<lparr>in_dir := True, in_linked := True\<rparr>),
      Some (no_inode\<lparr>in_dir := True, in_linked := True, in_vol := DataVol\<rparr>), None],
     tmp_vol = sample_volume 0, data_vol = sample_volume 1, next_id = 2, free_frames = 100\<rparr>"

definition sample_written :: tmpfs where
  "sample_written = snd (tmp_truncate 2 4097 (snd (tmp_write 2 (Some 4096) [1, 2, 3]
     (snd (tmp_open TmpVol ''file'' True False sample_tmpfs)))))"

lemma sample_fresh: "fresh_tmpfs sample_tmpfs" by code_simp

lemma sample_inodes:
  "deref (inodes (snd (tmp_open TmpVol ''file'' True False sample_tmpfs))) 2 \<noteq> None"
  "deref (inodes (snd (tmp_write 2 (Some 4096) [1, 2, 3] (snd (tmp_open TmpVol ''file'' True False sample_tmpfs))))) 2 \<noteq> None"
  "deref (inodes sample_written) 2 = Some (no_inode\<lparr>in_id := 2, in_refs := 1, in_linked := True, in_parent := Some 0,
     in_name := ''file'', in_size := 4097, in_frames := None # Some [1] # replicate 14 None\<rparr>)"
  by code_simp+

lemma sample_steps: "tmp_step\<^sup>*\<^sup>* sample_tmpfs sample_written"
proof -
  let ?a = "snd (tmp_open TmpVol ''file'' True False sample_tmpfs)"
  let ?b = "snd (tmp_write 2 (Some 4096) [1, 2, 3] ?a)"
  have 1: "tmp_step sample_tmpfs ?a" by (rule open_step [OF surjective_pairing])
  have 2: "tmp_step ?a ?b"
    using sample_inodes(1) by (auto intro!: write_step [OF _ _ surjective_pairing] simp: write_start_def)
  have 3: "tmp_step ?b sample_written"
    using sample_inodes(2) unfolding sample_written_def by (auto intro!: truncate_step [OF _ _ surjective_pairing])
  from 1 2 3 show ?thesis by (meson converse_rtranclp_into_rtranclp rtranclp.rtrancl_refl)
qed




end
