(* ===== verification/UnixProbe.thy ===== *)
theory UnixProbe
  imports SpawnProbe
begin

text \<open>
  \<open>userland/bin/unix-probe/probe.c\<close>: local sockets and the descriptors that travel through them. The
  sections are programs over the kernel's calls; the exchange with another thread is in \<open>UnixThreads\<close>.
  A buffer that is sent without having been written first is \<open>junk\<close>, any bytes.
\<close>

section \<open>Helpers\<close>

definition send_fds :: "int \<Rightarrow> u8 list \<Rightarrow> int list \<Rightarrow> kernel \<Rightarrow> send_call \<times> kernel" where
  "send_fds socket bytes fds k =
     (let size' = 4 * int (length fds)
      in if fds = [] then sendmsg socket [bytes] 0 [] NO_FLAGS k
         else sendmsg socket [bytes] (CMSG_SPACE size') [\<lparr>cm_len = CMSG_LEN size', cm_rights = True, cm_fds = fds\<rparr>] NO_FLAGS k)"

text \<open>The data, the descriptors, and whether some did not fit.\<close>

definition received_fds :: "delivery \<Rightarrow> u8 list \<times> int list \<times> bool" where
  "received_fds m =
     (concat (dl_iov m),
      (case dl_control m of
         Some h \<Rightarrow> if cm_rights h then take (nat ((cm_len h - CMSG_LEN 0) div 4)) (cm_fds h) else []
       | None \<Rightarrow> []),
      dl_ctrunc m)"

definition receive_fds :: "int \<Rightarrow> int \<Rightarrow> int \<Rightarrow> msg_flags \<Rightarrow> kernel \<Rightarrow> (u8 list \<times> int list \<times> bool) call \<times> kernel" where
  "receive_fds socket size' room options k =
     map_call received_fds (recvmsg socket [size'] True (if room > 0 then CMSG_SPACE (4 * room) else 0) options k)"

text \<open>\<open>CHECK\<close>s of a send's result, of the bytes or the number of bytes read, and of what came with them.\<close>

definition SENDS :: "send_call \<times> kernel \<Rightarrow> int \<Rightarrow> string \<Rightarrow> (kernel \<Rightarrow> run) \<Rightarrow> run" where
  "SENDS rk n what rest = (case rk of (SendWaits _ _ _, _) \<Rightarrow> Hang | (SendDone r, k) \<Rightarrow> CHECK (r = Inr n) what (rest k))"

definition WRITES :: "int call \<times> kernel \<Rightarrow> int \<Rightarrow> string \<Rightarrow> (kernel \<Rightarrow> run) \<Rightarrow> run" where
  "WRITES rk n what rest = call rk (\<lambda>r k. CHECK (r = Inr n) what (rest k))"

definition READS :: "u8 list call \<times> kernel \<Rightarrow> (u8 list \<Rightarrow> bool) \<Rightarrow> string \<Rightarrow> (kernel \<Rightarrow> run) \<Rightarrow> run" where
  "READS rk good what rest = call rk (\<lambda>r k. CHECK (case r of Inr bytes \<Rightarrow> good bytes | Inl _ \<Rightarrow> False) what (rest k))"

definition RECEIVES ::
  "(u8 list \<times> int list \<times> bool) call \<times> kernel \<Rightarrow> (u8 list \<times> int list \<times> bool \<Rightarrow> bool) \<Rightarrow> string \<Rightarrow> (int list \<Rightarrow> kernel \<Rightarrow> run) \<Rightarrow> run" where
  "RECEIVES rk good what rest =
     call rk (\<lambda>r k. case r of Inl _ \<Rightarrow> Fail what | Inr m \<Rightarrow> CHECK (good m) what (rest (fst (snd m)) k))"

definition closing_fd :: "int \<Rightarrow> kernel \<Rightarrow> (kernel \<Rightarrow> run) \<Rightarrow> run" where
  "closing_fd fd k rest = sysc (sys_close fd k) (\<lambda>_ k. rest k)"

definition is_text :: "string \<Rightarrow> u8 list \<Rightarrow> bool" where "is_text s bytes \<longleftrightarrow> bytes = ascii s"
definition is_size :: "nat \<Rightarrow> u8 list \<Rightarrow> bool" where "is_size n bytes \<longleftrightarrow> length bytes = n"

section \<open>The sections\<close>

text \<open>A stream pair: both directions, joined sends, partial reads. Lines 93 to 99.\<close>

definition unix_stream :: "(int \<Rightarrow> int \<Rightarrow> kernel \<Rightarrow> run) \<Rightarrow> kernel \<Rightarrow> run" where
  "unix_stream rest k =
     CHECKED (socketpair AF_UNIX 1 False True 0 k) ''socketpair'' (\<lambda>(sv0, sv1) k.
     CHECKED (sys_fstat sv0 k) ''a socket, close-on-exec'' (\<lambda>st k. CHECK (snd st = KSocketKind) ''a socket, close-on-exec'' (
     sysc (fcntl_getfd sv0 k) (\<lambda>r k. CHECK (flag_set r id) ''a socket, close-on-exec'' (
     WRITES (sys_write sv0 (ascii ''abc'') k) 3 ''two sends'' (\<lambda>k.
     SENDS (send sv0 (ascii ''def'') NO_FLAGS k) 3 ''two sends'' (\<lambda>k.
     READS (recv sv1 2 NO_FLAGS k) (is_text ''ab'') ''partial read'' (\<lambda>k.
     READS (sys_read sv1 512 k) (is_text ''cdef'') ''joined remainder'' (\<lambda>k.
     WRITES (sys_write sv1 (ascii ''back'') k) 4 ''other direction'' (\<lambda>k.
     READS (sys_read sv0 512 k) (is_size 4) ''other direction'' (\<lambda>k. rest sv0 sv1 k)))))))))))"

text \<open>A pipe's write end moves through the socket; the sender's copy closes. Lines 102 to 106.\<close>

definition unix_pipe_end :: "int \<Rightarrow> int \<Rightarrow> (kernel \<Rightarrow> run) \<Rightarrow> kernel \<Rightarrow> run" where
  "unix_pipe_end sv0 sv1 rest k =
     CHECKED (sys_pipe2 False False k) ''send a pipe end'' (\<lambda>(p0, p1) k.
     SENDS (send_fds sv0 (ascii ''w'') [p1] k) 1 ''send a pipe end'' (\<lambda>k.
     CHECKED (sys_close p1 k) ''send a pipe end'' (\<lambda>_ k.
     RECEIVES (receive_fds sv1 512 1 NO_FLAGS k) (\<lambda>(bytes, fds, _). is_text ''w'' bytes \<and> length fds = 1) ''receive it'' (\<lambda>fds k.
     WRITES (sys_write (hd fds) (ascii ''hi'') k) 2 ''write through the received end'' (\<lambda>k.
     READS (sys_read p0 512 k) (is_text ''hi'') ''write through the received end'' (\<lambda>k.
     CHECKED (sys_close (hd fds) k) ''closing the only copy gives EOF'' (\<lambda>_ k.
     READS (sys_read p0 512 k) (is_size 0) ''closing the only copy gives EOF'' (\<lambda>k.
     closing_fd p0 k rest))))))))"

text \<open>A passed file shares its offset. Lines 109 to 114.\<close>

definition unix_file :: "int \<Rightarrow> int \<Rightarrow> (kernel \<Rightarrow> run) \<Rightarrow> kernel \<Rightarrow> run" where
  "unix_file sv0 sv1 rest k =
     sysc (sys_open ''/etc/motd'' O_RDONLY k) (\<lambda>r k. let file' = number r in
     READS (sys_read file' 3 k) (is_size 3) ''send a file'' (\<lambda>k.
     SENDS (send_fds sv0 (ascii ''f'') [file'] k) 1 ''send a file'' (\<lambda>k.
     RECEIVES (receive_fds sv1 512 1 NO_FLAGS k) (\<lambda>(bytes, fds, _). is_size 1 bytes \<and> length fds = 1) ''receive the file'' (\<lambda>fds k.
     READS (sys_read (hd fds) 4 k) (is_text ''come'') ''shared offset'' (\<lambda>k.
     CHECKED (sys_lseek file' 0 SEEK_CUR k) ''shared offset'' (\<lambda>n k. CHECK (n = 7) ''shared offset'' (
     closing_fd (hd fds) k (\<lambda>k. closing_fd file' k rest))))))))"

text \<open>Rights never merge into earlier plain data. Lines 117 to 124.\<close>

definition unix_rights :: "int \<Rightarrow> int \<Rightarrow> (kernel \<Rightarrow> run) \<Rightarrow> kernel \<Rightarrow> run" where
  "unix_rights sv0 sv1 rest k =
     CHECKED (sys_pipe2 False False k) ''rights pipe'' (\<lambda>(p0, p1) k.
     WRITES (sys_write sv0 (ascii ''x'') k) 1 ''plain then rights'' (\<lambda>k.
     SENDS (send_fds sv0 (ascii ''y'') [p1] k) 1 ''plain then rights'' (\<lambda>k.
     CHECKED (sys_close p1 k) ''plain then rights'' (\<lambda>_ k.
     RECEIVES (receive_fds sv1 512 1 NO_FLAGS k) (\<lambda>(bytes, fds, _). is_text ''x'' bytes \<and> fds = []) ''plain data alone'' (\<lambda>_ k.
     RECEIVES (receive_fds sv1 512 1 MSG_CMSG_CLOEXEC k) (\<lambda>(bytes, fds, _). is_text ''y'' bytes \<and> length fds = 1)
       ''rights with their byte'' (\<lambda>fds k.
     sysc (fcntl_getfd (hd fds) k) (\<lambda>r k. CHECK (flag_set r id) ''MSG_CMSG_CLOEXEC'' (
     closing_fd (hd fds) k (\<lambda>k.
     READS (sys_read p0 1 k) (is_size 0) ''moved end closed'' (\<lambda>k.
     closing_fd p0 k rest))))))))))"

text \<open>More rights than room: the rest are closed. Lines 127 to 145.\<close>

definition unix_ctrunc :: "int \<Rightarrow> int \<Rightarrow> (kernel \<Rightarrow> run) \<Rightarrow> kernel \<Rightarrow> run" where
  "unix_ctrunc sv0 sv1 rest k =
     CHECKED (sys_pipe2 False False k) ''ctrunc pipes'' (\<lambda>(r0, w0) k.
     CHECKED (sys_pipe2 False False k) ''ctrunc pipes'' (\<lambda>(r1, w1) k.
     CHECKED (sys_pipe2 False False k) ''ctrunc pipes'' (\<lambda>(r2, w2) k.
     SENDS (send_fds sv0 (ascii ''3'') [w0, w1, w2] k) 1 ''send three'' (\<lambda>k.
     closing_fd w0 k (\<lambda>k. closing_fd w1 k (\<lambda>k. closing_fd w2 k (\<lambda>k.
     RECEIVES (receive_fds sv1 512 2 NO_FLAGS k) (\<lambda>(bytes, fds, cut). is_size 1 bytes \<and> length fds = 2 \<and> cut) ''MSG_CTRUNC'' (\<lambda>fds k.
     READS (sys_read r2 1 k) (is_size 0) ''the dropped right is closed'' (\<lambda>k.
     WRITES (sys_write (fds ! 0) (ascii ''k'') k) 1 ''the first kept one works'' (\<lambda>k.
     READS (sys_read r0 1 k) (is_size 1) ''the first kept one works'' (\<lambda>k.
     WRITES (sys_write (fds ! 1) (ascii ''k'') k) 1 ''the second kept one works'' (\<lambda>k.
     READS (sys_read r1 1 k) (is_size 1) ''the second kept one works'' (\<lambda>k.
     closing_fd (fds ! 0) k (\<lambda>k. closing_fd (fds ! 1) k (\<lambda>k.
     closing_fd r0 k (\<lambda>k. closing_fd r1 k (\<lambda>k. closing_fd r2 k rest)))))))))))))))))"

text \<open>Nonblocking: nothing when empty, and a queue of 256 KiB. Lines 148 to 160. The loops may run for ever
  if the calls keep succeeding.\<close>

partial_function (option) fill_socket :: "int \<Rightarrow> u8 list \<Rightarrow> int \<Rightarrow> kernel \<Rightarrow> (int \<times> (errno + int) \<times> kernel) option" where
  "fill_socket fd block queued k =
     (case sys_write fd block k of
        (Waiting _, _) \<Rightarrow> None
      | (Done r, k1) \<Rightarrow>
          (case r of
             Inl _ \<Rightarrow> Some (queued, r, k1)
           | Inr w \<Rightarrow> if w > 0 then fill_socket fd block (queued + w) k1 else Some (queued, r, k1)))"

text \<open>\<open>Inl\<close> when a read finds nothing before all that was queued has come.\<close>

function drain_socket :: "int \<Rightarrow> int \<Rightarrow> kernel \<Rightarrow> (kernel + kernel) option" where
  "drain_socket fd remaining k =
     (if remaining \<le> 0 then Some (Inr k)
      else case sys_read fd 512 k of
        (Waiting _, _) \<Rightarrow> None
      | (Done (Inl _), k1) \<Rightarrow> Some (Inl k1)
      | (Done (Inr bytes), k1) \<Rightarrow>
          if bytes = [] then Some (Inl k1) else drain_socket fd (remaining - int (length bytes)) k1)"
  by pat_completeness auto
termination by (relation "measure (\<lambda>(_, remaining, _). nat remaining)") auto

declare drain_socket.simps [simp del]

definition unix_capacity :: "u8 list \<Rightarrow> int \<Rightarrow> int \<Rightarrow> (kernel \<Rightarrow> run) \<Rightarrow> kernel \<Rightarrow> run" where
  "unix_capacity junk sv0 sv1 rest k =
     call (recv sv1 1 MSG_DONTWAIT k) (\<lambda>r k. CHECK (r = Inl EAGAIN) ''MSG_DONTWAIT'' (
     CHECKED (fcntl_setfl sv0 False True k) ''nonblocking sender'' (\<lambda>_ k.
     case fill_socket sv0 junk 0 k of
       None \<Rightarrow> Hang
     | Some (queued, r, k) \<Rightarrow>
         CHECK (r = Inl EAGAIN \<and> queued = 256 * 1024) ''256 KiB queued, then EAGAIN'' (
         case drain_socket sv1 queued k of
           None \<Rightarrow> Hang
         | Some (Inl _) \<Rightarrow> Fail ''drain''
         | Some (Inr k) \<Rightarrow> CHECKED (fcntl_setfl sv0 False False k) ''blocking again'' (\<lambda>_ k. rest k)))))"

text \<open>epoll sees data, then the peer's shutdown. Lines 163 to 173.\<close>

definition events_are :: "errno + (u32 \<times> int) list \<Rightarrow> (u32 \<Rightarrow> bool) \<Rightarrow> bool" where
  "events_are r good = (case r of Inr [(ev, _)] \<Rightarrow> good ev | _ \<Rightarrow> False)"

definition unix_epoll :: "int \<Rightarrow> int \<Rightarrow> (kernel \<Rightarrow> run) \<Rightarrow> kernel \<Rightarrow> run" where
  "unix_epoll sv0 sv1 rest k =
     sysc (sys_epoll_create1 False k) (\<lambda>r k. let ep = number r in
     CHECKED (sys_epoll_ctl ep EPOLL_CTL_ADD sv1 (EPOLLIN OR EPOLLRDHUP) sv1 k) ''idle socket'' (\<lambda>_ k.
     call (sys_epoll_wait ep 1 0 k) (\<lambda>r k. CHECK (r = Inr []) ''idle socket'' (
     WRITES (sys_write sv0 (ascii ''e'') k) 1 ''EPOLLIN'' (\<lambda>k.
     call (sys_epoll_wait ep 1 0 k) (\<lambda>r k. CHECK (events_are r (\<lambda>ev. ev = EPOLLIN)) ''EPOLLIN'' (
     READS (sys_read sv1 1 k) (is_size 1) ''shutdown for writing'' (\<lambda>k.
     CHECKED (sys_shutdown sv0 1 k) ''shutdown for writing'' (\<lambda>_ k.
     call (sys_epoll_wait ep 1 0 k) (\<lambda>r k. CHECK (events_are r (\<lambda>ev. ev AND EPOLLRDHUP \<noteq> 0)) ''EOF after shutdown'' (
     READS (sys_read sv1 1 k) (is_size 0) ''EOF after shutdown'' (\<lambda>k.
     closing_fd ep k (\<lambda>k.
     CHECKED (sys_close sv1 k) ''close one end'' (\<lambda>_ k.
     call (sys_write sv0 (ascii ''z'') k) (\<lambda>r k. CHECK (r = Inl EPIPE) ''EPIPE after the peer closes'' (
     closing_fd sv0 k rest))))))))))))))))"

text \<open>Messages keep their boundaries and are cut. Lines 176 to 190.\<close>

definition unix_messages :: "(kernel \<Rightarrow> run) \<Rightarrow> kernel \<Rightarrow> run" where
  "unix_messages rest k =
     CHECKED (socketpair AF_UNIX 5 False False 0 k) ''seqpacket pair'' (\<lambda>(sv0, sv1) k.
     SENDS (send sv0 (ascii ''0123456789'') NO_FLAGS k) 10 ''two messages'' (\<lambda>k.
     SENDS (send sv0 (ascii ''twenty bytes message'') NO_FLAGS k) 20 ''two messages'' (\<lambda>k.
     READS (recv sv1 512 NO_FLAGS k) (is_size 10) ''boundaries kept'' (\<lambda>k.
     READS (recv sv1 512 NO_FLAGS k) (is_size 20) ''boundaries kept'' (\<lambda>k.
     SENDS (send sv0 (ascii ''a fifty byte message, longer than the reader wants'') NO_FLAGS k) 50 ''long then short'' (\<lambda>k.
     WRITES (sys_write sv0 (ascii ''next'') k) 4 ''long then short'' (\<lambda>k.
     call (recvmsg sv1 [10] False 0 NO_FLAGS k) (\<lambda>r k.
       CHECK (case r of Inr m \<Rightarrow> dl_count m = 10 \<and> dl_trunc m | Inl _ \<Rightarrow> False) ''MSG_TRUNC'' (
     READS (recv sv1 512 NO_FLAGS k) (is_text ''next'') ''rest discarded'' (\<lambda>k.
     closing_fd sv0 k (\<lambda>k. closing_fd sv1 k (\<lambda>k.
     CHECKED (socketpair AF_UNIX 2 False False 0 k) ''datagram'' (\<lambda>(dg0, dg1) k.
     SENDS (send dg1 (ascii ''dg'') NO_FLAGS k) 2 ''datagram'' (\<lambda>k.
     READS (recv dg0 1 NO_FLAGS k) (is_size 1) ''datagram'' (\<lambda>k.
     closing_fd dg0 k (\<lambda>k. closing_fd dg1 k (\<lambda>k.
     sysc (socketpair AF_INET 1 False False 0 k) (\<lambda>r k. CHECK (r = Inl EAFNOSUPPORT) ''only AF_UNIX pairs'' (
     rest k)))))))))))))))))))"

text \<open>Descriptors still in flight close with the pair; none is left open. Lines 206 to 211.\<close>

definition unix_in_flight :: "int \<Rightarrow> int \<Rightarrow> kernel \<Rightarrow> run" where
  "unix_in_flight ex0 ex1 k =
     CHECKED (sys_pipe2 False False k) ''leave one in flight'' (\<lambda>(p0, p1) k.
     SENDS (send_fds ex0 (ascii ''!'') [p1] k) 1 ''leave one in flight'' (\<lambda>k.
     CHECKED (sys_close p1 k) ''leave one in flight'' (\<lambda>_ k.
     CHECKED (sys_close ex0 k) ''in-flight descriptor released'' (\<lambda>_ k.
     CHECKED (sys_close ex1 k) ''in-flight descriptor released'' (\<lambda>_ k.
     READS (sys_read p0 1 k) (is_size 0) ''in-flight descriptor released'' (\<lambda>k.
     closing_fd p0 k (\<lambda>k.
     sysc (sys_open ''/etc/motd'' O_RDONLY k) (\<lambda>r k. CHECK (r = Inr 3) ''no descriptor leaked'' (
     closing_fd 3 k Pass)))))))))"

section \<open>They pass\<close>

text \<open>The kernel with a stream pair at 3 and 4, empty, close-on-exec or not.\<close>

definition sock_desc :: "bool \<Rightarrow> bool \<Rightarrow> description" where
  "sock_desc e nonblock = \<lparr>refs = 1, dstatus = plain_status True True nonblock, dobject = SocketObj 0 e\<rparr>"

definition unix_state :: "bool \<Rightarrow> bool \<Rightarrow> socket_pair \<Rightarrow> kernel" where
  "unix_state cloexec nonblock x =
     spawn_kernel\<lparr>
       descriptions := replicate 3 (Some console_description) @
         [Some (sock_desc False nonblock), Some (sock_desc True False)] @ replicate 7 None,
       table := map (\<lambda>d. \<lparr>e_desc = Some d, e_cloexec = False\<rparr>) [0, 1, 2] @
         map (\<lambda>d. \<lparr>e_desc = Some d, e_cloexec = cloexec\<rparr>) [3, 4] @ replicate 251 \<lparr>e_desc = None, e_cloexec = False\<rparr>,
       sockets := [Some x, None, None]\<rparr>"

definition unix_idle :: kernel where "unix_idle = unix_state True False (pair_create Stream)"

lemma unix_stream_passes: "unix_stream rest spawn_kernel = rest 3 4 unix_idle"
  by (rule same_run) code_simp

lemma unix_pipe_end_passes: "unix_pipe_end 3 4 rest unix_idle = rest unix_idle"
  by (rule same_run) code_simp

lemma unix_file_passes: "unix_file 3 4 rest unix_idle = rest unix_idle"
  by (rule same_run) code_simp

lemma unix_rights_passes: "unix_rights 3 4 rest unix_idle = rest unix_idle"
  by (rule same_run) code_simp

lemma unix_ctrunc_passes: "unix_ctrunc 3 4 rest unix_idle = rest unix_idle"
  by (rule same_run) code_simp

lemma unix_epoll_passes: "unix_epoll 3 4 rest unix_idle = rest spawn_kernel"
  by (rule same_run) code_simp

lemma unix_messages_passes: "unix_messages rest spawn_kernel = rest spawn_kernel"
  by (rule same_run) code_simp

lemma unix_in_flight_passes: "unix_in_flight 3 4 (unix_state False False (pair_create Stream)) = Pass spawn_kernel"
  by (rule same_run) code_simp

section \<open>A full queue\<close>

text \<open>Descriptor \<open>fd\<close> is end \<open>e\<close> of socket pair \<open>p\<close>, whose state is \<open>x\<close>, with all watchers told already.\<close>

definition socket_end :: "bool \<Rightarrow> bool \<Rightarrow> int \<Rightarrow> ptr \<Rightarrow> socket_pair \<Rightarrow> kernel \<Rightarrow> bool" where
  "socket_end e nonblock fd p x k \<longleftrightarrow> \<not> bad_index fd \<and> deref (sockets k) p = Some x \<and>
     told (SocketSource p False) k \<and> told (SocketSource p True) k \<and>
     (\<exists>d y. e_desc (entry_of k fd) = Some d \<and> deref (descriptions k) d = Some y \<and> 1 \<le> refs y \<and>
       dobject y = SocketObj p e \<and> dstatus y = plain_status True True nonblock)"

lemma retain_sockets: "set_socket p x (retain d k) = retain d (set_socket p x k)"
  by (simp add: set_socket_def retain_def upd_desc_def split: option.split)

lemma socket_end_set: "socket_end e nonblock fd p x k \<Longrightarrow> socket_end e nonblock fd p y (set_socket p (Some y) k)"
  by (auto simp: socket_end_def set_socket_def deref_set_slot deref_Some entry_of_def told_def)

lemma socket_changed_told:
  "told (SocketSource p False) k \<Longrightarrow> told (SocketSource p True) k \<Longrightarrow>
    socket_changed p (set_socket p x (retain d k)) = set_socket p x (retain d k)"
proof -
  assume "told (SocketSource p False) k" "told (SocketSource p True) k"
  moreover have "told s (set_socket p x (retain d k)) = told s k" for s
    by (simp add: told_def set_socket_def retain_def upd_desc_def split: option.split)
  ultimately show ?thesis by (simp add: socket_changed_def notify_told)
qed

lemma sys_write_socket:
  assumes e: "socket_end e nonblock fd p x k" and b: "bytes \<noteq> []" "length bytes \<le> 4096"
  shows "sock_send bytes [] nonblock False e x = (SReturns n, x') \<Longrightarrow>
      sys_write fd bytes k = (Done (Inr n), set_socket p (Some x') k)"
    and "sock_send bytes [] nonblock False e x = (SFails err, x') \<Longrightarrow>
      sys_write fd bytes k = (Done (Inl (vfsErrno (socketError err))), k)"
proof -
  obtain d y where d: "\<not> bad_index fd" "deref (sockets k) p = Some x" "e_desc (entry_of k fd) = Some d"
    "deref (descriptions k) d = Some y" "1 \<le> refs y" "dobject y = SocketObj p e" "dstatus y = plain_status True True nonblock"
    and t: "told (SocketSource p False) k" "told (SocketSource p True) k"
    using e by (auto simp: socket_end_def)
  have r: "deref (descriptions (retain d k)) d = Some (y\<lparr>refs := refs y + 1\<rparr>)" "sockets (retain d k) = sockets k"
    using d by (auto simp: retain_eq deref_set_slot deref_Some)
  show "sys_write fd bytes k = (Done (Inl (vfsErrno (socketError err))), k)"
    if "sock_send bytes [] nonblock False e x = (SFails err, x')"
    using that d b r release_retain [OF d(4,5)]
    by (simp add: sys_write_def lookup_def write_turn_def end_turn_def desc_write_def socket_send_def plain_status_def)
  assume w: "sock_send bytes [] nonblock False e x = (SReturns n, x')"
  have "release d (set_socket p (Some x') (retain d k)) = set_socket p (Some x') k"
    unfolding retain_sockets using release_retain [of "set_socket p (Some x') k" d y] d by (simp add: set_socket_def)
  then show "sys_write fd bytes k = (Done (Inr n), set_socket p (Some x') k)"
    using w d b r socket_changed_told [OF t]
    by (simp add: sys_write_def lookup_def write_turn_def end_turn_def desc_write_def socket_send_def plain_status_def)
qed

lemma sys_read_socket:
  assumes e: "socket_end e nonblock fd p x k" and c: "0 < count" "count \<le> 4096"
    and g: "sock_receive count nonblock False e x = (SReturns r, x')" "rc_rights r = []"
      "q_segments (se_queue (sk_end e x)) \<noteq> []" "\<not> se_read_shut (sk_end e x)"
  shows "sys_read fd count k = (Done (Inr (rc_bytes r)), set_socket p (Some x') k)"
proof -
  obtain d y where d: "\<not> bad_index fd" "deref (sockets k) p = Some x" "e_desc (entry_of k fd) = Some d"
    "deref (descriptions k) d = Some y" "1 \<le> refs y" "dobject y = SocketObj p e" "dstatus y = plain_status True True nonblock"
    and t: "told (SocketSource p False) k" "told (SocketSource p True) k"
    using e by (auto simp: socket_end_def)
  have m: "min count 4096 = count" using c by simp
  have r: "deref (descriptions (retain d k)) d = Some (y\<lparr>refs := refs y + 1\<rparr>)" "sockets (retain d k) = sockets k"
    using d by (auto simp: retain_eq deref_set_slot deref_Some)
  have "release d (set_socket p (Some x') (retain d k)) = set_socket p (Some x') k"
    unfolding retain_sockets using release_retain [of "set_socket p (Some x') k" d y] d by (simp add: set_socket_def)
  then show ?thesis
    using d c g m r socket_changed_told [OF t]
    by (simp add: sys_read_def lookup_def read_turn_def end_turn_def desc_read_def socket_receive_def plain_status_def)
qed

text \<open>A stream pair with a number of whole blocks sent by the first end.\<close>

definition blocks :: "u8 list \<Rightarrow> nat \<Rightarrow> socket_pair" where
  "blocks block n = upd_end True (\<lambda>e. e\<lparr>se_queue :=
     \<lparr>q_segments = replicate n \<lparr>sg_data = block, sg_consumed = 0, sg_rights = []\<rparr>, q_bytes = 512 * int n\<rparr>\<rparr>) (pair_create Stream)"

lemma blocks_0: "blocks block 0 = pair_create Stream"
  by (simp add: blocks_def upd_end_def pair_create_def fresh_end_def no_segments_def)

lemma blocks_ends: "sk_kind (blocks block n) = Stream" "can_send False (blocks block n)"
  "send_space False (blocks block n) = SOCKET_CAPACITY - 512 * int n"
  "q_segments (se_queue (sk_end True (blocks block n))) = replicate n \<lparr>sg_data = block, sg_consumed = 0, sg_rights = []\<rparr>"
  "\<not> se_read_shut (sk_end True (blocks block n))"
  by (simp_all add: blocks_def can_send_def send_space_def pair_create_def fresh_end_def sk_end_def upd_end_def)

lemma send_block:
  assumes "length block = 512"
  shows "n < 512 \<Longrightarrow> sock_send block [] True False False (blocks block n) = (SReturns 512, blocks block (Suc n))"
    and "n = 512 \<Longrightarrow> sock_send block [] True False False (blocks block n) = (SFails SWouldBlock, blocks block n)"
proof -
  have b: "block \<noteq> []" using assms by auto
  show "sock_send block [] True False False (blocks block n) = (SReturns 512, blocks block (Suc n))" if "n < 512"
  proof -
    have "512 \<le> SOCKET_CAPACITY - 512 * int n" "0 < SOCKET_CAPACITY - 512 * int n" using that by (simp_all add: SOCKET_CAPACITY_def)
    then show ?thesis
      using assms b blocks_ends [of block n]
      by (simp add: sock_send_def Let_def send_commit_def MAX_RIGHTS_def)
        (simp add: blocks_def upd_end_def push_segment_def replicate_append_same)
  qed
  show "sock_send block [] True False False (blocks block n) = (SFails SWouldBlock, blocks block n)" if "n = 512"
    using assms b blocks_ends [of block n] that by (simp add: sock_send_def Let_def MAX_RIGHTS_def SOCKET_CAPACITY_def)
qed

lemma receive_block:
  assumes "length block = 512"
  shows "sock_receive 512 False False True (blocks block (Suc n)) =
    (SReturns \<lparr>rc_bytes = block, rc_rights = [], rc_truncated = False\<rparr>, blocks block n)"
proof -
  let ?s = "\<lparr>sg_data = block, sg_consumed = 0, sg_rights = []\<rparr> :: segment"
  have "take_stream 512 [] [] (?s # replicate n ?s) = (block, [], replicate n ?s)"
    using assms by (simp add: take_stream.simps Let_def sg_remaining_def)
  then show ?thesis
    using blocks_ends [of block "Suc n"] assms
    by (simp add: sock_receive_def Let_def) (simp add: blocks_def sk_end_def upd_end_def pair_create_def)
qed

lemma fill_socket_result:
  assumes "socket_end False True fd p (blocks block n) k" "length block = 512" "n \<le> 512"
  shows "fill_socket fd block c k = Some (c + (512 - int n) * 512, Inl EAGAIN, set_socket p (Some (blocks block 512)) k)"
  using assms
proof (induction "512 - n" arbitrary: n c k)
  case 0
  have b: "block \<noteq> []" "length block \<le> 4096" using 0(3) by auto
  have n: "n = 512" using 0 by simp
  have "sys_write fd block k = (Done (Inl EAGAIN), k)"
    using sys_write_socket(2) [OF 0(2) b send_block(2) [OF 0(3) n]] by simp
  moreover have "set_socket p (Some (blocks block 512)) k = k"
    using 0(2) n by (simp add: set_socket_def socket_end_def deref_Some)
  ultimately show ?case using n by (subst fill_socket.simps) simp
next
  case (Suc m)
  have b: "block \<noteq> []" "length block \<le> 4096" using Suc(4) by auto
  have n: "n < 512" "m = 512 - Suc n" using Suc(2) by auto
  let ?k = "set_socket p (Some (blocks block (Suc n))) k"
  have "sys_write fd block k = (Done (Inr 512), ?k)"
    by (rule sys_write_socket(1) [OF Suc(3) b send_block(1) [OF Suc(4) n(1)]])
  moreover have "fill_socket fd block (c + 512) ?k =
      Some (c + 512 + (512 - int (Suc n)) * 512, Inl EAGAIN, set_socket p (Some (blocks block 512)) ?k)"
    using Suc(1) [OF n(2) socket_end_set [OF Suc(3)] Suc(4)] n by simp
  ultimately show ?case by (subst fill_socket.simps) (simp add: set_socket_def algebra_simps)
qed

lemma drain_socket_result:
  assumes "socket_end True False fd p (blocks block n) k" "length block = 512"
  shows "drain_socket fd (512 * int n) k = Some (Inr (set_socket p (Some (blocks block 0)) k))"
  using assms
proof (induction n arbitrary: k)
  case 0
  then show ?case by (subst drain_socket.simps) (simp add: set_socket_def socket_end_def deref_Some)
next
  case (Suc n)
  have b: "block \<noteq> []" using Suc(3) by auto
  let ?k = "set_socket p (Some (blocks block n)) k"
  have "sys_read fd 512 k = (Done (Inr block), ?k)"
    using sys_read_socket [OF Suc(2) _ _ receive_block [OF Suc(3)]] blocks_ends [of block "Suc n"] by simp
  moreover have "512 * int (Suc n) - int (length block) = 512 * int n" using Suc(3) by simp
  ultimately show ?case
    using Suc.IH [OF socket_end_set [OF Suc(2)] Suc(3)] b
    by (subst drain_socket.simps) (simp add: set_socket_def)
qed

lemma unix_state_ends:
  "socket_end False nonblock 3 0 x (unix_state cloexec nonblock x)" "socket_end True False 4 0 x (unix_state cloexec nonblock x)"
proof -
  have "e_desc (entry_of (unix_state cloexec nonblock x) 3) = Some 3" "e_desc (entry_of (unix_state cloexec nonblock x) 4) = Some 4"
    "deref (descriptions (unix_state cloexec nonblock x)) 3 = Some (sock_desc False nonblock)"
    "deref (descriptions (unix_state cloexec nonblock x)) 4 = Some (sock_desc True False)"
    by (simp_all add: unix_state_def entry_of_def deref_def numeral_3_eq_3)
  moreover have "told s (unix_state cloexec nonblock x)" for s
    by (simp add: told_def unix_state_def spawn_kernel_def start_kernel_def list_all_iff)
  ultimately show "socket_end False nonblock 3 0 x (unix_state cloexec nonblock x)" "socket_end True False 4 0 x (unix_state cloexec nonblock x)"
    by (simp_all add: socket_end_def bad_index_def MAX_OPEN_def sock_desc_def unix_state_def deref_def)
qed

lemma unix_state_set: "set_socket 0 (Some y) (unix_state cloexec nonblock x) = unix_state cloexec nonblock y"
  by (simp add: set_socket_def unix_state_def)

lemma capacity_calls:
  "call (recv 4 1 MSG_DONTWAIT unix_idle) f = f (Inl EAGAIN) unix_idle"
  "CHECKED (fcntl_setfl 3 False True unix_idle) what g = g () (unix_state True True (pair_create Stream))"
  "CHECKED (fcntl_setfl 3 False False (unix_state True True (pair_create Stream))) what g = g () unix_idle"
  by (rule same_run, code_simp)+

lemma unix_capacity_passes:
  assumes "length junk = 512"
  shows "unix_capacity junk 3 4 rest unix_idle = rest unix_idle"
proof -
  let ?k = "unix_state True True"
  have f: "fill_socket 3 junk 0 (?k (pair_create Stream)) = Some (262144, Inl EAGAIN, ?k (blocks junk 512))"
    using fill_socket_result [of 3 0 junk 0 "?k (pair_create Stream)" 0] unix_state_ends(1) assms
    by (simp add: blocks_0 unix_state_set)
  have "drain_socket 4 (512 * int 512) (?k (blocks junk 512)) = Some (Inr (set_socket 0 (Some (blocks junk 0)) (?k (blocks junk 512))))"
    by (rule drain_socket_result [OF unix_state_ends(2) assms])
  then have d: "drain_socket 4 262144 (?k (blocks junk 512)) = Some (Inr (?k (pair_create Stream)))"
    by (simp add: blocks_0 unix_state_set)
  show ?thesis
    by (simp add: unix_capacity_def capacity_calls CHECK_def f d)
qed

end
