(* ===== verification/UnixThreads.thy ===== *)
theory UnixThreads
  imports UnixProbe
begin

text \<open>
  The exchange of \<open>unix-probe\<close> with a second thread (\<open>peer\<close>, lines 72 to 85 and 192 to 203): in every
  round a new pipe's write end goes through the socket, and the number of the round comes back through
  the pipe. A move is one call of one thread, or the end of its wait; every choice of who moves is
  covered.
\<close>

section \<open>The threads\<close>

datatype main_at =
    MPipe | MSend int int | MCloseW int int | MRead int | MReadWait int ptr | MEof int | MEofWait int ptr | MCloseR int | MFail

datatype peer_at = PReceive | PReceiveWait ptr | PWrite int | PClose int | PFail

text \<open>The rounds that each thread still has to make, as the bytes of their numbers.\<close>

record exch =
  x_main :: main_at
  x_rounds :: "u8 list list"
  x_peer :: peer_at
  x_left :: "u8 list list"
  x_kernel :: kernel

text \<open>A call's result and the thread's next place; a thread whose call waits again does not move.\<close>

definition main_goes :: "exch \<Rightarrow> main_at \<times> kernel \<Rightarrow> exch" where
  "main_goes s r = s\<lparr>x_main := fst r, x_kernel := snd r\<rparr>"

definition main_move :: "int \<Rightarrow> exch \<Rightarrow> exch option" where
  "main_move ex0 s =
     (let k = x_kernel s
      in case x_main s of
           MPipe \<Rightarrow>
             if x_rounds s = [] then None
             else Some (main_goes s (case sys_pipe2 False False k of
               (Inr (p0, p1), k1) \<Rightarrow> (MSend p0 p1, k1) | (Inl _, k1) \<Rightarrow> (MFail, k1)))
         | MSend p0 p1 \<Rightarrow>
             Some (main_goes s (case send_fds ex0 (ascii ''m'') [p1] k of
               (r, k1) \<Rightarrow> (if sent_ok 1 r then MCloseW p0 p1 else MFail, k1)))
         | MCloseW p0 p1 \<Rightarrow>
             Some (main_goes s (case sys_close p1 k of (r, k1) \<Rightarrow> (if r = Inr () then MRead p0 else MFail, k1)))
         | MRead p0 \<Rightarrow>
             Some (main_goes s (case sys_read p0 4 k of
               (Waiting d, k1) \<Rightarrow> (MReadWait p0 d, k1)
             | (Done r, k1) \<Rightarrow> (if r = Inr (hd (x_rounds s)) then MEof p0 else MFail, k1)))
         | MReadWait p0 d \<Rightarrow>
             (case read_turn d 4 k of
                (Waiting _, _) \<Rightarrow> None
              | (Done r, k1) \<Rightarrow> Some (main_goes s (if r = Inr (hd (x_rounds s)) then MEof p0 else MFail, k1)))
         | MEof p0 \<Rightarrow>
             Some (main_goes s (case sys_read p0 1 k of
               (Waiting d, k1) \<Rightarrow> (MEofWait p0 d, k1)
             | (Done r, k1) \<Rightarrow> (if r = Inr [] then MCloseR p0 else MFail, k1)))
         | MEofWait p0 d \<Rightarrow>
             (case read_turn d 1 k of
                (Waiting _, _) \<Rightarrow> None
              | (Done r, k1) \<Rightarrow> Some (main_goes s (if r = Inr [] then MCloseR p0 else MFail, k1)))
         | MCloseR p0 \<Rightarrow> Some ((main_goes s (MPipe, snd (sys_close p0 k)))\<lparr>x_rounds := tl (x_rounds s)\<rparr>)
         | MFail \<Rightarrow> None)"

definition peer_goes :: "exch \<Rightarrow> peer_at \<times> kernel \<Rightarrow> exch" where
  "peer_goes s r = s\<lparr>x_peer := fst r, x_kernel := snd r\<rparr>"

definition peer_got :: "errno + u8 list \<times> int list \<times> bool \<Rightarrow> peer_at" where
  "peer_got r = (case r of Inr (bytes, fds, _) \<Rightarrow> if length bytes = 1 \<and> length fds = 1 then PWrite (hd fds) else PFail | Inl _ \<Rightarrow> PFail)"

definition peer_move :: "int \<Rightarrow> exch \<Rightarrow> exch option" where
  "peer_move ex1 s =
     (let k = x_kernel s
      in case x_peer s of
           PReceive \<Rightarrow>
             if x_left s = [] then None
             else Some (peer_goes s (case receive_fds ex1 1 1 MSG_CMSG_CLOEXEC k of
               (Waiting d, k1) \<Rightarrow> (PReceiveWait d, k1) | (Done r, k1) \<Rightarrow> (peer_got r, k1)))
         | PReceiveWait d \<Rightarrow>
             (case map_call received_fds (recvmsg_again d [1] True (CMSG_SPACE 4) MSG_CMSG_CLOEXEC k) of
                (Waiting _, _) \<Rightarrow> None
              | (Done r, k1) \<Rightarrow> Some (peer_goes s (peer_got r, k1)))
         | PWrite fd \<Rightarrow>
             Some (peer_goes s (case sys_write fd (hd (x_left s)) k of
               (Done r, k1) \<Rightarrow> (if r = Inr 4 then PClose fd else PFail, k1) | (Waiting _, k1) \<Rightarrow> (PFail, k1)))
         | PClose fd \<Rightarrow>
             Some (case sys_close fd k of
               (Inr _, k1) \<Rightarrow> (peer_goes s (PReceive, k1))\<lparr>x_left := tl (x_left s)\<rparr>
             | (Inl _, k1) \<Rightarrow> peer_goes s (PFail, k1))
         | PFail \<Rightarrow> None)"

text \<open>The thread that is chosen moves; when it cannot, the other one does.\<close>

definition exch_move :: "int \<Rightarrow> int \<Rightarrow> bool \<Rightarrow> exch \<Rightarrow> exch" where
  "exch_move ex0 ex1 choice s =
     (let moves = (if choice then [main_move ex0 s, peer_move ex1 s] else [peer_move ex1 s, main_move ex0 s])
      in case moves of [Some s', _] \<Rightarrow> s' | [None, Some s'] \<Rightarrow> s' | _ \<Rightarrow> s)"

definition exch_run :: "int \<Rightarrow> int \<Rightarrow> bool list \<Rightarrow> exch \<Rightarrow> exch" where
  "exch_run ex0 ex1 = fold (exch_move ex0 ex1)"

definition ROUNDS :: nat where "ROUNDS = 200"

definition exch_start :: "u8 list list \<Rightarrow> kernel \<Rightarrow> exch" where
  "exch_start rounds k = \<lparr>x_main = MPipe, x_rounds = rounds, x_peer = PReceive, x_left = rounds, x_kernel = k\<rparr>"

section \<open>One round\<close>

text \<open>All ways to the end of a round, by trying them: whether each ends well.\<close>

fun explore :: "nat \<Rightarrow> int \<Rightarrow> int \<Rightarrow> (exch \<Rightarrow> bool) \<Rightarrow> exch \<Rightarrow> bool list" where
  "explore 0 ex0 ex1 good s = [False]"
| "explore (Suc n) ex0 ex1 good s =
     (if x_main s = MPipe then [good s]
      else (case main_move ex0 s of None \<Rightarrow> [peer_move ex1 s \<noteq> None] | Some s' \<Rightarrow> explore n ex0 ex1 good s') @
        (case peer_move ex1 s of None \<Rightarrow> [] | Some s' \<Rightarrow> explore n ex0 ex1 good s'))"

text \<open>The kernel while nobody does anything, or while the peer waits for the next message. What the round
  does not look at is arbitrary.\<close>

definition exch_descs :: "bool \<Rightarrow> description option list" where
  "exch_descs waits = replicate 3 (Some console_description) @
     [Some (sock_desc False False), Some ((sock_desc True False)\<lparr>refs := if waits then 2 else 1\<rparr>), None, None]"

definition exch_table :: "entry list" where
  "exch_table = map (\<lambda>d. \<lparr>e_desc = Some d, e_cloexec = False\<rparr>) [0, 1, 2, 3, 4] @ replicate 3 \<lparr>e_desc = None, e_cloexec = False\<rparr>"

definition exch_kernel :: "description option list \<Rightarrow> pipe option list \<Rightarrow> entry list \<Rightarrow> fsys \<Rightarrow> locktab \<Rightarrow> bool \<Rightarrow> kernel" where
  "exch_kernel ds ps es fs lks waits =
     \<lparr>descriptions = exch_descs waits @ ds, pipes = None # ps, eventfds = [None, None, None], epolls = [None, None, None],
      sockets = [Some (pair_create Stream), None, None], table = exch_table @ es,
      fsys = fs, rlocks = lks, owner_pid = 7, cwd = ''/'', tasks = [], next_pid = 8\<rparr>"

text \<open>The thread that waits, and what the state is made of, handed to a predicate.\<close>

type_synonym leaf = "bool \<Rightarrow> u8 list list \<Rightarrow> u8 list list \<Rightarrow> description option list \<Rightarrow> pipe option list \<Rightarrow> entry list \<Rightarrow> fsys \<Rightarrow> locktab \<Rightarrow> bool"

fun after_prefix :: "'a list \<Rightarrow> 'a list \<Rightarrow> 'a list option" where
  "after_prefix [] ys = Some ys"
| "after_prefix (x # xs) [] = None"
| "after_prefix (x # xs) (y # ys) = (if x = y then after_prefix xs ys else None)"

definition round_over :: "leaf \<Rightarrow> exch \<Rightarrow> bool" where
  "round_over P s =
     (let k = x_kernel s; waits = (x_peer s = PReceiveWait 4)
      in if (x_peer s = PReceive \<or> waits) \<and> eventfds k = [None, None, None] \<and>
            epolls k = [None, None, None] \<and> sockets k = [Some (pair_create Stream), None, None] \<and>
            owner_pid k = 7 \<and> cwd k = ''/'' \<and> tasks k = [] \<and> next_pid k = 8
         then case (after_prefix (exch_descs waits) (descriptions k), pipes k, after_prefix exch_table (table k)) of
           (Some ds, None # ps, Some es) \<Rightarrow> P waits (x_rounds s) (x_left s) ds ps es (fsys k) (rlocks k)
         | _ \<Rightarrow> False
         else False)"

definition round_begin :: "bool \<Rightarrow> u8 list list \<Rightarrow> kernel \<Rightarrow> exch" where
  "round_begin waits vs k =
     \<lparr>x_main = MPipe, x_rounds = vs, x_peer = (if waits then PReceiveWait 4 else PReceive), x_left = vs, x_kernel = k\<rparr>"

definition after_pipe :: "(exch \<Rightarrow> bool) \<Rightarrow> exch \<Rightarrow> bool" where
  "after_pipe good s = (case main_move 3 s of Some s' \<Rightarrow> list_all (\<lambda>a. a) (explore 13 3 4 good s') | None \<Rightarrow> False)"

lemma after_pipeD:
  "after_pipe good s \<Longrightarrow> main_move 3 s = Some (the (main_move 3 s))"
  "after_pipe good s \<Longrightarrow> list_all (\<lambda>a. a) (explore 13 3 4 good (the (main_move 3 s)))"
  by (cases "main_move 3 s"; simp only: after_pipe_def option.case option.sel)+

lemma one_round_left:
  "after_pipe (round_over P) (round_begin True [[a, b, c, d]] (exch_kernel ds ps es fs lks True)) = P False [] [] ds ps es fs lks"
  "after_pipe (round_over P) (round_begin False [[a, b, c, d]] (exch_kernel ds ps es fs lks False)) = P False [] [] ds ps es fs lks"
  by (code_simp, simp)+

lemma more_rounds_left:
  "after_pipe (round_over P) (round_begin True ([a, b, c, d] # v # vs) (exch_kernel ds ps es fs lks True)) =
     (P False (v # vs) (v # vs) ds ps es fs lks \<and> P True (v # vs) (v # vs) ds ps es fs lks)"
  by (code_simp, blast)

lemma more_rounds_left':
  "after_pipe (round_over P) (round_begin False ([a, b, c, d] # v # vs) (exch_kernel ds ps es fs lks False)) =
     (P False (v # vs) (v # vs) ds ps es fs lks \<and> P True (v # vs) (v # vs) ds ps es fs lks)"
  by (code_simp, blast)

lemma same_value:
  assumes "\<And>P :: 'a \<Rightarrow> bool. P x = P y"
  shows "x = y"
  using assms [of "\<lambda>z. x = z"] by simp

lemma peer_first:
  "peer_move 4 (round_begin False ([a, b, c, d] # vs) (exch_kernel ds ps es fs lks False)) =
    Some (round_begin True ([a, b, c, d] # vs) (exch_kernel ds ps es fs lks True))"
  "peer_move 4 (round_begin True ([a, b, c, d] # vs) (exch_kernel ds ps es fs lks True)) = None"
  by (rule same_value, code_simp)+

section \<open>All rounds\<close>

lemma exch_run_Cons: "exch_run ex0 ex1 (c # cs) s = exch_run ex0 ex1 cs (exch_move ex0 ex1 c s)"
  by (simp add: exch_run_def)

lemma exch_run_append: "exch_run ex0 ex1 (as @ bs) s = exch_run ex0 ex1 bs (exch_run ex0 ex1 as s)"
  by (simp add: exch_run_def)

text \<open>Whatever the choices, a run follows one of the ways that were tried.\<close>

lemma explore_run:
  assumes "list_all (\<lambda>a. a) (explore n ex0 ex1 good s)" "n \<le> length cs"
  shows "\<exists>as bs. cs = as @ bs \<and> length as \<le> n \<and> x_main (exch_run ex0 ex1 as s) = MPipe \<and> good (exch_run ex0 ex1 as s)"
  using assms
proof (induction n arbitrary: s cs)
  case (Suc n)
  show ?case
  proof (cases "x_main s = MPipe")
    case True
    then show ?thesis using Suc.prems(1) by (intro exI [of _ "[]"] exI [of _ cs]) (simp add: exch_run_def)
  next
    case False
    obtain c cs' where c: "cs = c # cs'" "n \<le> length cs'" using Suc.prems(2) by (cases cs) auto
    have tried: "list_all (\<lambda>a. a) (explore n ex0 ex1 good s')" if "main_move ex0 s = Some s' \<or> peer_move ex1 s = Some s'" for s'
      using that Suc.prems(1) False by (auto split: option.splits)
    have "main_move ex0 s \<noteq> None \<or> peer_move ex1 s \<noteq> None" using Suc.prems(1) False by (auto split: option.splits)
    then have "list_all (\<lambda>a. a) (explore n ex0 ex1 good (exch_move ex0 ex1 c s))"
      using tried by (auto simp: exch_move_def Let_def split: option.split)
    from Suc.IH [OF this c(2)] obtain as bs where "cs' = as @ bs" "length as \<le> n"
      "x_main (exch_run ex0 ex1 as (exch_move ex0 ex1 c s)) = MPipe" "good (exch_run ex0 ex1 as (exch_move ex0 ex1 c s))" by blast
    then show ?thesis using c(1) by (intro exI [of _ "c # as"] exI [of _ bs]) (simp add: exch_run_Cons)
  qed
qed simp

lemma after_prefix_eq: "after_prefix xs ys = Some zs \<longleftrightarrow> ys = xs @ zs"
  by (induction xs ys rule: after_prefix.induct) auto

lemma round_overD:
  assumes "round_over P s" "x_main s = MPipe"
  shows "\<exists>w ds ps es fs lks. P w (x_rounds s) (x_left s) ds ps es fs lks \<and>
    s = (round_begin w (x_rounds s) (exch_kernel ds ps es fs lks w))\<lparr>x_left := x_left s\<rparr>"
proof -
  let ?w = "x_peer s = PReceiveWait 4"
  obtain ds ps es where "after_prefix (exch_descs ?w) (descriptions (x_kernel s)) = Some ds" "pipes (x_kernel s) = None # ps"
    "after_prefix exch_table (table (x_kernel s)) = Some es"
    and P: "P ?w (x_rounds s) (x_left s) ds ps es (fsys (x_kernel s)) (rlocks (x_kernel s))"
    using assms(1) by (auto simp: round_over_def Let_def split: if_splits option.splits list.splits)
  moreover have "x_peer s = PReceive \<or> ?w" "eventfds (x_kernel s) = [None, None, None]" "epolls (x_kernel s) = [None, None, None]"
    "sockets (x_kernel s) = [Some (pair_create Stream), None, None]" "owner_pid (x_kernel s) = 7" "cwd (x_kernel s) = ''/''"
    "tasks (x_kernel s) = []" "next_pid (x_kernel s) = 8"
    using assms(1) by (auto simp: round_over_def Let_def split: if_splits)
  ultimately have "x_kernel s = exch_kernel ds ps es (fsys (x_kernel s)) (rlocks (x_kernel s)) ?w"
    by (intro kernel.equality) (simp_all add: exch_kernel_def after_prefix_eq)
  then show ?thesis
    using P \<open>x_peer s = PReceive \<or> ?w\<close> assms(2)
    by (intro exI [of _ ?w] exI [of _ ds] exI [of _ ps] exI [of _ es] exI [of _ "fsys (x_kernel s)"] exI [of _ "rlocks (x_kernel s)"])
      (auto simp: round_begin_def intro!: exch.equality)
qed

text \<open>A round takes at most 15 moves: two before the pipe is there, 13 after.\<close>

lemma one_round:
  assumes v: "length v = 4" and cs: "15 \<le> length cs"
  shows "\<exists>as bs w'. cs = as @ bs \<and> length as \<le> 15 \<and> (vs = [] \<longrightarrow> \<not> w') \<and>
    exch_run 3 4 as (round_begin w (v # vs) (exch_kernel ds ps es fs lks w)) = round_begin w' vs (exch_kernel ds ps es fs lks w')"
proof -
  obtain a b c d where abcd: "v = [a, b, c, d]"
    using v by (auto simp: numeral_eq_Suc length_Suc_conv)
  let ?s = "\<lambda>w. round_begin w (v # vs) (exch_kernel ds ps es fs lks w)"
  define P :: leaf where "P = (\<lambda>w' r l ds' ps' es' fs' lks'.
    (vs = [] \<longrightarrow> \<not> w') \<and> r = vs \<and> l = vs \<and> ds' = ds \<and> ps' = ps \<and> es' = es \<and> fs' = fs \<and> lks' = lks)"
  have tried: "after_pipe (round_over P) (?s w)" for w
  proof (cases vs)
    case Nil
    have "P False [] [] ds ps es fs lks" by (simp add: P_def Nil)
    then have "after_pipe (round_over P) (?s True)" "after_pipe (round_over P) (?s False)"
      unfolding abcd Nil one_round_left by assumption+
    then show ?thesis by (rule bool.induct [of "\<lambda>w. after_pipe (round_over P) (?s w)"])
  next
    case (Cons u us)
    have "P False (u # us) (u # us) ds ps es fs lks" "P True (u # us) (u # us) ds ps es fs lks" by (simp_all add: P_def Cons)
    then have "after_pipe (round_over P) (?s True)" "after_pipe (round_over P) (?s False)"
      unfolding abcd Cons more_rounds_left more_rounds_left' by (rule conjI)+
    then show ?thesis by (rule bool.induct [of "\<lambda>w. after_pipe (round_over P) (?s w)"])
  qed
  define s1 where "s1 w = the (main_move 3 (?s w))" for w
  have s1: "main_move 3 (?s w) = Some (s1 w)" "list_all (\<lambda>a. a) (explore 13 3 4 (round_over P) (s1 w))" for w
    using after_pipeD [OF tried] by (simp_all only: s1_def)
  have peer: "peer_move 4 (?s False) = Some (?s True)" "peer_move 4 (?s True) = None" by (simp_all add: abcd peer_first)
  have piped: "exch_move 3 4 x (?s True) = s1 True" "exch_move 3 4 True (?s w) = s1 w" for x w
    using s1(1) peer(2) by (auto simp: exch_move_def Let_def)
  have waits: "exch_move 3 4 False (?s False) = ?s True" using peer(1) by (simp add: exch_move_def Let_def split: option.split)
  obtain x y cs' where c: "cs = x # y # cs'" "13 \<le> length cs'"
    using cs by (cases cs; cases "tl cs") auto
  have "\<exists>as bs w'. cs = as @ bs \<and> length as \<le> 2 \<and> 13 \<le> length bs \<and> exch_run 3 4 as (?s w) = s1 w'"
  proof (cases "w \<or> x")
    case True
    then have "exch_run 3 4 [x] (?s w) = s1 w" using piped by (cases w) (auto simp: exch_run_def)
    then show ?thesis using c by (intro exI [of _ "[x]"] exI [of _ "y # cs'"]) auto
  next
    case False
    then have "exch_run 3 4 [x, y] (?s w) = s1 True" using piped(1) waits by (auto simp: exch_run_def)
    then show ?thesis using c by (intro exI [of _ "[x, y]"] exI [of _ cs']) auto
  qed
  then obtain as bs w' where as: "cs = as @ bs" "length as \<le> 2" "13 \<le> length bs" "exch_run 3 4 as (?s w) = s1 w'" by blast
  obtain as' bs' where as': "bs = as' @ bs'" "length as' \<le> 13" "x_main (exch_run 3 4 as' (s1 w')) = MPipe"
    "round_over P (exch_run 3 4 as' (s1 w'))"
    using explore_run [OF s1(2) as(3)] by blast
  define t where "t = exch_run 3 4 as' (s1 w')"
  obtain w2 ds2 ps2 es2 fs2 lks2 where "P w2 (x_rounds t) (x_left t) ds2 ps2 es2 fs2 lks2"
    "t = (round_begin w2 (x_rounds t) (exch_kernel ds2 ps2 es2 fs2 lks2 w2))\<lparr>x_left := x_left t\<rparr>"
    using round_overD [OF as'(4,3)] unfolding t_def by blast
  moreover have "(round_begin w2 vs k)\<lparr>x_left := vs\<rparr> = round_begin w2 vs k" for k by (simp add: round_begin_def)
  ultimately have "t = round_begin w2 vs (exch_kernel ds ps es fs lks w2)" "vs = [] \<longrightarrow> \<not> w2" unfolding P_def by metis+
  then show ?thesis
    using as as'(1,2) by (intro exI [of _ "as @ as'"] exI [of _ bs'] exI [of _ w2]) (auto simp: exch_run_append t_def)
qed

lemma finished_stays: "exch_run 3 4 cs (round_begin False [] k) = round_begin False [] k"
proof (induction cs)
  case (Cons c cs)
  have "main_move 3 (round_begin False [] k) = None" "peer_move 4 (round_begin False [] k) = None"
    by (simp_all add: main_move_def peer_move_def round_begin_def)
  then have "exch_move 3 4 c (round_begin False [] k) = round_begin False [] k" by (simp add: exch_move_def Let_def)
  then show ?case using Cons.IH by (simp add: exch_run_Cons)
qed (simp add: exch_run_def)

lemma all_rounds:
  assumes "list_all (\<lambda>v. length v = 4) vs" "vs = [] \<longrightarrow> \<not> w" "15 * length vs \<le> length cs"
  shows "exch_run 3 4 cs (round_begin w vs (exch_kernel ds ps es fs lks w)) = round_begin False [] (exch_kernel ds ps es fs lks False)"
  using assms
proof (induction vs arbitrary: w cs)
  case Nil
  then show ?case using finished_stays by simp
next
  case (Cons v vs)
  obtain as bs w' where r: "cs = as @ bs" "length as \<le> 15" "vs = [] \<longrightarrow> \<not> w'"
    "exch_run 3 4 as (round_begin w (v # vs) (exch_kernel ds ps es fs lks w)) = round_begin w' vs (exch_kernel ds ps es fs lks w')"
    using one_round [of v cs vs w ds ps es fs lks] Cons.prems by auto
  have "15 * length vs \<le> length bs" using Cons.prems(3) r(1,2) by simp
  then have "exch_run 3 4 bs (round_begin w' vs (exch_kernel ds ps es fs lks w')) = round_begin False [] (exch_kernel ds ps es fs lks False)"
    using Cons.IH [OF _ r(3)] Cons.prems(1) by simp
  then show ?case by (simp add: r(1,4) exch_run_append)
qed

section \<open>The program\<close>

text \<open>The exchange with the peer thread, which is joined at its end. Runs that stop before both have finished
  say nothing.\<close>

definition round_values :: "u8 list list" where
  "round_values = map (\<lambda>i. le_bytes 4 (int i)) [0..<ROUNDS]"

definition unix_exchange :: "bool list \<Rightarrow> (int \<Rightarrow> int \<Rightarrow> kernel \<Rightarrow> run) \<Rightarrow> kernel \<Rightarrow> run" where
  "unix_exchange choices rest k =
     CHECKED (socketpair AF_UNIX 1 False False 0 k) ''exchange pair'' (\<lambda>(ex0, ex1) k.
       let s = exch_run ex0 ex1 choices (exch_start round_values k)
       in if x_main s = MFail then Fail ''send round''
          else if x_peer s = PFail then Fail ''peer done''
          else if x_main s = MPipe \<and> x_rounds s = [] \<and> x_left s = [] then rest ex0 ex1 (x_kernel s)
          else Hang)"

definition unix_main :: "bool list \<Rightarrow> u8 list \<Rightarrow> kernel \<Rightarrow> run" where
  "unix_main choices junk =
     unix_stream (\<lambda>sv0 sv1.
       unix_pipe_end sv0 sv1 (unix_file sv0 sv1 (unix_rights sv0 sv1 (unix_ctrunc sv0 sv1 (
       unix_capacity junk sv0 sv1 (unix_epoll sv0 sv1 (unix_messages (
       unix_exchange choices unix_in_flight))))))))"

lemma exchange_pair: "CHECKED (socketpair AF_UNIX 1 False False 0 spawn_kernel) what f =
    f (3, 4) (unix_state False False (pair_create Stream))"
  by (rule same_run) code_simp

lemma unix_state_exch:
  "unix_state False False (pair_create Stream) =
    exch_kernel (replicate 5 None) [None, None] (replicate 248 \<lparr>e_desc = None, e_cloexec = False\<rparr>) start_files no_locks False"
  by (rule same_value) code_simp

lemma le_bytes_length: "length (le_bytes n v) = n"
  by (induction n arbitrary: v) simp_all

lemma unix_exchange_passes:
  assumes "15 * ROUNDS \<le> length choices"
  shows "unix_exchange choices rest spawn_kernel = rest 3 4 (unix_state False False (pair_create Stream))"
proof -
  have "exch_run 3 4 choices (round_begin False round_values (unix_state False False (pair_create Stream))) =
      round_begin False [] (unix_state False False (pair_create Stream))"
    unfolding unix_state_exch by (rule all_rounds) (use assms in \<open>simp_all add: round_values_def list_all_iff le_bytes_length\<close>)
  then show ?thesis
    by (simp add: unix_exchange_def exchange_pair Let_def exch_start_def round_begin_def)
qed

text \<open>C13: Unix-probe passes on this kernel, however the two threads of its exchange take turns: data, descriptors and end of
  file arrive as the program expects over 200 rounds, and at the end no descriptor, pipe or socket is
  left open.\<close>

theorem unix_probe_passes:
  assumes "15 * ROUNDS \<le> length choices" "length junk = 512"
  shows "unix_main choices junk spawn_kernel = Pass spawn_kernel"
  using assms
  by (simp add: unix_main_def unix_stream_passes unix_pipe_end_passes unix_file_passes unix_rights_passes unix_ctrunc_passes
      unix_capacity_passes unix_epoll_passes unix_messages_passes unix_exchange_passes unix_in_flight_passes)

text \<open>Two threads in turn, and a buffer of zeros.\<close>

theorem unix_probe_passes_witness:
  "unix_main (concat (replicate 1500 [True, False])) (replicate 512 0) spawn_kernel = Pass spawn_kernel"
proof (rule unix_probe_passes)
  show "15 * ROUNDS \<le> length (concat (replicate 1500 [True, False]))"
    by (simp add: ROUNDS_def length_concat sum_list_replicate map_replicate_const)
qed simp

end
