(* ===== verification/ThreadCapacity.thy ===== *)
theory ThreadCapacity
  imports Prelude
begin

text \<open>
  \<open>userland/bin/thread-capacity/probe.c\<close>: threads are created until the program may have no more,
  released together and joined, twice. The state is the program's: its threads, where \<open>main\<close> is, and
  what the mutex guards. A stretch of code under the mutex, or a call, is one step, and any thread
  that can run may take the next one.

  Of the kernel (\<open>kernel/sched/sched.zig\<close>) the model has the count of live threads: a thread is
  counted from its creation until some time after it has returned.
\<close>

section \<open>The program\<close>

definition WAVE_EXPECTED :: int where "WAVE_EXPECTED = 511"
definition ATTEMPTS :: nat where "ATTEMPTS = 600"
definition MAX_THREADS_PER_PROCESS :: nat where "MAX_THREADS_PER_PROCESS = 512"

text \<open>A thread: not yet in \<open>parked\<close>, asleep on \<open>release\<close>, woken from there, or returned with a result.\<close>

datatype thread = Fresh | Parked | Roused | Gone nat

text \<open>Where \<open>main\<close> is: creating, about to look at \<open>started\<close>, asleep on \<open>arrived\<close>, about to join a
  thread, in its pause, or returned, having printed PASS or not.\<close>

datatype main_at = Creating | Looking | Asleep | Joining nat | Pausing | Finished bool

record capacity =
  wave_no :: nat
  at_main :: main_at
  threads :: "thread list"
  started :: nat
  released :: bool
  leaving :: nat
  first_wave :: int

definition capacity_start :: capacity where
  "capacity_start = \<lparr>wave_no = 1, at_main = Creating, threads = [], started = 0, released = False, leaving = 0, first_wave = 0\<rparr>"

text \<open>The threads the kernel counts: \<open>main\<close>, those that have not returned, and those on their way out.\<close>

definition live_threads :: "capacity \<Rightarrow> nat" where
  "live_threads s = 1 + length (filter (\<lambda>t. case t of Gone _ \<Rightarrow> False | _ \<Rightarrow> True) (threads s)) + leaving s"

text \<open>\<open>parked\<close>: a thread comes in, or comes back from its wait. Signalling \<open>arrived\<close> wakes \<open>main\<close> if it
  sleeps there; waiting on \<open>release\<close> ends when \<open>released\<close> is set, and the thread returns its argument.\<close>

definition leave_or_wait :: "nat \<Rightarrow> capacity \<Rightarrow> capacity" where
  "leave_or_wait i s =
     (if released s then s\<lparr>threads := (threads s)[i := Gone i], leaving := leaving s + 1\<rparr>
      else s\<lparr>threads := (threads s)[i := Parked]\<rparr>)"

definition parked_enters :: "nat \<Rightarrow> capacity \<Rightarrow> capacity" where
  "parked_enters i s =
     leave_or_wait i (s\<lparr>started := started s + 1, at_main := (if at_main s = Asleep then Looking else at_main s)\<rparr>)"

text \<open>The end of \<open>wave\<close> with a result, and what \<open>main\<close> makes of it.\<close>

definition wave_returns :: "int \<Rightarrow> capacity \<Rightarrow> capacity" where
  "wave_returns r s =
     (if wave_no s = 1 then s\<lparr>at_main := Pausing, first_wave := r\<rparr>
      else s\<lparr>at_main := Finished (first_wave s = WAVE_EXPECTED \<and> r = WAVE_EXPECTED)\<rparr>)"

text \<open>The creating loop: one more thread, or its end when the program may have no more or there have
  been enough attempts.\<close>

definition can_create :: "capacity \<Rightarrow> bool" where
  "can_create s \<longleftrightarrow> length (threads s) < ATTEMPTS \<and> live_threads s < MAX_THREADS_PER_PROCESS"

definition end_creating :: "capacity \<Rightarrow> capacity" where
  "end_creating s = (if length (threads s) = ATTEMPTS then wave_returns (-1) s else s\<lparr>at_main := Looking\<rparr>)"

text \<open>Under the mutex: sleep on \<open>arrived\<close>, or release every thread.\<close>

definition look_started :: "capacity \<Rightarrow> capacity" where
  "look_started s =
     (if started s < length (threads s) then s\<lparr>at_main := Asleep\<rparr>
      else s\<lparr>released := True, threads := map (\<lambda>t. if t = Parked then Roused else t) (threads s), at_main := Joining 0\<rparr>)"

text \<open>One \<open>pthread_join\<close> of a thread that has returned.\<close>

definition join_one :: "nat \<Rightarrow> nat \<Rightarrow> capacity \<Rightarrow> capacity" where
  "join_one i result s = (if result \<noteq> i then wave_returns (-1) s else s\<lparr>at_main := Joining (i + 1)\<rparr>)"

definition second_wave :: "capacity \<Rightarrow> capacity" where
  "second_wave s = s\<lparr>wave_no := 2, at_main := Creating, threads := [], started := 0, released := False\<rparr>"

text \<open>The steps. The pause between the waves ends once the kernel has let the first wave go.\<close>

inductive capacity_step :: "capacity \<Rightarrow> capacity \<Rightarrow> bool" where
  creates: "at_main s = Creating \<Longrightarrow> can_create s \<Longrightarrow> capacity_step s (s\<lparr>threads := threads s @ [Fresh]\<rparr>)"
| stops_creating: "at_main s = Creating \<Longrightarrow> \<not> can_create s \<Longrightarrow> capacity_step s (end_creating s)"
| looks: "at_main s = Looking \<Longrightarrow> capacity_step s (look_started s)"
| enters: "i < length (threads s) \<Longrightarrow> threads s ! i = Fresh \<Longrightarrow> capacity_step s (parked_enters i s)"
| roused: "i < length (threads s) \<Longrightarrow> threads s ! i = Roused \<Longrightarrow> capacity_step s (leave_or_wait i s)"
| leaves: "0 < leaving s \<Longrightarrow> capacity_step s (s\<lparr>leaving := leaving s - 1\<rparr>)"
| joins: "at_main s = Joining i \<Longrightarrow> i < length (threads s) \<Longrightarrow> threads s ! i = Gone r \<Longrightarrow> capacity_step s (join_one i r s)"
| joined_all: "at_main s = Joining (length (threads s)) \<Longrightarrow> capacity_step s (wave_returns (int (length (threads s))) s)"
| paused: "at_main s = Pausing \<Longrightarrow> leaving s = 0 \<Longrightarrow> capacity_step s (second_wave s)"

inductive_cases capacity_stepE: "capacity_step s s'"

section \<open>Counting\<close>

definition total_of :: "(thread \<Rightarrow> nat) \<Rightarrow> thread list \<Rightarrow> nat" where
  "total_of f ts = sum_list (map f ts)"

lemma total_of_simps [simp]: "total_of f [] = 0" "total_of f (t # ts) = f t + total_of f ts"
  "total_of f (ts @ us) = total_of f ts + total_of f us"
  by (simp_all add: total_of_def)

lemma total_of_update: "i < length ts \<Longrightarrow> total_of f (ts[i := t]) + f (ts ! i) = total_of f ts + f t"
proof (induction ts arbitrary: i)
  case (Cons u us)
  then show ?case by (cases i) fastforce+
qed simp

text \<open>How many threads have not come in yet.\<close>

definition unstarted :: "thread \<Rightarrow> nat" where
  "unstarted t = (if t = Fresh then 1 else 0)"

lemma no_unstarted: "total_of unstarted ts = 0 \<longleftrightarrow> Fresh \<notin> set ts"
  by (induction ts) (auto simp: unstarted_def)

lemma none_gone: "\<forall>t \<in> set ts. t = Fresh \<or> t = Parked \<Longrightarrow> filter (\<lambda>t. case t of Gone _ \<Rightarrow> False | _ \<Rightarrow> True) ts = ts"
  by (induction ts) auto

section \<open>The invariant\<close>

text \<open>While threads are created and come in, none has returned; once \<open>main\<close> joins, all 511 have come in,
  and none sleeps.\<close>

definition gathering :: "capacity \<Rightarrow> bool" where
  "gathering s \<longleftrightarrow> \<not> released s \<and> leaving s = 0 \<and> (\<forall>t \<in> set (threads s). t = Fresh \<or> t = Parked) \<and>
     started s + total_of unstarted (threads s) = length (threads s) \<and> length (threads s) \<le> 511"

definition releasing :: "capacity \<Rightarrow> bool" where
  "releasing s \<longleftrightarrow> released s \<and> length (threads s) = 511 \<and>
     (\<forall>i < length (threads s). threads s ! i = Roused \<or> threads s ! i = Gone i)"

definition capacity_ok :: "capacity \<Rightarrow> bool" where
  "capacity_ok s \<longleftrightarrow> (wave_no s = 1 \<or> wave_no s = 2 \<and> first_wave s = 511) \<and>
     (case at_main s of
        Creating \<Rightarrow> gathering s
      | Looking \<Rightarrow> gathering s \<and> length (threads s) = 511
      | Asleep \<Rightarrow> gathering s \<and> length (threads s) = 511 \<and> started s < 511
      | Joining i \<Rightarrow> releasing s \<and> i \<le> 511 \<and> (\<forall>j < i. threads s ! j = Gone j)
      | Pausing \<Rightarrow> releasing s \<and> wave_no s = 1 \<and> first_wave s = 511 \<and> (\<forall>j < 511. threads s ! j = Gone j)
      | Finished pass \<Rightarrow> releasing s \<and> pass \<and> wave_no s = 2 \<and> (\<forall>j < 511. threads s ! j = Gone j))"

lemma capacity_ok_start: "capacity_ok capacity_start"
  by (simp add: capacity_ok_def capacity_start_def gathering_def)

text \<open>A thread that has not come in, or that has been woken, shows which of the two it is.\<close>

lemma ok_phase: "capacity_ok s \<Longrightarrow> gathering s \<or> releasing s"
  by (auto simp: capacity_ok_def split: main_at.splits)

lemma fresh_gathering: "capacity_ok s \<Longrightarrow> i < length (threads s) \<Longrightarrow> threads s ! i = Fresh \<Longrightarrow> gathering s"
  using ok_phase [of s] by (fastforce simp: releasing_def)

lemma roused_releasing: "capacity_ok s \<Longrightarrow> i < length (threads s) \<Longrightarrow> threads s ! i = Roused \<Longrightarrow> releasing s"
  using ok_phase [of s] by (metis gathering_def nth_mem thread.distinct(3,7))

lemma gathering_live: "gathering s \<Longrightarrow> live_threads s = 1 + length (threads s)"
  by (simp add: gathering_def live_threads_def none_gone)

lemma gathering_enters:
  assumes "gathering s" "i < length (threads s)" "threads s ! i = Fresh"
  shows "gathering (parked_enters i s)" "length (threads (parked_enters i s)) = length (threads s)"
    "started (parked_enters i s) = started s + 1"
    "at_main (parked_enters i s) = (if at_main s = Asleep then Looking else at_main s)"
    "wave_no (parked_enters i s) = wave_no s" "first_wave (parked_enters i s) = first_wave s"
  using assms total_of_update [OF assms(2), of unstarted Parked]
  by (auto simp: gathering_def parked_enters_def leave_or_wait_def unstarted_def dest!: set_update_subset_insert [THEN subsetD])

lemma releasing_roused:
  assumes "releasing s" "i < length (threads s)" "threads s ! i = Roused"
  shows "releasing (leave_or_wait i s)"
  using assms by (auto simp: releasing_def leave_or_wait_def nth_list_update)

lemma capacity_ok_step:
  assumes "capacity_ok s" "capacity_step s s'"
  shows "capacity_ok s'"
  using assms(2)
proof (cases rule: capacity_step.cases)
  case creates
  then have "length (threads s) < 511"
    using assms(1) gathering_live [of s] by (auto simp: capacity_ok_def can_create_def MAX_THREADS_PER_PROCESS_def)
  then show ?thesis
    using creates assms(1) by (auto simp: capacity_ok_def gathering_def unstarted_def)
next
  case stops_creating
  then have "length (threads s) = 511"
    using assms(1) gathering_live [of s]
    by (auto simp: capacity_ok_def can_create_def MAX_THREADS_PER_PROCESS_def ATTEMPTS_def gathering_def)
  then show ?thesis
    using stops_creating assms(1) by (auto simp: capacity_ok_def end_creating_def ATTEMPTS_def gathering_def)
next
  case looks
  then have g: "gathering s" "length (threads s) = 511" using assms(1) by (auto simp: capacity_ok_def)
  show ?thesis
  proof (cases "started s < 511")
    case False
    then have "Fresh \<notin> set (threads s)" using g by (auto simp: gathering_def no_unstarted [symmetric])
    then have "threads s ! i = Parked" if "i < 511" for i
      using g that by (metis gathering_def nth_mem)
    then show ?thesis
      using looks assms(1) g False by (auto simp: capacity_ok_def look_started_def releasing_def)
  qed (use looks assms(1) g in \<open>auto simp: capacity_ok_def look_started_def gathering_def\<close>)
next
  case (enters i)
  have "gathering s" by (rule fresh_gathering [OF assms(1) enters(2,3)])
  from gathering_enters [OF this enters(2,3)] show ?thesis
    using enters assms(1) by (cases "at_main s") (auto simp: capacity_ok_def releasing_def)
next
  case (roused i)
  have "releasing s" by (rule roused_releasing [OF assms(1) roused(2,3)])
  then show ?thesis
    using releasing_roused [OF _ roused(2,3)] roused assms(1)
    by (cases "at_main s") (auto simp: capacity_ok_def leave_or_wait_def releasing_def gathering_def nth_list_update)
next
  case leaves
  then show ?thesis
    using assms(1) by (cases "at_main s") (auto simp: capacity_ok_def gathering_def releasing_def)
next
  case (joins i r)
  then have "r = i" using assms(1) by (auto simp: capacity_ok_def releasing_def)
  then show ?thesis
    using joins assms(1) by (auto simp: capacity_ok_def releasing_def join_one_def less_Suc_eq)
next
  case joined_all
  then show ?thesis
    using assms(1) by (auto simp: capacity_ok_def releasing_def wave_returns_def WAVE_EXPECTED_def)
next
  case paused
  then show ?thesis
    using assms(1) by (auto simp: capacity_ok_def second_wave_def gathering_def)
qed

lemma capacity_reach_ok: "capacity_step\<^sup>*\<^sup>* capacity_start s \<Longrightarrow> capacity_ok s"
  by (induction rule: rtranclp_induct) (auto intro: capacity_ok_start capacity_ok_step)

section \<open>Progress\<close>

lemma capacity_moves:
  assumes "capacity_ok s" "\<forall>pass. at_main s \<noteq> Finished pass"
  shows "\<exists>s'. capacity_step s s'"
proof (cases "at_main s")
  case Asleep
  then have "gathering s" "started s < length (threads s)" using assms(1) by (auto simp: capacity_ok_def)
  then have "Fresh \<in> set (threads s)" using no_unstarted [of "threads s"] by (auto simp: gathering_def)
  then obtain i where "i < length (threads s)" "threads s ! i = Fresh" by (auto simp: in_set_conv_nth)
  then show ?thesis by (blast intro: enters)
next
  case (Joining i)
  then have r: "releasing s" "i \<le> 511" using assms(1) by (auto simp: capacity_ok_def)
  show ?thesis
  proof (cases "i < 511")
    case True
    then have "threads s ! i = Roused \<or> threads s ! i = Gone i" "i < length (threads s)" using r by (auto simp: releasing_def)
    then show ?thesis using Joining by (blast intro: joins roused)
  next
    case False
    then show ?thesis using r Joining joined_all [of s] by (auto simp: releasing_def)
  qed
next
  case Pausing
  then show ?thesis by (cases "leaving s = 0") (blast intro: paused leaves)+
qed (use assms(2) in \<open>blast intro: creates stops_creating looks\<close>)+

text \<open>What is left to do.\<close>

fun thread_left :: "thread \<Rightarrow> nat" where
  "thread_left Fresh = 6" | "thread_left Parked = 4" | "thread_left Roused = 3" | "thread_left (Gone i) = 0"

fun main_left :: "main_at \<Rightarrow> nat" where
  "main_left Creating = 700" | "main_left Looking = 601" | "main_left Asleep = 600" | "main_left (Joining i) = 512 - i"
| "main_left Pausing = 0" | "main_left (Finished pass) = 0"

definition capacity_left :: "capacity \<Rightarrow> nat" where
  "capacity_left s = 5000 * (2 - wave_no s) + 8 * (511 - length (threads s)) + total_of thread_left (threads s) +
     main_left (at_main s) + leaving s"

lemma total_of_le: "(\<And>t. t \<in> set ts \<Longrightarrow> f (g t) \<le> f t) \<Longrightarrow> total_of f (map g ts) \<le> total_of f ts"
  by (induction ts) (simp_all add: add_mono)

lemma capacity_step_less:
  assumes "capacity_ok s" "capacity_step s s'"
  shows "capacity_left s' < capacity_left s"
  using assms(2)
proof (cases rule: capacity_step.cases)
  case creates
  then have "length (threads s) < 511"
    using assms(1) gathering_live [of s] by (auto simp: capacity_ok_def can_create_def MAX_THREADS_PER_PROCESS_def)
  then show ?thesis using creates by (simp add: capacity_left_def)
next
  case stops_creating
  then have "length (threads s) = 511"
    using assms(1) gathering_live [of s]
    by (auto simp: capacity_ok_def can_create_def MAX_THREADS_PER_PROCESS_def ATTEMPTS_def gathering_def)
  then show ?thesis using stops_creating by (simp add: capacity_left_def end_creating_def ATTEMPTS_def)
next
  case looks
  have "total_of thread_left (map (\<lambda>t. if t = Parked then Roused else t) (threads s)) \<le> total_of thread_left (threads s)"
    by (rule total_of_le) simp
  then show ?thesis using looks
    by (auto simp: capacity_left_def look_started_def)
next
  case (enters i)
  have "\<not> released s" using fresh_gathering [OF assms(1) enters(2,3)] by (simp add: gathering_def)
  then show ?thesis
    using enters total_of_update [OF enters(2), of thread_left Parked]
    by (auto simp: capacity_left_def parked_enters_def leave_or_wait_def)
next
  case (roused i)
  have "released s" using roused_releasing [OF assms(1) roused(2,3)] by (simp add: releasing_def)
  then show ?thesis
    using roused total_of_update [OF roused(2), of thread_left "Gone i"]
    by (auto simp: capacity_left_def leave_or_wait_def)
next
  case (joins i r)
  then have "r = i" "i < 511" using assms(1) by (auto simp: capacity_ok_def releasing_def)
  then show ?thesis using joins by (simp add: capacity_left_def join_one_def)
next
  case joined_all
  then have "length (threads s) = 511" using assms(1) by (auto simp: capacity_ok_def releasing_def)
  then show ?thesis using joined_all by (simp add: capacity_left_def wave_returns_def)
next
  case paused
  then show ?thesis using assms(1) by (simp add: capacity_left_def second_wave_def capacity_ok_def)
qed (simp add: capacity_left_def)

text \<open>C19: Whatever order the threads run in, the program never gets stuck before it has a verdict: in
  every state it can reach, some thread can take a step, and every step leaves less to do, so that
  it ends after at most 9,788 steps.\<close>

theorem capacity_terminates:
  assumes "capacity_step\<^sup>*\<^sup>* capacity_start s"
  shows "((\<forall>pass. at_main s \<noteq> Finished pass) \<longrightarrow> (\<exists>s'. capacity_step s s')) \<and>
    (\<forall>s'. capacity_step s s' \<longrightarrow> capacity_left s' < capacity_left s) \<and> capacity_left capacity_start = 9788"
  using capacity_moves capacity_step_less capacity_reach_ok [OF assms]
  by (auto simp: capacity_left_def capacity_start_def)

theorem capacity_terminates_witness: "\<exists>s'. capacity_step capacity_start s' \<and> capacity_left s' < 9788"
  using capacity_terminates [of capacity_start] by (fastforce simp: capacity_start_def)



end
