(* ===== verification/Spec2Isabelle.thy ===== *)
theory Spec2Isabelle
  imports BrowserInput AudioSink Render PipeThreads PipeProbe EpollProbe EventThreads InputProbe LockProbe SpawnProbe SpawnRules TmpFiles UnixThreads ThreadCapacity
begin

text \<open>
  OrangeOS: Orange Browser, the kernel objects behind its C programs, and the programs that test them.

  \<^bold>\<open>The system.\<close> OrangeOS is a desktop system with a kernel written in Zig and, on top of musl, C
  programs: Orange Browser (WebKit's WPE port on the Peel display server), a GStreamer audio sink, and
  programs that test what musl asks of the kernel. This development models the C programs, and of the
  kernel what they rest on: pipes, local sockets, eventfds, epoll, record locks, the in-memory filesystem, descriptor
  tables, the system calls on them, spawning, and the audio driver's ring.

  \<^bold>\<open>The browser\<close> (\<open>src/userland/bin/orange-browser\<close>).
  \<^item> \<open>PeelKeymap\<close>: \<open>peel-platform.c\<close>, the layout tables and the lookups in both directions.
  \<^item> \<open>External\<close>: what GLib, WPE, WebKit, FreeType and Peel are asked, as a record of functions.
  \<^item> \<open>PeelView\<close>, \<open>PeelDisplay\<close>: \<open>peel-platform.c\<close>, a frame's way from a buffer to the window, idle
    callbacks, activation, disposal, and the class tables.
  \<^item> \<open>BrowserDraw\<close>, \<open>Browser\<close>: \<open>browser.c\<close>, drawing; tabs, input, callbacks, main program.
  \<^item> \<open>BrowserInv\<close>, \<open>BrowserTabs\<close>, \<open>BrowserInput\<close>: the invariant of the main loop and what it gives:
    only the active tab's page is visible, no store leaves its array, every key reaches its addressee.
  The state is the record \<open>browser\<close>, which extends the platform's; its trace lists the calls into the
  engine in order. \<open>source_ok\<close> is what the engine promises of the sources it queues.

  \<^bold>\<open>Sound\<close> (\<open>src/kernel/drivers/audio/hda.zig\<close>, \<open>src/userland/libs/gst-orange\<close>,
  \<open>src/userland/bin/audio-probe\<close>). \<open>HdaStream\<close> is the DMA ring, with the device's play position as a
  parameter of each call; \<open>AudioSink\<close> the GStreamer sink and the probe on top of it.

  \<^bold>\<open>Kernel objects\<close> (\<open>src/kernel\<close>). \<open>KSlots\<close> is the memory: lists of slots that pointers index.
  \<^item> \<open>KPipe\<close>: \<open>ipc/pipe.zig\<close>. One attempt is what a read or write does between two sleeps. A pipe
    refines a queue of bytes: the locale \<open>byte_queue\<close>, interpreted on it.
  \<^item> \<open>KSocket\<close>: \<open>ipc/unix_socket.zig\<close>. A stream refines a sequence of bytes of which some carry
    descriptions, and is a \<open>byte_queue\<close> too; messages keep their boundaries.
  \<^item> \<open>KLock\<close>: \<open>fs/lock.zig\<close>. The list of locks refines a map from file, owner and byte.
  \<^item> \<open>KTmpfs\<close>, \<open>KVfs\<close>: \<open>fs/tmpfs/tmpfs.zig\<close>, \<open>fs/vfs/vfs.zig\<close>. The root filesystem's files are data
    of the state. \<open>TmpPages\<close> and \<open>TmpFiles\<close>: the pages of a file implement a size and a byte at each
    position, and a volume's counter is the number of pages its files hold.
  \<^item> \<open>KObject\<close>: \<open>fs/fd.zig\<close>, \<open>ipc/eventfd.zig\<close>, \<open>ipc/readiness.zig\<close>; \<open>KEpoll\<close>: \<open>ipc/epoll.zig\<close>.
  \<^item> \<open>KSyscall\<close>, \<open>SocketCalls\<close>, \<open>KProcess\<close>: the calls of \<open>syscall/syscall.zig\<close> and of
    \<open>musl-orange/orange.zig\<close>, those on sockets, and \<open>fcntl\<close> locks. A call that sleeps is a value, with what it holds meanwhile.
  \<^item> \<open>KSpawn\<close>: directories, paths relative to one, \<open>posix_spawn\<close>, exit and wait, with
    \<open>sched/process.zig\<close> and \<open>sched/sched.zig\<close>. \<open>SpawnRules\<close>: the child's descriptors are the ones that
    the file actions describe, and which statuses reach the parent.

  \<^bold>\<open>Test programs\<close> (\<open>src/userland/bin\<close>). \<open>Probe\<close> starts a kernel; \<open>PipeProbe\<close>, \<open>EpollProbe\<close>,
  \<open>SpawnChild\<close>, \<open>SpawnProbe\<close>, \<open>UnixProbe\<close> and \<open>LockProbe\<close> are \<open>pipe-probe\<close>, \<open>epoll-probe\<close>,
  \<open>spawn-child\<close>, \<open>spawn-probe\<close>, \<open>unix-probe\<close> and the record lock section of \<open>file-probe\<close> as programs over
  the kernel's calls, each check of the C text a check of the model; that they pass is proved by
  evaluating them on the model. \<open>UnixThreads\<close> tries every interleaving of one round of \<open>unix-probe\<close>'s two
  threads and concludes for all rounds. \<open>PipeThreads\<close>, \<open>EventThreads\<close> and
  \<open>ThreadCapacity\<close> are their concurrent sections as step relations, with invariants over all
  interleavings and measures that bound every run. \<open>InputProbe\<close> and \<open>Render\<close> are \<open>input-probe\<close> and
  \<open>wpe-render\<close>.

  \<^bold>\<open>Bounds and fuel.\<close> Loops of the code are recursion over the data they consume, or have a proved
  measure; \<open>upper\<close> reads until end of file and is a partial function whose result is proved. Releasing a
  description that carries others is a stack of pending calls, which shrinks with what is in flight. Following
  noted waits takes the 64 steps the code takes. The walk up from a directory in \<open>tmp_rename\<close> has as
  many steps as there are inodes. Words wrap where the code's do; offsets and counts that the code
  checks are integers. \<open>sink_write\<close> has fuel, and its theorems say when it is enough and that none is
  for a partial frame.

  \<^bold>\<open>Not modelled.\<close> The rest of the kernel (memory, scheduler, drivers, network), internet sockets
  and device nodes, signals and shared mappings, the Peel server, Zig programs, and the C programs that only call
  libraries from elsewhere. Calls through user memory that faults are not modelled either.
\<close>

end
